(* ===== verification/Prelude.thy ===== *)
theory Prelude
  imports Main
begin

text \<open>
  The vocabulary every component shares: JavaScript exceptions, results of type
  \<open>Either<Error, A>\<close> (monet) as sums whose left side carries the message of the
  \<open>Error\<close>, the array operations of the language that differ from HOL's (reads out of range
  give \<open>undefined\<close>, \<open>findIndex\<close> gives \<open>-1\<close>, \<open>splice\<close> counts a negative start from
  the end), and decimal rendering of integers inside template strings.
\<close>

named_theorems model_defs \<open>definitions of the model, unfolded when a closed instance is computed\<close>
named_theorems frame \<open>what an operation leaves unchanged\<close>

subsection \<open>Exceptions and results\<close>

text \<open>
  An uncaught exception ends the handler that raised it; \<open>OutOfFuel\<close> is no exception of the
  program but the mark of a cascade of callbacks that did not end within its fuel, and is proved
  unreachable where fuel is used.
\<close>

datatype exn = TypeError | RangeError | SyntaxError | OutOfFuel | CannotOpen

type_synonym 'a either = "string + 'a"

definition bindR :: "'e + 'a \<Rightarrow> ('a \<Rightarrow> 'e + 'b) \<Rightarrow> 'e + 'b" where
  "bindR x f = (case x of Inl e \<Rightarrow> Inl e | Inr a \<Rightarrow> f a)"

definition mapR :: "('a \<Rightarrow> 'b) \<Rightarrow> 'e + 'a \<Rightarrow> 'e + 'b" where
  "mapR f x = (case x of Inl e \<Rightarrow> Inl e | Inr a \<Rightarrow> Inr (f a))"

lemma bindR_simps [simp]: "bindR (Inl e) f = Inl e" "bindR (Inr a) f = f a"
  by (simp_all add: bindR_def)

lemma mapR_simps [simp]: "mapR f (Inl e) = Inl e" "mapR f (Inr a) = Inr (f a)"
  by (simp_all add: mapR_def)

lemma mapR_eq_Inr_iff: "mapR f x = Inr b \<longleftrightarrow> (\<exists>a. x = Inr a \<and> b = f a)"
  by (cases x) auto

lemma bindR_eq_Inr_iff: "bindR x f = Inr b \<longleftrightarrow> (\<exists>a. x = Inr a \<and> f a = Inr b)"
  by (cases x) auto

subsection \<open>Arrays\<close>

text \<open>Reading \<open>xs[i]\<close>: \<open>None\<close> is \<open>undefined\<close>.\<close>

definition js_nth :: "'a list \<Rightarrow> int \<Rightarrow> 'a option" where
  "js_nth xs i = (if 0 \<le> i \<and> i < int (length xs) then Some (xs ! nat i) else None)"

lemma js_nth_Some_iff: "js_nth xs i = Some x \<longleftrightarrow> 0 \<le> i \<and> nat i < length xs \<and> xs ! nat i = x"
  by (auto simp: js_nth_def)

lemma js_nth_None_iff: "js_nth xs i = None \<longleftrightarrow> i < 0 \<or> int (length xs) \<le> i"
  by (auto simp: js_nth_def)

lemma js_nth_of_nat [simp]: "js_nth xs (int n) = (if n < length xs then Some (xs ! n) else None)"
  by (simp add: js_nth_def)

text \<open>\<open>Array.prototype.findIndex\<close>.\<close>

fun find_index :: "('a \<Rightarrow> bool) \<Rightarrow> 'a list \<Rightarrow> int" where
  "find_index P [] = -1"
| "find_index P (x # xs) =
     (if P x then 0 else let i = find_index P xs in if i = -1 then -1 else i + 1)"

lemma find_index_ge: "-1 \<le> find_index P xs"
  by (induction xs) (auto simp: Let_def)

lemma find_index_lt: "find_index P xs < int (length xs)"
  by (induction xs) (auto simp: Let_def)

lemma find_index_minus1_iff: "find_index P xs = -1 \<longleftrightarrow> (\<forall>x \<in> set xs. \<not> P x)"
proof (induction xs)
  case Nil
  then show ?case by simp
next
  case (Cons x xs)
  then show ?case using find_index_ge [of P xs] by (auto simp: Let_def)
qed

lemma find_index_nonneg_iff: "0 \<le> find_index P xs \<longleftrightarrow> (\<exists>x \<in> set xs. P x)"
  using find_index_minus1_iff [of P xs] find_index_ge [of P xs] by auto

lemma find_index_nth: "find_index P xs = int k \<Longrightarrow> k < length xs \<and> P (xs ! k)"
proof (induction xs arbitrary: k)
  case Nil
  then show ?case by simp
next
  case (Cons x xs)
  show ?case
  proof (cases "P x")
    case True
    with Cons.prems show ?thesis by simp
  next
    case False
    with Cons.prems obtain j where k: "k = Suc j" and "find_index P xs = int j"
      by (cases k) (auto simp: Let_def split: if_splits)
    with Cons.IH [of j] show ?thesis by simp
  qed
qed

lemma find_index_first: "find_index P xs = int k \<Longrightarrow> j < k \<Longrightarrow> \<not> P (xs ! j)"
proof (induction xs arbitrary: k j)
  case Nil
  then show ?case by simp
next
  case (Cons x xs)
  then obtain k' where k: "k = Suc k'" and kk: "find_index P xs = int k'" and nP: "\<not> P x"
    by (cases k) (auto simp: Let_def split: if_splits)
  show ?case
    using Cons.IH [OF kk] Cons.prems k nP by (cases j) auto
qed

text \<open>
  \<open>Array.prototype.splice(i, 1)\<close>: one element removed at \<open>i\<close>, where a negative \<open>i\<close> counts
  from the end (so \<open>-1\<close>, the index \<open>findIndex\<close> and \<open>indexOf\<close> give for a missing element,
  removes the last one).
\<close>

definition splice1 :: "int \<Rightarrow> 'a list \<Rightarrow> 'a list" where
  "splice1 i xs =
     (let k = (if i < 0 then nat (max 0 (int (length xs) + i)) else nat i)
      in take k xs @ drop (Suc k) xs)"

lemma splice1_nat: "splice1 (int k) xs = take k xs @ drop (Suc k) xs"
  by (simp add: splice1_def)

lemma splice1_minus1: "splice1 (-1) xs = butlast xs"
proof (cases "xs = []")
  case True
  then show ?thesis by (simp add: splice1_def)
next
  case False
  then have "nat (max 0 (int (length xs) + -1)) = length xs - 1" by simp
  then show ?thesis using False by (simp add: splice1_def butlast_conv_take Let_def)
qed

lemma splice1_find_index:
  assumes "\<exists>x \<in> set xs. P x"
  shows "\<exists>ys x zs. xs = ys @ x # zs \<and> P x \<and> (\<forall>y \<in> set ys. \<not> P y) \<and> splice1 (find_index P xs) xs = ys @ zs"
proof -
  from assms have "0 \<le> find_index P xs" by (simp add: find_index_nonneg_iff)
  then obtain k where k: "find_index P xs = int k" using nonneg_int_cases by blast
  from find_index_nth [OF k] have kl: "k < length xs" and Pk: "P (xs ! k)" by auto
  have "xs = take k xs @ xs ! k # drop (Suc k) xs" using kl by (rule id_take_nth_drop)
  moreover have "\<forall>y \<in> set (take k xs). \<not> P y"
    using find_index_first [OF k] kl by (auto simp: in_set_conv_nth)
  ultimately show ?thesis using Pk k splice1_nat [of k xs] by metis
qed

lemma splice1_index_remove1:
  "c \<in> set xs \<Longrightarrow> splice1 (find_index (\<lambda>x. x = c) xs) xs = remove1 c xs"
  using splice1_find_index [of xs "\<lambda>x. x = c"] by (auto simp: remove1_append)

subsection \<open>Numbers in template strings\<close>

fun show_nat :: "nat \<Rightarrow> string" where
  "show_nat n =
     (if n < 10 then [char_of (48 + n)] else show_nat (n div 10) @ [char_of (48 + n mod 10)])"

declare show_nat.simps [simp del]

definition show_int :: "int \<Rightarrow> string" where
  "show_int i = (if i < 0 then CHR ''-'' # show_nat (nat (- i)) else show_nat (nat i))"

text \<open>Reading the digits back, to show that two numbers never render alike.\<close>

definition read_nat :: "string \<Rightarrow> nat" where
  "read_nat s = foldl (\<lambda>a c. 10 * a + (of_char c - 48)) 0 s"

lemma digit_value: "d < 10 \<Longrightarrow> of_char (char_of (48 + d :: nat)) - 48 = (d :: nat)"
  by simp

lemma read_show_nat: "read_nat (show_nat n) = n"
proof (induction n rule: show_nat.induct)
  case (1 n)
  show ?case
  proof (cases "n < 10")
    case True
    then show ?thesis by (subst show_nat.simps) (simp add: read_nat_def)
  next
    case False
    with "1.IH" have IH: "read_nat (show_nat (n div 10)) = n div 10" by simp
    have "read_nat (show_nat n) = 10 * (n div 10) + (of_char (char_of (48 + n mod 10)) - 48)"
      using False IH by (subst show_nat.simps) (simp add: read_nat_def)
    then show ?thesis by simp
  qed
qed

lemma show_nat_inj: "show_nat m = show_nat n \<Longrightarrow> m = n"
  by (metis read_show_nat)

lemma show_nat_digits: "c \<in> set (show_nat n) \<Longrightarrow> of_char c \<in> {48 .. (57 :: nat)}"
proof (induction n rule: show_nat.induct)
  case (1 n)
  show ?case
  proof (cases "n < 10")
    case True
    then have "c = char_of (48 + n)" using "1.prems" by (subst (asm) show_nat.simps) simp
    then show ?thesis using True by simp
  next
    case False
    then have "c \<in> set (show_nat (n div 10)) \<or> c = char_of (48 + n mod 10)"
      using "1.prems" by (subst (asm) show_nat.simps) auto
    then show ?thesis
    proof
      assume "c = char_of (48 + n mod 10)"
      moreover have "n mod 10 < 10" by simp
      ultimately show ?thesis by simp
    qed (use False "1.IH" in simp)
  qed
qed

lemma show_nat_nonempty: "show_nat n \<noteq> []"
  by (subst show_nat.simps) simp

lemma show_nat_no_minus: "CHR ''-'' \<notin> set (show_nat n)"
  using show_nat_digits by fastforce

lemma show_int_inj: "show_int i = show_int j \<Longrightarrow> i = j"
proof -
  assume eq: "show_int i = show_int j"
  have "CHR ''-'' # a \<noteq> show_nat b" for a b
    using show_nat_no_minus [of b] by (metis list.set_intros(1))
  with eq show "i = j"
    by (auto simp: show_int_def split: if_splits dest!: show_nat_inj) (metis)+
qed

end
