(* ===== verification/JsValue.thy ===== *)
theory JsValue
  imports Prelude
begin

text \<open>
  The untyped JavaScript values that cross the program's boundaries (socket payloads, the
  \<open>game_data\<close> column), the type guards of \<open>common/ts/src/round.ts\<close> and
  \<open>common/ts/src/game.ts\<close> over them, and \<open>deepClone\<close> of \<open>common/ts/src/util.ts\<close>.
  A number is an \<open>int\<close>: every number of the program is a count, an index, a port or a time in
  milliseconds. Objects are association lists in insertion order; \<open>JFun\<close> is a function object,
  which has no properties that the program reads.
\<close>

datatype jsval =
    JUndef
  | JNull
  | JBool bool
  | JNum int
  | JStr string
  | JArr "jsval list"
  | JObj "(string \<times> jsval) list"
  | JFun

subsection \<open>Property access\<close>

text \<open>
  \<open>x.k\<close>: reading a property of \<open>undefined\<close> or \<open>null\<close> raises \<open>TypeError\<close>; a missing
  property is \<open>undefined\<close>.
\<close>

fun fld :: "jsval \<Rightarrow> string \<Rightarrow> jsval" where
  "fld (JObj kvs) k = (case map_of kvs k of None \<Rightarrow> JUndef | Some v \<Rightarrow> v)"
| "fld _ k = JUndef"

fun nullish :: "jsval \<Rightarrow> bool" where
  "nullish JUndef = True"
| "nullish JNull = True"
| "nullish _ = False"

definition js_prop :: "jsval \<Rightarrow> string \<Rightarrow> exn + jsval" where
  "js_prop x k = (if nullish x then Inl TypeError else Inr (fld x k))"

text \<open>The tests \<open>typeof x === "number"\<close>, \<open>"string"\<close>, \<open>"boolean"\<close> and \<open>Array.isArray\<close>.\<close>

fun is_num :: "jsval \<Rightarrow> bool" where
  "is_num (JNum _) = True"
| "is_num _ = False"

fun is_str :: "jsval \<Rightarrow> bool" where
  "is_str (JStr _) = True"
| "is_str _ = False"

fun is_bool :: "jsval \<Rightarrow> bool" where
  "is_bool (JBool _) = True"
| "is_bool _ = False"

fun is_arr :: "jsval \<Rightarrow> bool" where
  "is_arr (JArr _) = True"
| "is_arr _ = False"

text \<open>\<open>xs.every(f)\<close> with a callback that may raise: left to right, stopping at the first
  \<open>false\<close>; calling \<open>every\<close> on a value that is no array raises \<open>TypeError\<close>.\<close>

fun every_list :: "(jsval \<Rightarrow> exn + bool) \<Rightarrow> jsval list \<Rightarrow> exn + bool" where
  "every_list f [] = Inr True"
| "every_list f (x # xs) =
     (case f x of Inl e \<Rightarrow> Inl e | Inr b \<Rightarrow> if b then every_list f xs else Inr False)"

fun every :: "(jsval \<Rightarrow> exn + bool) \<Rightarrow> jsval \<Rightarrow> exn + bool" where
  "every f (JArr xs) = every_list f xs"
| "every f _ = Inl TypeError"

lemma every_list_True: "every_list f xs = Inr True \<longleftrightarrow> (\<forall>x \<in> set xs. f x = Inr True)"
  by (induction xs) (auto split: sum.splits)

text \<open>\<open>a && b\<close> where either side may raise.\<close>

definition andE :: "exn + bool \<Rightarrow> exn + bool \<Rightarrow> exn + bool" where
  "andE a b = (case a of Inl e \<Rightarrow> Inl e | Inr False \<Rightarrow> Inr False | Inr True \<Rightarrow> b)"

lemma andE_simps [simp]:
  "andE (Inl e) b = Inl e" "andE (Inr False) b = Inr False" "andE (Inr True) b = b"
  by (simp_all add: andE_def)

lemma andE_True [simp]: "andE a b = Inr True \<longleftrightarrow> a = Inr True \<and> b = Inr True"
  by (auto simp: andE_def split: sum.splits bool.splits)

subsection \<open>The guards of the shared types\<close>

definition isRoundName :: "jsval \<Rightarrow> bool" where
  "isRoundName x \<longleftrightarrow>
     x = JStr ''button'' \<or> x = JStr ''wire'' \<or> x = JStr ''keypad'' \<or> x = JStr ''tutorial-button''"

fun isSolution :: "jsval \<Rightarrow> bool" where
  "isSolution (JNum _) = True"
| "isSolution (JArr xs) = list_all is_num xs"
| "isSolution _ = False"

definition isRoundData :: "jsval \<Rightarrow> exn + bool" where
  "isRoundData x =
     (if nullish x then Inl TypeError
      else Inr (isRoundName (fld x ''name'')
        \<and> is_num (fld x ''msLength'')
        \<and> isSolution (fld x ''solution'')
        \<and> (fld x ''answer'' = JUndef \<or> isSolution (fld x ''answer''))
        \<and> (fld x ''startTime'' = JUndef \<or> is_num (fld x ''startTime''))
        \<and> (fld x ''endTime'' = JUndef \<or> is_num (fld x ''endTime''))))"

definition isPlayer :: "jsval \<Rightarrow> exn + bool" where
  "isPlayer x =
     (if nullish x then Inl TypeError
      else Inr (is_str (fld x ''playerId'') \<and> is_bool (fld x ''ready'')))"

text \<open>
  \<open>isGameData\<close> of \<open>game.ts\<close>. Its last line tests \<open>x.endTine\<close>, a property no game has, where
  \<open>endTime\<close> is meant, so the type of \<open>endTime\<close> is never looked at unless \<open>endTine\<close> is
  present.
\<close>

definition isGameData :: "jsval \<Rightarrow> exn + bool" where
  "isGameData x =
     (if nullish x then Inl TypeError
      else andE (Inr (fld x ''players'' \<noteq> JUndef \<and> is_arr (fld x ''players'')))
          (andE (every isPlayer (fld x ''players''))
          (andE (Inr (is_str (fld x ''gameId'')))
          (andE (every isRoundData (fld x ''rounds''))
          (Inr (is_num (fld x ''currentRound'')
            \<and> (fld x ''startTime'' = JUndef \<or> is_num (fld x ''startTime''))
            \<and> (fld x ''endTine'' = JUndef \<or> is_num (fld x ''endTime''))))))))"

subsection \<open>Cloning through JSON\<close>

text \<open>
  \<open>JSON.parse(JSON.stringify(a))\<close>, at the level of values: a property whose value is
  \<open>undefined\<close> or a function is left out of an object, and becomes \<open>null\<close> inside an array.
  \<open>None\<close> is a value with no JSON text, on which \<open>JSON.parse\<close> raises \<open>SyntaxError\<close>.
\<close>

fun jclone :: "jsval \<Rightarrow> jsval option"
  and jclone_list :: "jsval list \<Rightarrow> jsval list"
  and jclone_fields :: "(string \<times> jsval) list \<Rightarrow> (string \<times> jsval) list" where
  "jclone JUndef = None"
| "jclone JFun = None"
| "jclone JNull = Some JNull"
| "jclone (JBool b) = Some (JBool b)"
| "jclone (JNum n) = Some (JNum n)"
| "jclone (JStr s) = Some (JStr s)"
| "jclone (JArr xs) = Some (JArr (jclone_list xs))"
| "jclone (JObj kvs) = Some (JObj (jclone_fields kvs))"
| "jclone_list [] = []"
| "jclone_list (x # xs) =
     (case jclone x of None \<Rightarrow> JNull | Some y \<Rightarrow> y) # jclone_list xs"
| "jclone_fields [] = []"
| "jclone_fields ((k, v) # kvs) =
     (case jclone v of None \<Rightarrow> jclone_fields kvs | Some w \<Rightarrow> (k, w) # jclone_fields kvs)"

definition deepClone :: "jsval \<Rightarrow> exn + jsval" where
  "deepClone a = (case jclone a of None \<Rightarrow> Inl SyntaxError | Some v \<Rightarrow> Inr v)"

text \<open>Values with a JSON text of their own: no \<open>undefined\<close> and no function anywhere.\<close>

fun pure_json :: "jsval \<Rightarrow> bool" where
  "pure_json JUndef = False"
| "pure_json JFun = False"
| "pure_json (JArr xs) = list_all pure_json xs"
| "pure_json (JObj kvs) = list_all (\<lambda>(_, v). pure_json v) kvs"
| "pure_json _ = True"

lemma jclone_pure:
  "pure_json v \<Longrightarrow> jclone v = Some v"
  "list_all pure_json xs \<Longrightarrow> jclone_list xs = xs"
  "list_all (\<lambda>(_, v). pure_json v) kvs \<Longrightarrow> jclone_fields kvs = kvs"
  by (induction v and xs and kvs rule: jclone_jclone_list_jclone_fields.induct) auto

lemma pure_jclone:
  "jclone v = Some w \<Longrightarrow> pure_json w"
  "list_all pure_json (jclone_list xs)"
  "list_all (\<lambda>(_, v). pure_json v) (jclone_fields kvs)"
  by (induction v and xs and kvs arbitrary: w and and rule: jclone_jclone_list_jclone_fields.induct)
     (auto split: option.splits)

lemma deepClone_pure: "pure_json v \<Longrightarrow> deepClone v = Inr v"
  by (simp add: deepClone_def jclone_pure)

lemma deepClone_result_pure: "deepClone v = Inr w \<Longrightarrow> pure_json w"
  by (auto simp: deepClone_def pure_jclone split: option.splits)

text \<open>A clone reads like the original wherever the original has a JSON value, keys being unique.\<close>

lemma map_of_jclone_fields:
  "distinct (map fst kvs) \<Longrightarrow> map_of (jclone_fields kvs) k = Option.bind (map_of kvs k) jclone"
proof (induction kvs)
  case Nil
  then show ?case by simp
next
  case (Cons kv kvs)
  obtain k' v where kv: "kv = (k', v)" by (cases kv)
  have notin: "k' \<notin> fst ` set kvs" using Cons.prems kv by simp
  then have "map_of kvs k' = None" by (simp add: map_of_eq_None_iff)
  then show ?case using Cons kv by (auto split: option.splits)
qed

lemma fld_clone:
  assumes "distinct (map fst kvs)" and "jclone (JObj kvs) = Some w"
  shows "fld w k = (case jclone (fld (JObj kvs) k) of None \<Rightarrow> JUndef | Some v \<Rightarrow> v)"
  using assms by (auto simp: map_of_jclone_fields split: option.splits)

text \<open>The result of \<open>deepClone\<close> is plain JSON data, on which \<open>deepClone\<close> is the identity.\<close>

lemma deepClone_idempotent:
  assumes "deepClone v = Inr w"
  shows "pure_json w \<and> deepClone w = Inr w"
  using deepClone_result_pure [OF assms] deepClone_pure by blast

text \<open>\<open>isGameData\<close> tests \<open>endTine\<close>: whatever is at \<open>endTime\<close> passes.\<close>

lemma guard_ignores_endTime:
  assumes "map_of kvs ''endTine'' = None" and "map_of kvs ''endTime'' = None"
    and "isGameData (JObj kvs) = Inr True"
  shows "isGameData (JObj ((''endTime'', v) # kvs)) = Inr True"
  using assms by (simp add: isGameData_def)

end
