(* ===== verification/Rounds.thy ===== *)
theory Rounds
  imports JsValue
begin

text \<open>
  Round data and round objects: the types of \<open>common/ts/src/round.ts\<close>, the classes of
  \<open>server/src/lib/round/\<close> (\<open>Round\<close>, \<open>SingleRound\<close>, \<open>ButtonRound\<close>, \<open>SequenceRound\<close>,
  \<open>KeypadRound\<close>), the factory \<open>createRound\<close>, and the players of \<open>server/src/lib/player.ts\<close>.
  A class that differs from its base class only in data is a constructor of \<open>round_kind\<close>.
\<close>

datatype round_name = Button | Wire | Keypad | TutorialButton

datatype solution = SNum int | SSeq "int list"

text \<open>
  A \<open>RoundData\<close> as schedules and stored games hold it; an absent optional field is \<open>None\<close>.
  \<open>options\<close> is the field a \<open>SingleRoundData\<close> adds.
\<close>

record round_data =
  rd_name :: round_name
  rd_msLength :: "int option"
  rd_solution :: solution
  rd_options :: "int list option"
  rd_answer :: "jsval option"
  rd_startTime :: "int option"
  rd_endTime :: "int option"
  rd_attack :: "int option"

text \<open>An \<open>Answer\<close>: the round it is for and the value given, \<open>None\<close> on a timeout.\<close>

record answer =
  a_round :: int
  a_value :: "jsval option"

record player =
  playerId :: string
  ready :: bool

text \<open>\<open>createPlayer\<close> takes a player or the id of one.\<close>

fun createPlayer :: "string + player \<Rightarrow> player" where
  "createPlayer (Inl s) = createPlayer (Inr \<lparr>playerId = s, ready = False\<rparr>)"
| "createPlayer (Inr p) = p"

subsection \<open>Round objects\<close>

datatype round_kind =
    SingleK int "int list"   \<comment> \<open>\<open>solution\<close> and \<open>options\<close> of a \<open>SingleRound\<close>\<close>
  | SequenceK "int list"     \<comment> \<open>\<open>solution\<close> of a \<open>SequenceRound\<close>\<close>

record round =
  rname :: round_name
  msLength :: int
  kind :: round_kind
  ranswer :: "jsval option"
  rstartTime :: "int option"
  rendTime :: "int option"

text \<open>The constructor of the abstract class \<open>Round\<close>: the optional fields are not assigned.\<close>

definition new_Round :: "round_name \<Rightarrow> int \<Rightarrow> round_kind \<Rightarrow> round" where
  "new_Round nm ms k =
     \<lparr>rname = nm, msLength = ms, kind = k, ranswer = None, rstartTime = None, rendTime = None\<rparr>"

definition new_SingleRound :: "round_name \<Rightarrow> int \<Rightarrow> int \<Rightarrow> int list \<Rightarrow> round" where
  "new_SingleRound nm ms sol opts = new_Round nm ms (SingleK sol opts)"

definition new_ButtonRound :: "int \<Rightarrow> int list \<Rightarrow> int option \<Rightarrow> round" where
  "new_ButtonRound sol opts ms =
     new_SingleRound Button (case ms of None \<Rightarrow> 5000 | Some m \<Rightarrow> m) sol opts"

definition new_SequenceRound :: "round_name \<Rightarrow> int \<Rightarrow> int list \<Rightarrow> round" where
  "new_SequenceRound nm ms sol = new_Round nm ms (SequenceK sol)"

definition new_KeypadRound :: "int list \<Rightarrow> round" where
  "new_KeypadRound sol = new_SequenceRound Keypad (10 * 1000) sol"

text \<open>
  \<open>onAnswer\<close>: the answer status and the round after it. \<open>value === this.solution\<close> holds only
  for a number equal to the solution. A \<open>SequenceRound\<close> reports success without recording
  anything; its method is a stub in the code.
\<close>

definition SingleRound_onAnswer :: "int \<Rightarrow> int \<Rightarrow> jsval option \<Rightarrow> round \<Rightarrow> int \<times> round" where
  "SingleRound_onAnswer now sol value r =
     (let r' = r\<lparr>ranswer := value, rendTime := Some now\<rparr>
      in if value = Some (JNum sol) then (1, r') else (-1, r'))"

definition SequenceRound_onAnswer :: "round \<Rightarrow> int \<times> round" where
  "SequenceRound_onAnswer r = (1, r)"

definition onAnswer :: "int \<Rightarrow> answer \<Rightarrow> round \<Rightarrow> int \<times> round" where
  "onAnswer now a r =
     (case kind r of
        SingleK sol _ \<Rightarrow> SingleRound_onAnswer now sol (a_value a) r
      | SequenceK _ \<Rightarrow> SequenceRound_onAnswer r)"

definition isSequenceSolution :: "jsval \<Rightarrow> bool" where
  "isSequenceSolution sol = (case sol of JArr xs \<Rightarrow> list_all is_num xs | _ \<Rightarrow> False)"

subsection \<open>The factory\<close>

text \<open>
  \<open>isSingleRoundData\<close>: a numeric solution and an array of options. \<open>createRound\<close> knows the
  name \<open>"button"\<close> only; every other name, \<open>"tutorial-button"\<close> included, is refused.
\<close>

definition isSingleRoundData :: "round_data \<Rightarrow> bool" where
  "isSingleRoundData x \<longleftrightarrow>
     (case rd_solution x of SNum _ \<Rightarrow> True | SSeq _ \<Rightarrow> False) \<and> rd_options x \<noteq> None"

definition isButtonRoundData :: "round_data \<Rightarrow> bool" where
  "isButtonRoundData x = isSingleRoundData x"

definition createButtonRound :: "round_data \<Rightarrow> round either" where
  "createButtonRound data =
     (if \<not> isButtonRoundData data then Inl ''Invalid round data.''
      else case (rd_solution data, rd_options data) of
        (SNum sol, Some opts) \<Rightarrow> Inr (new_ButtonRound sol opts (rd_msLength data))
      | _ \<Rightarrow> Inl ''Invalid round data.'')"

definition createRound :: "round_data \<Rightarrow> round either" where
  "createRound data =
     (case rd_name data of
        Button \<Rightarrow> createButtonRound data
      | _ \<Rightarrow> Inl ''Unknown round name.'')"

subsection \<open>Facts about rounds\<close>

text \<open>A round is fresh until it starts, open from its start to its end.\<close>

definition fresh_round :: "round \<Rightarrow> bool" where
  "fresh_round r \<longleftrightarrow> ranswer r = None \<and> rstartTime r = None \<and> rendTime r = None"

definition open_round :: "round \<Rightarrow> bool" where
  "open_round r \<longleftrightarrow> rstartTime r \<noteq> None \<and> rendTime r = None"

definition single_round :: "round \<Rightarrow> bool" where
  "single_round r \<longleftrightarrow> (case kind r of SingleK _ _ \<Rightarrow> True | SequenceK _ \<Rightarrow> False)"

text \<open>An answered round is correct when its answer is its solution.\<close>

definition correct_round :: "round \<Rightarrow> bool" where
  "correct_round r \<longleftrightarrow>
     (case kind r of SingleK sol _ \<Rightarrow> ranswer r = Some (JNum sol) | SequenceK _ \<Rightarrow> False)"

lemma fresh_not_open [simp]: "fresh_round r \<Longrightarrow> \<not> open_round r"
  by (simp add: fresh_round_def open_round_def)

lemma fresh_new_Round [simp]: "fresh_round (new_Round nm ms k)"
  by (simp add: fresh_round_def new_Round_def)

lemma onAnswer_status: "fst (onAnswer now a r) \<in> {1, -1}"
  by (auto simp: onAnswer_def SingleRound_onAnswer_def SequenceRound_onAnswer_def Let_def
      split: round_kind.split)

lemma onAnswer_status_nonzero [simp]: "fst (onAnswer now a r) \<noteq> 0"
  using onAnswer_status [of now a r] by auto

lemma onAnswer_single:
  "single_round r \<Longrightarrow> snd (onAnswer now a r) = r\<lparr>ranswer := a_value a, rendTime := Some now\<rparr>"
  by (auto simp: onAnswer_def SingleRound_onAnswer_def single_round_def Let_def split: round_kind.splits)

lemma onAnswer_correct:
  "single_round r \<Longrightarrow> fst (onAnswer now a r) = 1 \<longleftrightarrow> correct_round (snd (onAnswer now a r))"
  by (auto simp: onAnswer_def SingleRound_onAnswer_def single_round_def correct_round_def Let_def
      split: round_kind.splits)

lemma onAnswer_frame [frame]:
  "kind (snd (onAnswer now a r)) = kind r"
  "msLength (snd (onAnswer now a r)) = msLength r"
  "rname (snd (onAnswer now a r)) = rname r"
  "rstartTime (snd (onAnswer now a r)) = rstartTime r"
  by (auto simp: onAnswer_def SingleRound_onAnswer_def SequenceRound_onAnswer_def Let_def
      split: round_kind.splits)

lemma createRound_Inr:
  assumes "createRound d = Inr r"
  shows "rd_name d = Button" "fresh_round r" "single_round r"
    "\<exists>sol opts. rd_solution d = SNum sol \<and> rd_options d = Some opts
       \<and> r = new_ButtonRound sol opts (rd_msLength d)"
  using assms
  by (auto simp: createRound_def createButtonRound_def new_ButtonRound_def new_SingleRound_def
      single_round_def new_Round_def fresh_round_def isButtonRoundData_def isSingleRoundData_def
      split: round_name.splits if_splits solution.splits option.splits)

end
