(* ===== verification/Schedules.thy ===== *)
theory Schedules
  imports Rounds
begin

text \<open>
  The schedules of \<open>server/src/const/\<close>: which rounds a tutorial, a game and a debugging game
  have, in order. Every literal of those files is a \<open>"button"\<close> round with the options 0, 1, 2
  and no recorded answer or time; \<open>button sol ms attack\<close> is such a literal.
\<close>

definition button :: "int \<Rightarrow> int \<Rightarrow> int option \<Rightarrow> round_data" where
  "button sol ms att =
     \<lparr>rd_name = Button, rd_msLength = Some ms, rd_solution = SNum sol, rd_options = Some [0, 1, 2],
      rd_answer = None, rd_startTime = None, rd_endTime = None, rd_attack = att\<rparr>"

definition tutorialSchedule0 :: "round_data list" where
  "tutorialSchedule0 =
     [button 0 60000 None,
      button 1 60000 None,
      button 2 60000 None]"

definition tutorialSchedule1 :: "round_data list" where
  "tutorialSchedule1 =
     [button 2 60000 None,
      button 0 60000 None,
      button 1 60000 None]"

definition tutorialSchedules :: "round_data list list" where
  "tutorialSchedules = [tutorialSchedule0, tutorialSchedule1]"

definition gameSchedule0 :: "round_data list" where
  "gameSchedule0 =
     [button 1 10000 None,
      button 0 10000 None,
      button 2 10000 None,
      button 2 10000 (Some 0),
      button 1 10000 None,
      button 1 10000 None,
      button 0 10000 None,
      button 1 10000 None,
      button 2 10000 None,
      button 2 10000 None,
      button 1 10000 (Some 2),
      button 0 10000 None,
      button 2 10000 None,
      button 2 10000 None,
      button 0 10000 None,
      button 1 10000 None,
      button 2 10000 (Some 1),
      button 2 10000 None,
      button 0 10000 None,
      button 2 10000 None]"

definition gameSchedule1 :: "round_data list" where
  "gameSchedule1 =
     [button 1 10000 None,
      button 2 10000 None,
      button 2 10000 None,
      button 0 10000 (Some 2),
      button 2 10000 None,
      button 0 10000 None,
      button 1 10000 None,
      button 0 10000 None,
      button 2 10000 None,
      button 2 10000 None,
      button 1 10000 (Some 0),
      button 2 10000 None,
      button 2 10000 None,
      button 2 10000 (Some 1),
      button 2 10000 None,
      button 1 10000 None,
      button 2 10000 None,
      button 0 10000 None,
      button 2 10000 None,
      button 1 10000 None]"

definition gameSchedules :: "round_data list list" where
  "gameSchedules = [gameSchedule0, gameSchedule1]"

definition debugSchedule0 :: "round_data list" where
  "debugSchedule0 =
     [button 0 60000 None,
      button 1 60000 (Some 0),
      button 1 60000 None,
      button 1 60000 (Some 1),
      button 1 60000 None,
      button 1 60000 (Some 2),
      button 1 60000 None]"

definition debugSchedule1 :: "round_data list" where
  "debugSchedule1 =
     [button 0 60000 None,
      button 1 60000 (Some 0),
      button 1 60000 None,
      button 1 60000 (Some 1),
      button 1 60000 None,
      button 1 60000 (Some 2),
      button 1 60000 None]"

definition debugSchedules :: "round_data list list" where
  "debugSchedules = [debugSchedule0, debugSchedule1]"

lemmas schedule_defs [model_defs] =
  button_def tutorialSchedule0_def tutorialSchedule1_def gameSchedule0_def gameSchedule1_def
  debugSchedule0_def debugSchedule1_def tutorialSchedules_def gameSchedules_def debugSchedules_def

subsection \<open>What every schedule satisfies\<close>

text \<open>A literal a \<open>createRound\<close> call accepts and a player can answer.\<close>

definition playable :: "round_data \<Rightarrow> bool" where
  "playable d \<longleftrightarrow> rd_name d = Button \<and>
     (case (rd_solution d, rd_options d, rd_msLength d) of
        (SNum sol, Some opts, Some ms) \<Rightarrow> sol \<in> set opts \<and> 0 < ms \<and> ms \<le> 2147483647
      | _ \<Rightarrow> False)"

definition shipped :: "round_data list list" where
  "shipped = tutorialSchedules @ gameSchedules @ debugSchedules"

text \<open>The indices of a schedule at which an attack is set.\<close>

definition attack_rounds :: "round_data list \<Rightarrow> nat list" where
  "attack_rounds s = filter (\<lambda>i. rd_attack (s ! i) \<noteq> None) [0 ..< length s]"

lemma shipped_playable: "s \<in> set shipped \<Longrightarrow> d \<in> set s \<Longrightarrow> playable d"
  by (auto simp: shipped_def schedule_defs playable_def)

lemma shipped_created: "s \<in> set shipped \<Longrightarrow> d \<in> set s \<Longrightarrow> \<exists>r. createRound d = Inr r"
  by (auto simp: shipped_def schedule_defs createRound_def createButtonRound_def
      isButtonRoundData_def isSingleRoundData_def)

end
