(* ===== verification/Evented.thy ===== *)
theory Evented
  imports Prelude
begin

text \<open>
  The event emitter of \<open>common/ts/src/evented.ts\<close>. A callback is a value of a type of its own
  (each component lists the closures it registers as constructors), and \<open>cbMap\<close> gives the
  callbacks of an event in registration order, \<open>None\<close> for an event nothing was registered on.
  \<open>trigger\<close> runs the list that is there when it is called; the callbacks of the program do not
  register or remove callbacks of the event that is being triggered.
\<close>

type_synonym ('e, 'c) cb_map = "'e \<Rightarrow> 'c list option"

definition no_cbs :: "('e, 'c) cb_map" where
  "no_cbs = (\<lambda>_. None)"

definition off :: "'e \<Rightarrow> 'c \<Rightarrow> ('e, 'c) cb_map \<Rightarrow> ('e, 'c) cb_map" where
  "off event cb m =
     (case m event of
        None \<Rightarrow> m
      | Some cbs \<Rightarrow> m(event := Some (splice1 (find_index (\<lambda>c. c = cb) cbs) cbs)))"

definition on :: "'e \<Rightarrow> 'c \<Rightarrow> ('e, 'c) cb_map \<Rightarrow> ('e, 'c) cb_map" where
  "on event cb m = (let cbs = (case m event of None \<Rightarrow> [] | Some cbs \<Rightarrow> cbs)
     in m(event := Some (cbs @ [cb])))"

text \<open>\<open>forEach\<close> over callbacks that change a state and may raise.\<close>

fun run_all :: "('c \<Rightarrow> 's \<Rightarrow> exn + 's) \<Rightarrow> 'c list \<Rightarrow> 's \<Rightarrow> exn + 's" where
  "run_all run [] s = Inr s"
| "run_all run (c # cs) s = (case run c s of Inl e \<Rightarrow> Inl e | Inr s' \<Rightarrow> run_all run cs s')"

definition trigger_with ::
  "('c \<Rightarrow> 's \<Rightarrow> exn + 's) \<Rightarrow> ('e, 'c) cb_map \<Rightarrow> 'e \<Rightarrow> 's \<Rightarrow> exn + 's" where
  "trigger_with run m event s =
     (case m event of None \<Rightarrow> Inr s | Some cbs \<Rightarrow> run_all run cbs s)"

text \<open>The callbacks of an event, as its subscribers see them.\<close>

definition subs :: "('e, 'c) cb_map \<Rightarrow> 'e \<Rightarrow> 'c list" where
  "subs m e = (case m e of None \<Rightarrow> [] | Some cbs \<Rightarrow> cbs)"

lemma trigger_with_subs: "trigger_with run m e s = run_all run (subs m e) s"
  by (simp add: trigger_with_def subs_def split: option.split)

lemma run_all_append:
  "run_all run (xs @ ys) s = (case run_all run xs s of Inl e \<Rightarrow> Inl e | Inr s' \<Rightarrow> run_all run ys s')"
  by (induction xs arbitrary: s) (auto split: sum.splits)

subsection \<open>The contract of an emitter\<close>

text \<open>
  What the users of an emitter rely on: registration appends, to its own event only, and
  removing a registered callback removes its first registration.
\<close>

locale event_bus =
  fixes none :: "'m"
    and reg :: "'e \<Rightarrow> 'c \<Rightarrow> 'm \<Rightarrow> 'm"
    and unreg :: "'e \<Rightarrow> 'c \<Rightarrow> 'm \<Rightarrow> 'm"
    and listeners :: "'m \<Rightarrow> 'e \<Rightarrow> 'c list"
  assumes listeners_none: "listeners none e = []"
    and listeners_reg:
      "listeners (reg e c m) e' = (if e' = e then listeners m e @ [c] else listeners m e')"
    and listeners_unreg:
      "c \<in> set (listeners m e) \<Longrightarrow>
         listeners (unreg e c m) e' = (if e' = e then remove1 c (listeners m e) else listeners m e')"
begin

lemma reg_unreg_fresh:
  assumes "c \<notin> set (listeners m e)"
  shows "listeners (unreg e c (reg e c m)) = listeners m"
  using assms by (auto simp: fun_eq_iff listeners_reg listeners_unreg remove1_append)

lemma reg_many:
  "listeners (fold (\<lambda>(e, c). reg e c) ps m) e' =
     listeners m e' @ map snd (filter (\<lambda>p. fst p = e') ps)"
proof (induction ps arbitrary: m)
  case Nil
  then show ?case by simp
next
  case (Cons p ps)
  then show ?case by (cases p) (simp add: listeners_reg)
qed

lemma unreg_other: "c \<in> set (listeners m e) \<Longrightarrow> e' \<noteq> e \<Longrightarrow> listeners (unreg e c m) e' = listeners m e'"
  by (simp add: listeners_unreg)

lemma registered_last: "listeners (reg e c m) e \<noteq> [] \<and> last (listeners (reg e c m) e) = c"
  by (simp add: listeners_reg)

end

interpretation ev: event_bus no_cbs on off subs
proof unfold_locales
  show "subs no_cbs e = []" for e :: 'e
    by (simp add: subs_def no_cbs_def)
  show "subs (on e c m) e' = (if e' = e then subs m e @ [c] else subs m e')"
    for e e' :: 'e and c :: 'c and m :: "('e, 'c) cb_map"
    by (auto simp: subs_def on_def Let_def split: option.split)
  show "c \<in> set (subs m e) \<Longrightarrow>
      subs (off e c m) e' = (if e' = e then remove1 c (subs m e) else subs m e')"
    for e e' :: 'e and c :: 'c and m :: "('e, 'c) cb_map"
    by (auto simp: subs_def off_def splice1_index_remove1 split: option.splits)
qed

text \<open>
  Outside the contract: \<open>indexOf\<close> gives \<open>-1\<close> for a callback that is not registered, and
  \<open>splice(-1, 1)\<close> takes the last callback of the event away.
\<close>

lemma subs_off_missing:
  "c \<notin> set (subs m e) \<Longrightarrow> subs (off e c m) e = butlast (subs m e)"
proof -
  assume c: "c \<notin> set (subs m e)"
  then have "find_index (\<lambda>x. x = c) (subs m e) = -1"
    by (auto simp: find_index_minus1_iff)
  with c show ?thesis
    by (auto simp: subs_def off_def splice1_minus1 split: option.splits)
qed

text \<open>
  Callbacks run in the order of registration, \<open>off\<close> undoes \<open>on\<close>, and \<open>off\<close> of a callback that is not
  registered takes away the last one.
\<close>

lemma on_then_off:
  assumes "c \<notin> set (subs m ev1)"
  shows "trigger_with run (on ev1 c m) ev1 s =
      (case trigger_with run m ev1 s of Inl ex \<Rightarrow> Inl ex | Inr s' \<Rightarrow> run c s')
    \<and> trigger_with run (off ev1 c (on ev1 c m)) ev2 s = trigger_with run m ev2 s
    \<and> subs (off ev1 c m) ev1 = butlast (subs m ev1)"
  using ev.reg_unreg_fresh [OF assms] subs_off_missing [OF assms]
  by (simp add: trigger_with_subs ev.listeners_reg run_all_append split: sum.split)

end
