(* ===== verification/Timers.thy ===== *)
theory Timers
  imports Prelude
begin

text \<open>
  The timers of the Node event loop as \<open>server/src/lib/game.ts\<close> uses them: \<open>setTimeout\<close> and
  \<open>clearTimeout\<close> on a table of pending timers, and the module variable \<open>gameTimers\<close> with
  \<open>scheduleTimer\<close> and \<open>getTimer\<close>. A timer carries the closure to run as a value \<open>'a\<close> and
  the time from which it may run. The type is extended by the components that need more state.
\<close>

record 'a clock =
  now :: int
  pending :: "(nat \<times> int \<times> 'a) list"
  nextTimer :: nat
  gameTimers :: "string \<Rightarrow> nat option"

text \<open>Node sets a delay below 1 or above \<open>2147483647\<close> to 1.\<close>

definition node_delay :: "int \<Rightarrow> int" where
  "node_delay ms = (if ms < 1 \<or> 2147483647 < ms then 1 else ms)"

definition setTimeout :: "'a \<Rightarrow> int \<Rightarrow> ('a, 'z) clock_scheme \<Rightarrow> nat \<times> ('a, 'z) clock_scheme" where
  "setTimeout act ms c =
     (nextTimer c,
      c\<lparr>pending := pending c @ [(nextTimer c, now c + node_delay ms, act)],
        nextTimer := Suc (nextTimer c)\<rparr>)"

text \<open>\<open>clearTimeout(undefined)\<close>, and clearing a timer that has run, do nothing.\<close>

definition clearTimeout :: "nat option \<Rightarrow> ('a, 'z) clock_scheme \<Rightarrow> ('a, 'z) clock_scheme" where
  "clearTimeout t c =
     (case t of None \<Rightarrow> c | Some i \<Rightarrow> c\<lparr>pending := filter (\<lambda>p. fst p \<noteq> i) (pending c)\<rparr>)"

definition getTimer :: "string \<Rightarrow> ('a, 'z) clock_scheme \<Rightarrow> nat option" where
  "getTimer gid c = gameTimers c gid"

definition scheduleTimer ::
  "string \<Rightarrow> 'a \<Rightarrow> int \<Rightarrow> ('a, 'z) clock_scheme \<Rightarrow> ('a, 'z) clock_scheme" where
  "scheduleTimer gid cb ms c =
     (let c1 = (if gameTimers c gid \<noteq> None then clearTimeout (gameTimers c gid) c else c);
          (t, c2) = setTimeout cb ms c1
      in c2\<lparr>gameTimers := (gameTimers c2)(gid := Some t)\<rparr>)"

text \<open>Timer identifiers are handed out in order and never twice.\<close>

definition clock_ok :: "('a, 'z) clock_scheme \<Rightarrow> bool" where
  "clock_ok c \<longleftrightarrow>
     distinct (map fst (pending c)) \<and> (\<forall>p \<in> set (pending c). fst p < nextTimer c) \<and>
     (\<forall>gid t. gameTimers c gid = Some t \<longrightarrow> t < nextTimer c)"

text \<open>The timers that are waiting, as their users see them: identifier and closure.\<close>

definition waiting :: "('a, 'z) clock_scheme \<Rightarrow> (nat \<times> 'a) set" where
  "waiting c = (\<lambda>(i, _, a). (i, a)) ` set (pending c)"

lemma node_delay_pos [simp]: "0 < node_delay ms"
  by (simp add: node_delay_def)

lemma node_delay_id: "1 \<le> ms \<Longrightarrow> ms \<le> 2147483647 \<Longrightarrow> node_delay ms = ms"
  by (simp add: node_delay_def)

lemma clearTimeout_frame [frame, simp]:
  "now (clearTimeout t c) = now c"
  "nextTimer (clearTimeout t c) = nextTimer c"
  "gameTimers (clearTimeout t c) = gameTimers c"
  by (auto simp: clearTimeout_def split: option.split)

lemma pending_clearTimeout:
  "pending (clearTimeout t c) =
     (case t of None \<Rightarrow> pending c | Some i \<Rightarrow> filter (\<lambda>p. fst p \<noteq> i) (pending c))"
  by (simp add: clearTimeout_def split: option.split)

subsection \<open>The contract of a timer service\<close>

text \<open>
  What scheduling relies on: a new timer has an identifier no waiting timer has, and clearing one
  removes it and nothing else. From the two follows that a client that clears its old timer before
  it sets a new one never has two.
\<close>

locale timer_service =
  fixes ok :: "'s \<Rightarrow> bool"
    and start_timer :: "'a \<Rightarrow> int \<Rightarrow> 's \<Rightarrow> nat \<times> 's"
    and stop_timer :: "nat option \<Rightarrow> 's \<Rightarrow> 's"
    and live :: "'s \<Rightarrow> (nat \<times> 'a) set"
  assumes start_fresh: "ok s \<Longrightarrow> (fst (start_timer a ms s), b) \<notin> live s"
    and start_live: "ok s \<Longrightarrow> live (snd (start_timer a ms s)) = insert (fst (start_timer a ms s), a) (live s)"
    and start_ok: "ok s \<Longrightarrow> ok (snd (start_timer a ms s))"
    and stop_live: "ok s \<Longrightarrow> live (stop_timer (Some i) s) = {p \<in> live s. fst p \<noteq> i}"
    and stop_none: "stop_timer None s = s"
    and stop_ok: "ok s \<Longrightarrow> ok (stop_timer t s)"
begin

definition restart :: "nat option \<Rightarrow> 'a \<Rightarrow> int \<Rightarrow> 's \<Rightarrow> nat \<times> 's" where
  "restart old a ms s = start_timer a ms (stop_timer old s)"

lemma restart_live:
  assumes "ok s"
  shows "live (snd (restart (Some i) a ms s)) =
    insert (fst (restart (Some i) a ms s), a) {p \<in> live s. fst p \<noteq> i}"
  using assms by (simp add: restart_def start_live stop_live stop_ok)

lemma restart_only_one:
  assumes "ok s" and "\<And>j b. (j, b) \<in> live s \<Longrightarrow> mine b \<Longrightarrow> j = i" and "mine a"
  shows "{p \<in> live (snd (restart (Some i) a ms s)). mine (snd p)}
    = {(fst (restart (Some i) a ms s), a)}"
  using assms by (auto simp: restart_live)

lemma restart_ok: "ok s \<Longrightarrow> ok (snd (restart old a ms s))"
  by (simp add: restart_def start_ok stop_ok)

lemma restart_others:
  assumes "ok s" "(j, b) \<in> live s" "old \<noteq> Some j"
  shows "(j, b) \<in> live (snd (restart old a ms s))"
  using assms by (cases old) (auto simp: restart_def start_live stop_live stop_ok stop_none)

end

interpretation tm: timer_service clock_ok setTimeout clearTimeout waiting
proof unfold_locales
  fix s :: "('a, 'z) clock_scheme" and a b :: 'a and ms i t
  assume ok: "clock_ok s"
  show "(fst (setTimeout a ms s), b) \<notin> waiting s"
    using ok by (force simp: setTimeout_def waiting_def clock_ok_def)
  show "waiting (snd (setTimeout a ms s)) = insert (fst (setTimeout a ms s), a) (waiting s)"
    by (auto simp: setTimeout_def waiting_def)
  show "clock_ok (snd (setTimeout a ms s))"
    using ok by (fastforce simp: setTimeout_def clock_ok_def)
  show "waiting (clearTimeout (Some i) s) = {p \<in> waiting s. fst p \<noteq> i}"
    by (force simp: clearTimeout_def waiting_def)
  show "clock_ok (clearTimeout t s)"
    using ok by (auto simp: clearTimeout_def clock_ok_def distinct_map_filter split: option.split)
next
  show "clearTimeout None s = s" for s :: "('a, 'z) clock_scheme"
    by (simp add: clearTimeout_def)
qed

lemma waiting_gameTimers_update [simp]: "waiting (c\<lparr>gameTimers := m\<rparr>) = waiting c"
  by (simp add: waiting_def)

lemma scheduleTimer_restart:
  "scheduleTimer gid cb ms c =
     (let (t, c2) = tm.restart (gameTimers c gid) cb ms c
      in c2\<lparr>gameTimers := (gameTimers c2)(gid := Some t)\<rparr>)"
  by (auto simp: scheduleTimer_def tm.restart_def clearTimeout_def Let_def split: option.split)

lemma scheduleTimer_eq:
  "scheduleTimer gid cb ms c =
     (let c1 = clearTimeout (gameTimers c gid) c
      in c1\<lparr>pending := pending c1 @ [(nextTimer c, now c + node_delay ms, cb)],
            nextTimer := Suc (nextTimer c), gameTimers := (gameTimers c)(gid := Some (nextTimer c))\<rparr>)"
  by (auto simp: scheduleTimer_def setTimeout_def clearTimeout_def Let_def split: option.split)

lemma clock_ok_scheduleTimer: "clock_ok c \<Longrightarrow> clock_ok (scheduleTimer gid cb ms c)"
proof -
  assume ok: "clock_ok c"
  let ?r = "tm.restart (gameTimers c gid) cb ms c"
  have r: "clock_ok (snd ?r)" using ok by (rule tm.restart_ok)
  moreover have "fst ?r < nextTimer (snd ?r)"
    by (simp add: tm.restart_def setTimeout_def)
  ultimately show ?thesis
    by (fastforce simp: scheduleTimer_restart clock_ok_def split: prod.split)
qed

text \<open>\<open>scheduleTimer\<close> replaces the timer of its game and touches no other timer.\<close>

lemma scheduleTimer_replaces:
  assumes "clock_ok c"
  shows "waiting (scheduleTimer gid cb ms c) =
      insert (nextTimer c, cb) {p \<in> waiting c. gameTimers c gid \<noteq> Some (fst p)}
    \<and> getTimer gid (scheduleTimer gid cb ms c) = Some (nextTimer c)
    \<and> (\<forall>gid'. gid' \<noteq> gid \<longrightarrow> getTimer gid' (scheduleTimer gid cb ms c) = getTimer gid' c)"
proof -
  have eq: "scheduleTimer gid cb ms c =
      (snd (tm.restart (gameTimers c gid) cb ms c))\<lparr>gameTimers := (gameTimers c)(gid := Some (nextTimer c))\<rparr>"
    by (auto simp: scheduleTimer_restart tm.restart_def setTimeout_def Let_def)
  have first: "fst (tm.restart old cb ms c) = nextTimer c" for old
    by (simp add: tm.restart_def setTimeout_def)
  have "waiting (snd (tm.restart (gameTimers c gid) cb ms c)) =
      insert (nextTimer c, cb) {p \<in> waiting c. gameTimers c gid \<noteq> Some (fst p)}"
  proof (cases "gameTimers c gid")
    case None
    then show ?thesis using tm.start_live [OF assms] by (simp add: tm.restart_def tm.stop_none setTimeout_def)
  next
    case (Some i)
    then show ?thesis using tm.restart_live [OF assms, of i cb ms] first by auto
  qed
  then show ?thesis unfolding eq by (simp add: getTimer_def)
qed

end
