(* ===== verification/GameTypes.thy ===== *)
theory GameTypes
  imports Rounds Evented Timers
begin

text \<open>
  The data that passes between the server's components: sessions (\<open>common/ts/src/session.ts\<close>),
  attacks (\<open>server/src/lib/attacklib.ts\<close>), the game state that is stored and sent
  (\<open>GameData\<close> of \<open>common/ts/src/game.ts\<close>), the events of a game, the closures the program
  registers on them, and the asynchronous work these start, recorded in the order it is started.
\<close>

record session =
  sessionId :: int
  blueParticipant :: string
  redParticipant :: string
  murmurPort :: int
  grpcPort :: int

record attack =
  attackId :: int
  att_sessionId :: int
  att_gameId :: string
  att_round :: int
  sourceUser :: string
  targetUser :: string
  audioPath :: string

record game_data =
  gd_players :: "player list"
  gd_gameId :: string
  gd_rounds :: "round_data list"
  gd_currentRound :: "int option"
  gd_startTime :: "int option"
  gd_endTime :: "int option"

datatype game_event =
  EvStart | EvStop | EvState | EvAnswer | EvError | EvRound | EvPlayerReady | EvHandoff

text \<open>The argument \<open>trigger\<close> passes on: a listener of \<open>"round"\<close> reads the round number.\<close>

datatype event_arg = NoArg | RoundArg int | AnswerArg answer | PlayerArg player | GameArg

text \<open>
  The closures registered on game events: by the constructor of \<open>Game\<close> (start when both players
  are ready, save, pass on to \<open>"state"\<close>), by a player's or an admin's socket (send the state), by
  \<open>chainGames\<close> (on \<open>"stop"\<close>, make the next game current) and by \<open>scheduleAttack\<close>.
\<close>

datatype listener =
    StartIfReady
  | SaveState
  | TriggerState
  | ClientListener nat
  | AdminListener nat
  | ChainListener int string
  | AttackListener attack int

datatype effect =
    SaveGame string game_data
  | ClientState nat game_data
  | AdminState nat game_data
  | SetCurrentGame int string
  | AttackLaunch attack int
  | AttackUnmute attack int

text \<open>A timer of a game: the game object and the round it was set for.\<close>

datatype timer_act =
    AnswerTimeout nat int
  | GotoTimeout nat int

record env = "timer_act clock" +
  out :: "effect list"

definition emit :: "effect \<Rightarrow> env \<Rightarrow> env" where
  "emit x e = e\<lparr>out := out e @ [x]\<rparr>"

definition emit_all :: "effect list \<Rightarrow> env \<Rightarrow> env" where
  "emit_all xs e = e\<lparr>out := out e @ xs\<rparr>"

lemma emit_all_simps [simp]:
  "emit_all [] e = e"
  "emit_all ys (emit_all xs e) = emit_all (xs @ ys) e"
  "emit x e = emit_all [x] e"
  by (simp_all add: emit_all_def emit_def)

lemma emit_all_frame [frame, simp]:
  "now (emit_all xs e) = now e"
  "pending (emit_all xs e) = pending e"
  "nextTimer (emit_all xs e) = nextTimer e"
  "gameTimers (emit_all xs e) = gameTimers e"
  "out (emit_all xs e) = out e @ xs"
  "waiting (emit_all xs e) = waiting e"
  "clock_ok (emit_all xs e) = clock_ok e"
  by (simp_all add: emit_all_def waiting_def clock_ok_def)

end
