(* ===== verification/Game.thy ===== *)
theory Game
  imports GameTypes
begin

text \<open>
  The class \<open>Game\<close> of \<open>server/src/lib/game.ts\<close>. A method is a function on the game object and
  its environment (clock, timers, effects started so far); \<open>Inl\<close> is an uncaught exception. The
  methods and the listeners they trigger call each other, so each takes \<open>trigger\<close> as an argument
  (\<open>trig\<close>) and \<open>trigger_fuel\<close> closes the recursion with a bound on the depth of a cascade. The
  theory GameFacts shows that a cascade never exhausts the bound and computes what each method does.
\<close>

record game =
  oid :: nat    \<comment> \<open>the identity of the object\<close>
  players :: "player list"
  gameId :: string
  rounds :: "round list"
  currentRound :: int
  startTime :: "int option"
  endTime :: "int option"
  cbMap :: "(game_event, listener) cb_map"

type_synonym gst = "game \<times> env"
type_synonym trig = "game_event \<Rightarrow> event_arg \<Rightarrow> gst \<Rightarrow> exn + gst"

subsection \<open>The state that is stored and sent\<close>

definition round_state :: "round \<Rightarrow> round_data" where
  "round_state r =
     \<lparr>rd_name = rname r, rd_msLength = Some (msLength r),
      rd_solution = (case kind r of SingleK sol _ \<Rightarrow> SNum sol | SequenceK sol \<Rightarrow> SSeq sol),
      rd_options = (case kind r of SingleK _ opts \<Rightarrow> Some opts | SequenceK _ \<Rightarrow> None),
      rd_answer = Option.bind (ranswer r) jclone,
      rd_startTime = rstartTime r, rd_endTime = rendTime r, rd_attack = None\<rparr>"

definition state :: "game \<Rightarrow> game_data" where
  "state g =
     \<lparr>gd_players = players g, gd_gameId = gameId g, gd_rounds = map round_state (rounds g),
      gd_currentRound = Some (currentRound g), gd_startTime = startTime g, gd_endTime = endTime g\<rparr>"

subsection \<open>The methods\<close>

definition stop :: "trig \<Rightarrow> gst \<Rightarrow> exn + gst" where
  "stop trig s = (let (g, e) = s in trig EvStop NoArg (g\<lparr>endTime := Some (now e)\<rparr>, e))"

definition gotoRound :: "trig \<Rightarrow> int \<Rightarrow> gst \<Rightarrow> exn + unit either \<times> gst" where
  "gotoRound trig round s =
     (let (g0, e) = s; g = g0\<lparr>currentRound := round\<rparr>
      in case js_nth (rounds g) round of
           None \<Rightarrow> mapR (\<lambda>s'. (Inl ''round does not exit'', s')) (stop trig (g, e))
         | Some roundObj \<Rightarrow>
             let g1 = g\<lparr>rounds := (rounds g)[nat round := roundObj\<lparr>rstartTime := Some (now e)\<rparr>]\<rparr>
             in bindR (trig EvRound (RoundArg round) (g1, e)) (\<lambda>(g2, e2).
                  Inr (Inr (),
                    (g2, scheduleTimer (gameId g2) (AnswerTimeout (oid g2) round) (msLength roundObj) e2))))"

definition start :: "trig \<Rightarrow> gst \<Rightarrow> exn + bool \<times> gst" where
  "start trig s =
     (let (g, e) = s
      in bindR (gotoRound trig 0 (g\<lparr>startTime := Some (now e)\<rparr>, e)) (\<lambda>(_, s1).
           bindR (trig EvStart GameArg s1) (\<lambda>s2. Inr (True, s2))))"

definition startIfPlayersReady :: "trig \<Rightarrow> gst \<Rightarrow> exn + bool \<times> gst" where
  "startIfPlayersReady trig s =
     (let (g, e) = s
      in if startTime g \<noteq> None then Inr (False, s)
         else case players g of
           [] \<Rightarrow> Inl TypeError
         | blue # rest \<Rightarrow>
             if \<not> ready blue then Inr (False, s)
             else (case rest of
                 [] \<Rightarrow> Inl TypeError
               | red # _ \<Rightarrow> if \<not> ready red then Inr (False, s) else start trig s))"

definition playerReady :: "trig \<Rightarrow> string \<Rightarrow> bool \<Rightarrow> gst \<Rightarrow> exn + unit either \<times> gst" where
  "playerReady trig pid rdy s =
     (let (g, e) = s; i = find_index (\<lambda>p. playerId p = pid) (players g)
      in case js_nth (players g) i of
           None \<Rightarrow> Inr (Inl ''Player not found in game.'', s)
         | Some player \<Rightarrow>
             let player' = player\<lparr>ready := rdy\<rparr>
             in mapR (\<lambda>s'. (Inr (), s'))
                  (trig EvPlayerReady (PlayerArg player')
                    (g\<lparr>players := (players g)[nat i := player']\<rparr>, e)))"

text \<open>
  \<open>answer\<close>: \<open>roundObj\<close> is a reference into the array, read again after \<open>trigger("answer")\<close>.
  Every status is 1 or -1, so the timer for the next round is always set.
\<close>

definition answer :: "trig \<Rightarrow> answer \<Rightarrow> gst \<Rightarrow> exn + int either \<times> gst" where
  "answer trig a s =
     (let (g, e) = s; round = a_round a
      in case js_nth (rounds g) round of
           None \<Rightarrow> Inr (Inl ''invalid round number'', s)
         | Some roundObj \<Rightarrow>
             if rendTime roundObj \<noteq> None then Inr (Inl ''round ended'', s)
             else if rstartTime roundObj = None then Inr (Inl ''round not started'', s)
             else
               let e1 = clearTimeout (getTimer (gameId g) e) e
               in bindR (trig EvAnswer (AnswerArg a) (g, e1)) (\<lambda>(g2, e2).
                    let (answerStatus, roundObj') = onAnswer (now e2) a (rounds g2 ! nat round);
                        g3 = g2\<lparr>rounds := (rounds g2)[nat round := roundObj']\<rparr>;
                        e3 = (if answerStatus \<noteq> 0
                              then snd (setTimeout (GotoTimeout (oid g2) (round + 1)) 1000 e2) else e2)
                    in Inr (Inr answerStatus, (g3, e3))))"

subsection \<open>The listeners\<close>

definition run_listener :: "trig \<Rightarrow> event_arg \<Rightarrow> listener \<Rightarrow> gst \<Rightarrow> exn + gst" where
  "run_listener trig arg l s =
     (let (g, e) = s
      in case l of
           StartIfReady \<Rightarrow> mapR snd (startIfPlayersReady trig s)
         | TriggerState \<Rightarrow> trig EvState NoArg s
         | SaveState \<Rightarrow> Inr (g, emit (SaveGame (gameId g) (state g)) e)
         | ClientListener sock \<Rightarrow> Inr (g, emit (ClientState sock (state g)) e)
         | AdminListener sock \<Rightarrow> Inr (g, emit (AdminState sock (state g)) e)
         | ChainListener sid gid \<Rightarrow> Inr (g, emit (SetCurrentGame sid gid) e)
         | AttackListener att port \<Rightarrow>
             (case arg of
                RoundArg round \<Rightarrow>
                  let e1 = (if round = att_round att then emit (AttackLaunch att port) e else e);
                      e2 = (if round = att_round att + 1 then emit (AttackUnmute att port) e1 else e1)
                  in Inr (g, e2)
              | _ \<Rightarrow> Inr s))"

primrec trigger_fuel :: "nat \<Rightarrow> trig" where
  "trigger_fuel 0 ev arg s = Inl OutOfFuel"
| "trigger_fuel (Suc n) ev arg s =
     trigger_with (run_listener (trigger_fuel n) arg) (cbMap (fst s)) ev s"

text \<open>Depth 4: a readiness event starts the game, which goes to a round, which saves the state.\<close>

definition trigger :: trig where
  "trigger = trigger_fuel 4"

subsection \<open>The constructor\<close>

definition constructor_listeners :: "(game_event \<times> listener) list" where
  "constructor_listeners =
     [(EvPlayerReady, StartIfReady),
      (EvState, SaveState),
      (EvPlayerReady, TriggerState),
      (EvAnswer, TriggerState),
      (EvStop, TriggerState),
      (EvStart, TriggerState),
      (EvRound, TriggerState)]"

text \<open>
  The constructor takes no \<open>endTime\<close>, so a game it builds has none, whatever the data it is built
  from says. \<open>currentRound || 0\<close> is 0 for an absent round.
\<close>

definition new_Game ::
  "nat \<Rightarrow> string \<Rightarrow> player list \<Rightarrow> round list \<Rightarrow> int option \<Rightarrow> int option \<Rightarrow> game" where
  "new_Game i gid ps rs cur st =
     \<lparr>oid = i, players = ps, gameId = gid, rounds = rs,
      currentRound = (case cur of None \<Rightarrow> 0 | Some c \<Rightarrow> c),
      startTime = st, endTime = None,
      cbMap = fold (\<lambda>(ev, l). on ev l) constructor_listeners no_cbs\<rparr>"

text \<open>The closures given to \<open>setTimeout\<close>, run by the event loop.\<close>

fun fire :: "timer_act \<Rightarrow> gst \<Rightarrow> exn + gst" where
  "fire (AnswerTimeout _ round) s = mapR snd (answer trigger \<lparr>a_round = round, a_value = None\<rparr> s)"
| "fire (GotoTimeout _ round) s = mapR snd (gotoRound trigger round s)"

end
