(* ===== verification/GameFacts.thy ===== *)
theory GameFacts
  imports Game
begin

text \<open>
  What the methods of \<open>Game\<close> compute. For a game whose listeners are those the program registers
  (\<open>wf_game\<close>), a cascade of events started with depth 3 or more ends without an exception, and
  each method equals a function without callbacks (the \<open>_fx\<close> functions): the effects of an event
  are a list that depends on the game at that moment only. The other theories reason with the
  \<open>_fx\<close> functions.
\<close>

subsection \<open>The effects of an event\<close>

fun leaf :: "listener \<Rightarrow> bool" where
  "leaf StartIfReady = False"
| "leaf TriggerState = False"
| "leaf _ = True"

fun leaf_out :: "event_arg \<Rightarrow> listener \<Rightarrow> game \<Rightarrow> effect list" where
  "leaf_out arg SaveState g = [SaveGame (gameId g) (state g)]"
| "leaf_out arg (ClientListener sock) g = [ClientState sock (state g)]"
| "leaf_out arg (AdminListener sock) g = [AdminState sock (state g)]"
| "leaf_out arg (ChainListener sid gid) g = [SetCurrentGame sid gid]"
| "leaf_out arg (AttackListener att port) g =
     (case arg of
        RoundArg k \<Rightarrow> (if k = att_round att then [AttackLaunch att port] else [])
          @ (if k = att_round att + 1 then [AttackUnmute att port] else [])
      | _ \<Rightarrow> [])"
| "leaf_out arg _ g = []"

definition state_out :: "game \<Rightarrow> effect list" where
  "state_out g = concat (map (\<lambda>l. leaf_out NoArg l g) (subs (cbMap g) EvState))"

definition event_out :: "game_event \<Rightarrow> event_arg \<Rightarrow> game \<Rightarrow> effect list" where
  "event_out ev arg g =
     concat (map (\<lambda>l. if l = TriggerState then state_out g else leaf_out arg l g)
       (subs (cbMap g) ev))"

definition wf_game :: "game \<Rightarrow> bool" where
  "wf_game g \<longleftrightarrow>
     subs (cbMap g) EvPlayerReady = [StartIfReady, TriggerState]
     \<and> list_all leaf (subs (cbMap g) EvState)
     \<and> (\<forall>ev \<in> {EvAnswer, EvStop, EvStart, EvRound}.
          list_all (\<lambda>l. leaf l \<or> l = TriggerState) (subs (cbMap g) ev))"

lemma wf_game_cong: "cbMap g = cbMap h \<Longrightarrow> wf_game g = wf_game h"
  by (simp add: wf_game_def)

lemma wf_game_updates [simp]:
  "wf_game (g\<lparr>players := ps\<rparr>) = wf_game g"
  "wf_game (g\<lparr>rounds := rs\<rparr>) = wf_game g"
  "wf_game (g\<lparr>currentRound := k\<rparr>) = wf_game g"
  "wf_game (g\<lparr>startTime := t\<rparr>) = wf_game g"
  "wf_game (g\<lparr>endTime := t\<rparr>) = wf_game g"
  by (simp_all add: wf_game_def)

lemma subs_new_Game:
  "subs (cbMap (new_Game i gid ps rs cur st)) ev =
     map snd (filter (\<lambda>p. fst p = ev) constructor_listeners)"
  by (simp add: new_Game_def ev.reg_many ev.listeners_none)

lemma wf_new_Game [simp]: "wf_game (new_Game i gid ps rs cur st)"
  by (simp add: wf_game_def subs_new_Game constructor_listeners_def)

text \<open>Listeners that the program adds later keep a game well formed.\<close>

lemma wf_game_on:
  assumes "wf_game g" "leaf l" "ev \<noteq> EvPlayerReady"
  shows "wf_game (g\<lparr>cbMap := on ev l (cbMap g)\<rparr>)"
  using assms by (auto simp: wf_game_def ev.listeners_reg)

subsection \<open>Cascades end\<close>

lemma run_listener_leaf:
  "leaf l \<Longrightarrow> run_listener trig arg l (g, e) = Inr (g, emit_all (leaf_out arg l g) e)"
  by (cases l) (auto simp: run_listener_def Let_def split: event_arg.split)

lemma run_all_state_listeners:
  "list_all leaf ls \<Longrightarrow>
     run_all (run_listener trig NoArg) ls (g, e) =
       Inr (g, emit_all (concat (map (\<lambda>l. leaf_out NoArg l g) ls)) e)"
  by (induction ls arbitrary: e) (simp_all add: run_listener_leaf)

lemma trigger_state:
  "wf_game g \<Longrightarrow> trigger_fuel (Suc n) EvState NoArg (g, e) = Inr (g, emit_all (state_out g) e)"
  by (simp add: trigger_with_subs run_all_state_listeners wf_game_def state_out_def)

lemma run_all_listeners:
  assumes "\<And>e. trig EvState NoArg (g, e) = Inr (g, emit_all (state_out g) e)"
    and "list_all (\<lambda>l. leaf l \<or> l = TriggerState) ls"
  shows "run_all (run_listener trig arg) ls (g, e) =
    Inr (g, emit_all (concat (map (\<lambda>l. if l = TriggerState then state_out g else leaf_out arg l g) ls)) e)"
  using assms(2)
proof (induction ls arbitrary: e)
  case Nil
  then show ?case by simp
next
  case (Cons l ls)
  show ?case
  proof (cases "l = TriggerState")
    case True
    with Cons assms(1) show ?thesis by (simp add: run_listener_def)
  next
    case False
    with Cons show ?thesis by (simp add: run_listener_leaf)
  qed
qed

lemma trigger_event:
  assumes "wf_game g" "ev \<in> {EvAnswer, EvStop, EvStart, EvRound}"
  shows "trigger_fuel (Suc (Suc n)) ev arg (g, e) = Inr (g, emit_all (event_out ev arg g) e)"
proof -
  have st: "\<And>e. trigger_fuel (Suc n) EvState NoArg (g, e) = Inr (g, emit_all (state_out g) e)"
    using assms(1) by (rule trigger_state)
  have "list_all (\<lambda>l. leaf l \<or> l = TriggerState) (subs (cbMap g) ev)"
    using assms by (auto simp: wf_game_def)
  from run_all_listeners [of "trigger_fuel (Suc n)", OF st this]
  show ?thesis
    by (subst trigger_fuel.simps(2)) (simp add: trigger_with_subs event_out_def del: trigger_fuel.simps)
qed

subsection \<open>The methods without callbacks\<close>

definition stop_fx :: "gst \<Rightarrow> gst" where
  "stop_fx s = (let (g, e) = s; g1 = g\<lparr>endTime := Some (now e)\<rparr>
     in (g1, emit_all (event_out EvStop NoArg g1) e))"

definition gotoRound_fx :: "int \<Rightarrow> gst \<Rightarrow> gst" where
  "gotoRound_fx k s =
     (let (g0, e) = s; g = g0\<lparr>currentRound := k\<rparr>
      in case js_nth (rounds g) k of
           None \<Rightarrow> stop_fx (g, e)
         | Some r \<Rightarrow>
             let g1 = g\<lparr>rounds := (rounds g)[nat k := r\<lparr>rstartTime := Some (now e)\<rparr>]\<rparr>
             in (g1, scheduleTimer (gameId g) (AnswerTimeout (oid g) k) (msLength r)
                   (emit_all (event_out EvRound (RoundArg k) g1) e)))"

definition start_fx :: "gst \<Rightarrow> gst" where
  "start_fx s =
     (let (g, e) = s; (g1, e1) = gotoRound_fx 0 (g\<lparr>startTime := Some (now e)\<rparr>, e)
      in (g1, emit_all (event_out EvStart GameArg g1) e1))"

definition answer_fx :: "answer \<Rightarrow> gst \<Rightarrow> gst" where
  "answer_fx a s =
     (let (g, e) = s; i = nat (a_round a);
          e1 = emit_all (event_out EvAnswer (AnswerArg a) g) (clearTimeout (gameTimers e (gameId g)) e);
          r' = snd (onAnswer (now e) a (rounds g ! i))
      in (g\<lparr>rounds := (rounds g)[i := r']\<rparr>,
          snd (setTimeout (GotoTimeout (oid g) (a_round a + 1)) 1000 e1)))"

definition both_ready :: "player list \<Rightarrow> bool" where
  "both_ready ps \<longleftrightarrow> (case ps of blue # red # _ \<Rightarrow> ready blue \<and> ready red | _ \<Rightarrow> False)"

definition playerReady_fx :: "nat \<Rightarrow> bool \<Rightarrow> gst \<Rightarrow> gst" where
  "playerReady_fx i rdy s =
     (let (g0, e) = s; g = g0\<lparr>players := (players g0)[i := (players g0 ! i)\<lparr>ready := rdy\<rparr>]\<rparr>;
          (g1, e1) = (if startTime g = None \<and> both_ready (players g) then start_fx (g, e) else (g, e))
      in (g1, emit_all (state_out g1) e1))"

lemma fx_cbMap [simp]:
  "cbMap (fst (stop_fx s)) = cbMap (fst s)"
  "cbMap (fst (gotoRound_fx k s)) = cbMap (fst s)"
  "cbMap (fst (start_fx s)) = cbMap (fst s)"
  "cbMap (fst (answer_fx a s)) = cbMap (fst s)"
  "cbMap (fst (playerReady_fx i b s)) = cbMap (fst s)"
  by (auto simp: stop_fx_def gotoRound_fx_def start_fx_def answer_fx_def playerReady_fx_def Let_def
      split: prod.splits option.splits if_splits)

lemma stop_eq:
  assumes "wf_game (fst s)"
  shows "stop (trigger_fuel (Suc (Suc n))) s = Inr (stop_fx s)"
  using assms
  by (cases s) (simp add: stop_def stop_fx_def Let_def trigger_event del: trigger_fuel.simps)

lemma gotoRound_eq:
  assumes "wf_game (fst s)"
  shows "gotoRound (trigger_fuel (Suc (Suc n))) k s =
    Inr (if js_nth (rounds (fst s)) k = None then Inl ''round does not exit'' else Inr (), gotoRound_fx k s)"
proof (cases s)
  case (Pair g e)
  with assms show ?thesis
    by (simp add: gotoRound_def gotoRound_fx_def Let_def stop_eq trigger_event
        del: trigger_fuel.simps split: option.split)
qed

lemma start_eq:
  assumes "wf_game (fst s)"
  shows "start (trigger_fuel (Suc (Suc n))) s = Inr (True, start_fx s)"
proof (cases s)
  case (Pair g e)
  let ?s = "(g\<lparr>startTime := Some (now e)\<rparr>, e)"
  obtain g1 e1 where s1: "gotoRound_fx 0 ?s = (g1, e1)" by fastforce
  then have "cbMap g1 = cbMap g" using fx_cbMap(2) [of 0 ?s] by simp
  then have "wf_game g1" using assms Pair wf_game_cong [of g1 g] by simp
  with assms Pair s1 show ?thesis
    by (simp add: start_def start_fx_def gotoRound_eq trigger_event del: trigger_fuel.simps)
qed

lemma answer_eq:
  assumes "wf_game (fst s)"
  shows "answer (trigger_fuel (Suc (Suc n))) a s =
    Inr (case js_nth (rounds (fst s)) (a_round a) of
           None \<Rightarrow> (Inl ''invalid round number'', s)
         | Some r \<Rightarrow>
             if rendTime r \<noteq> None then (Inl ''round ended'', s)
             else if rstartTime r = None then (Inl ''round not started'', s)
             else (Inr (fst (onAnswer (now (snd s)) a r)), answer_fx a s))"
proof (cases s)
  case (Pair g e)
  show ?thesis
  proof (cases "js_nth (rounds g) (a_round a)")
    case None
    with Pair show ?thesis by (simp add: answer_def)
  next
    case (Some r)
    then have "rounds g ! nat (a_round a) = r" by (simp add: js_nth_Some_iff)
    with Some Pair assms show ?thesis
      by (simp add: answer_def answer_fx_def Let_def trigger_event getTimer_def case_prod_unfold
          del: trigger_fuel.simps)
  qed
qed

lemma startIfPlayersReady_eq:
  assumes "wf_game (fst s)" "2 \<le> length (players (fst s))"
  shows "startIfPlayersReady (trigger_fuel (Suc (Suc n))) s =
    Inr (if startTime (fst s) = None \<and> both_ready (players (fst s)) then (True, start_fx s) else (False, s))"
proof -
  obtain g e where s: "s = (g, e)" by fastforce
  obtain b r ps where ps: "players g = b # r # ps"
    using assms(2) s by (auto simp: Suc_le_length_iff numeral_2_eq_2)
  from assms s ps show ?thesis
    by (simp add: startIfPlayersReady_def both_ready_def start_eq del: trigger_fuel.simps)
qed

definition ready_fx :: "gst \<Rightarrow> gst" where
  "ready_fx s =
     (let (g1, e1) = (if startTime (fst s) = None \<and> both_ready (players (fst s)) then start_fx s else s)
      in (g1, emit_all (state_out g1) e1))"

lemma trigger_playerReady:
  assumes wf: "wf_game (fst s)" and two: "2 \<le> length (players (fst s))"
  shows "trigger_fuel (Suc (Suc (Suc n))) EvPlayerReady arg s = Inr (ready_fx s)"
proof -
  let ?s = "if startTime (fst s) = None \<and> both_ready (players (fst s)) then start_fx s else s"
  have "cbMap (fst ?s) = cbMap (fst s)" by simp
  then have wf1: "wf_game (fst ?s)" using wf wf_game_cong by blast
  have start: "run_listener (trigger_fuel (Suc (Suc n))) arg StartIfReady s = Inr ?s"
    using startIfPlayersReady_eq [OF wf two, of n]
    by (simp add: run_listener_def case_prod_unfold del: trigger_fuel.simps)
  obtain g1 e1 where s1: "?s = (g1, e1)" by fastforce
  have "run_listener (trigger_fuel (Suc (Suc n))) arg TriggerState ?s
      = Inr (g1, emit_all (state_out g1) e1)"
    using trigger_state [of g1 "Suc n" e1] wf1 s1
    by (simp add: run_listener_def del: trigger_fuel.simps)
  with start show ?thesis using wf s1
    by (subst trigger_fuel.simps(2))
       (simp add: trigger_with_subs wf_game_def ready_fx_def del: trigger_fuel.simps)
qed

lemma playerReady_eq:
  assumes wf: "wf_game (fst s)" and two: "2 \<le> length (players (fst s))"
  shows "playerReady (trigger_fuel (Suc (Suc (Suc n)))) pid b s =
    Inr (let i = find_index (\<lambda>p. playerId p = pid) (players (fst s))
         in if i = -1 then (Inl ''Player not found in game.'', s)
            else (Inr (), playerReady_fx (nat i) b s))"
proof -
  obtain g e where s: "s = (g, e)" by fastforce
  let ?i = "find_index (\<lambda>p. playerId p = pid) (players g)"
  have nth: "js_nth (players g) ?i = (if ?i = -1 then None else Some (players g ! nat ?i))"
    using find_index_ge [of "\<lambda>p. playerId p = pid" "players g"]
      find_index_lt [of "\<lambda>p. playerId p = pid" "players g"] by (auto simp: js_nth_def)
  define g' where "g' = g\<lparr>players := (players g)[nat ?i := (players g ! nat ?i)\<lparr>ready := b\<rparr>]\<rparr>"
  have "wf_game (fst (g', e))" "2 \<le> length (players (fst (g', e)))"
    using wf two s by (simp_all add: g'_def)
  from trigger_playerReady [OF this]
  have "trigger_fuel (Suc (Suc (Suc n))) EvPlayerReady arg (g', e) = Inr (ready_fx (g', e))" for arg .
  moreover have "playerReady_fx (nat ?i) b s = ready_fx (g', e)"
    using s by (simp add: playerReady_fx_def ready_fx_def g'_def Let_def)
  ultimately show ?thesis using s nth
    by (simp add: playerReady_def Let_def g'_def del: trigger_fuel.simps)
qed

lemma trigger_4: "trigger = trigger_fuel (Suc (Suc (Suc (Suc 0))))"
  by (simp add: trigger_def numeral_eq_Suc)

lemmas method_eqs =
  stop_eq [of _ "Suc (Suc 0)", folded trigger_4]
  gotoRound_eq [of _ "Suc (Suc 0)", folded trigger_4]
  start_eq [of _ "Suc (Suc 0)", folded trigger_4]
  answer_eq [of _ "Suc (Suc 0)", folded trigger_4]
  startIfPlayersReady_eq [of _ "Suc (Suc 0)", folded trigger_4]
  playerReady_eq [of _ "Suc 0", folded trigger_4]

end
