(* ===== verification/GameRun.thy ===== *)
theory GameRun
  imports GameFacts
begin

text \<open>
  One game under the event loop: the steps its object can take (time passes, a player answers or
  changes readiness, a timer that is due runs, a component registers a listener), the states
  reachable from a created game and from one restored after a restart, and the invariant that ties
  the game's fields to its pending timer. Messages may carry any round number, value and player id,
  and may arrive in any order relative to the timers.
\<close>

inductive game_step :: "gst \<Rightarrow> gst \<Rightarrow> bool" where
  tick: "0 \<le> d \<Longrightarrow> game_step (g, e) (g, e\<lparr>now := now e + d\<rparr>)"
| client_answer: "answer trigger a s = Inr (res, s') \<Longrightarrow> game_step s s'"
| client_ready: "playerReady trigger pid b s = Inr (res, s') \<Longrightarrow> game_step s s'"
| timer: "(i, due, act) \<in> set (pending e) \<Longrightarrow> due \<le> now e \<Longrightarrow>
    fire act (g, e\<lparr>pending := filter (\<lambda>p. fst p \<noteq> i) (pending e)\<rparr>) = Inr s' \<Longrightarrow>
    game_step (g, e) s'"
| subscribe: "leaf l \<Longrightarrow> ev \<noteq> EvPlayerReady \<Longrightarrow>
    game_step (g, e) (g\<lparr>cbMap := on ev l (cbMap g)\<rparr>, e)"

inductive_cases game_stepE: "game_step s s'"

text \<open>
  A game as \<open>createGame\<close> builds it (two players, fresh rounds), and a game as \<open>initGame\<close> restores
  it: fresh rounds at a stored position, resumed with \<open>gotoRound\<close> when it had started.
\<close>

definition idle_env :: "env \<Rightarrow> bool" where
  "idle_env e \<longleftrightarrow> clock_ok e \<and> pending e = []"

inductive reachable :: "gst \<Rightarrow> bool" where
  created: "list_all fresh_round rs \<Longrightarrow> list_all single_round rs \<Longrightarrow> 2 \<le> length ps \<Longrightarrow>
    \<not> both_ready ps \<Longrightarrow> idle_env e \<Longrightarrow> reachable (new_Game i gid ps rs None None, e)"
| resumed: "list_all fresh_round rs \<Longrightarrow> list_all single_round rs \<Longrightarrow> 2 \<le> length ps \<Longrightarrow>
    idle_env e \<Longrightarrow> 0 \<le> cur \<Longrightarrow> cur \<le> int (length rs) \<Longrightarrow>
    gotoRound trigger cur (new_Game i gid ps rs (Some cur) (Some t), e) = Inr (res, s) \<Longrightarrow>
    reachable s"
| step: "reachable s \<Longrightarrow> game_step s s' \<Longrightarrow> reachable s'"

subsection \<open>The invariant\<close>

text \<open>
  A game waits for its players, plays its current round, or has ended. While it plays, exactly one
  timer is pending: the timeout of the current round while that is open, the change to the next
  round after it has been answered.
\<close>

definition lobby_inv :: "gst \<Rightarrow> bool" where
  "lobby_inv s \<longleftrightarrow> (let (g, e) = s in
     currentRound g = 0 \<and> endTime g = None \<and> list_all fresh_round (rounds g)
     \<and> pending e = [] \<and> \<not> both_ready (players g))"

definition round_timer :: "gst \<Rightarrow> bool" where
  "round_timer s \<longleftrightarrow> (let (g, e) = s; k = currentRound g in
     if rendTime (rounds g ! nat k) = None
     then (\<exists>t due. pending e = [(t, due, AnswerTimeout (oid g) k)] \<and> gameTimers e (gameId g) = Some t)
     else (\<exists>t due. pending e = [(t, due, GotoTimeout (oid g) (k + 1))]))"

definition running_inv :: "gst \<Rightarrow> bool" where
  "running_inv s \<longleftrightarrow> (let (g, e) = s; k = nat (currentRound g) in
     endTime g = None \<and> rstartTime (rounds g ! k) \<noteq> None
     \<and> (\<forall>i < k. \<not> open_round (rounds g ! i))
     \<and> (\<forall>i. k < i \<longrightarrow> i < length (rounds g) \<longrightarrow> fresh_round (rounds g ! i))
     \<and> round_timer s)"

definition ended_inv :: "gst \<Rightarrow> bool" where
  "ended_inv s \<longleftrightarrow> (let (g, e) = s in
     endTime g \<noteq> None \<and> pending e = [] \<and> list_all (\<lambda>r. \<not> open_round r) (rounds g))"

definition game_base :: "gst \<Rightarrow> bool" where
  "game_base s \<longleftrightarrow> (let (g, e) = s in
     wf_game g \<and> 2 \<le> length (players g) \<and> clock_ok e \<and> list_all single_round (rounds g)
     \<and> 0 \<le> currentRound g \<and> currentRound g \<le> int (length (rounds g)))"

definition game_inv :: "gst \<Rightarrow> bool" where
  "game_inv s \<longleftrightarrow> game_base s \<and>
     (if startTime (fst s) = None then lobby_inv s
      else if currentRound (fst s) < int (length (rounds (fst s))) then running_inv s
      else ended_inv s)"

lemmas inv_defs = game_inv_def game_base_def lobby_inv_def running_inv_def ended_inv_def round_timer_def

subsection \<open>Every operation preserves the invariant\<close>

text \<open>Arriving at a round: all timers have run, what lies ahead is fresh and nothing is open.\<close>

definition before_round :: "int \<Rightarrow> gst \<Rightarrow> bool" where
  "before_round k s \<longleftrightarrow> (let (g, e) = s in
     wf_game g \<and> 2 \<le> length (players g) \<and> clock_ok e \<and> list_all single_round (rounds g)
     \<and> 0 \<le> k \<and> k \<le> int (length (rounds g)) \<and> startTime g \<noteq> None \<and> endTime g = None \<and> pending e = []
     \<and> (\<forall>i < nat k. \<not> open_round (rounds g ! i))
     \<and> (\<forall>i. nat k \<le> i \<longrightarrow> i < length (rounds g) \<longrightarrow> fresh_round (rounds g ! i)))"

lemma single_round_update [simp]: "single_round (r\<lparr>rstartTime := t\<rparr>) = single_round r"
  by (simp add: single_round_def)

lemma single_round_onAnswer [simp]: "single_round (snd (onAnswer n a r)) = single_round r"
  by (simp add: single_round_def frame)

lemma list_all_update: "list_all P xs \<Longrightarrow> P x \<Longrightarrow> list_all P (xs[i := x])"
  by (auto simp: list_all_iff dest!: set_update_subset_insert [THEN subsetD])

text \<open>Effects, time, players' readiness and new listeners do not touch what the invariant is about.\<close>

lemma game_inv_emit [simp]:
  "game_base (g, emit_all xs e) = game_base (g, e)"
  "lobby_inv (g, emit_all xs e) = lobby_inv (g, e)"
  "running_inv (g, emit_all xs e) = running_inv (g, e)"
  "ended_inv (g, emit_all xs e) = ended_inv (g, e)"
  "game_inv (g, emit_all xs e) = game_inv (g, e)"
proof -
  show b: "game_base (g, emit_all xs e) = game_base (g, e)"
    and l: "lobby_inv (g, emit_all xs e) = lobby_inv (g, e)"
    and r: "running_inv (g, emit_all xs e) = running_inv (g, e)"
    and n: "ended_inv (g, emit_all xs e) = ended_inv (g, e)"
    by (simp_all add: game_base_def lobby_inv_def running_inv_def ended_inv_def round_timer_def Let_def)
  show "game_inv (g, emit_all xs e) = game_inv (g, e)"
    by (simp add: game_inv_def b l r n)
qed

lemma game_inv_tick:
  "game_inv (g, e\<lparr>now := t\<rparr>) = game_inv (g, e)"
proof -
  have "game_base (g, e\<lparr>now := t\<rparr>) = game_base (g, e)"
    and "lobby_inv (g, e\<lparr>now := t\<rparr>) = lobby_inv (g, e)"
    and "running_inv (g, e\<lparr>now := t\<rparr>) = running_inv (g, e)"
    and "ended_inv (g, e\<lparr>now := t\<rparr>) = ended_inv (g, e)"
    by (simp_all add: game_base_def lobby_inv_def running_inv_def ended_inv_def round_timer_def
        clock_ok_def Let_def)
  then show ?thesis by (simp add: game_inv_def)
qed

lemma game_inv_subscribe:
  assumes "game_inv (g, e)" "leaf l" "ev \<noteq> EvPlayerReady"
  shows "game_inv (g\<lparr>cbMap := on ev l (cbMap g)\<rparr>, e)"
proof -
  let ?g = "g\<lparr>cbMap := on ev l (cbMap g)\<rparr>"
  have "game_base (?g, e)"
    using assms by (simp add: game_inv_def game_base_def wf_game_on)
  moreover have "lobby_inv (?g, e) = lobby_inv (g, e)"
    and "running_inv (?g, e) = running_inv (g, e)" and "ended_inv (?g, e) = ended_inv (g, e)"
    by (simp_all add: lobby_inv_def running_inv_def ended_inv_def round_timer_def Let_def)
  ultimately show ?thesis using assms(1) by (simp add: game_inv_def)
qed

lemma game_inv_players:
  assumes "game_inv (g, e)" "length ps = length (players g)" "startTime g = None \<Longrightarrow> \<not> both_ready ps"
  shows "game_inv (g\<lparr>players := ps\<rparr>, e)"
proof -
  let ?g = "g\<lparr>players := ps\<rparr>"
  have "game_base (?g, e) = game_base (g, e)" using assms(2) by (simp add: game_base_def)
  moreover have "startTime g = None \<Longrightarrow> lobby_inv (g, e) \<Longrightarrow> lobby_inv (?g, e)"
    using assms(3) by (simp add: lobby_inv_def Let_def)
  moreover have "running_inv (?g, e) = running_inv (g, e)" and "ended_inv (?g, e) = ended_inv (g, e)"
    by (simp_all add: running_inv_def ended_inv_def round_timer_def Let_def)
  ultimately show ?thesis using assms(1) by (auto simp: game_inv_def)
qed

text \<open>The three phases, as rules.\<close>

lemma game_invI_running:
  "game_base (g, e) \<Longrightarrow> startTime g \<noteq> None \<Longrightarrow> currentRound g < int (length (rounds g)) \<Longrightarrow>
     running_inv (g, e) \<Longrightarrow> game_inv (g, e)"
  by (auto simp: game_inv_def)

lemma game_invI_ended:
  "game_base (g, e) \<Longrightarrow> startTime g \<noteq> None \<Longrightarrow> currentRound g = int (length (rounds g)) \<Longrightarrow>
     ended_inv (g, e) \<Longrightarrow> game_inv (g, e)"
  by (auto simp: game_inv_def)

lemma game_inv_lobby: "game_inv (g, e) \<Longrightarrow> startTime g = None \<Longrightarrow> lobby_inv (g, e)"
  by (simp add: game_inv_def)

lemma game_inv_running:
  "game_inv (g, e) \<Longrightarrow> startTime g \<noteq> None \<Longrightarrow> currentRound g < int (length (rounds g)) \<Longrightarrow>
     running_inv (g, e)"
  by (simp add: game_inv_def)

lemma game_inv_ended:
  "game_inv (g, e) \<Longrightarrow> startTime g \<noteq> None \<Longrightarrow> \<not> currentRound g < int (length (rounds g)) \<Longrightarrow>
     ended_inv (g, e)"
  by (simp add: game_inv_def)

lemma game_inv_base: "game_inv s \<Longrightarrow> game_base s"
  by (simp add: game_inv_def)

lemma gotoRound_fx_inv:
  assumes "before_round k s"
  shows "game_inv (gotoRound_fx k s)"
proof -
  obtain g e where s: "s = (g, e)" by fastforce
  from assms s have pre: "wf_game g" "2 \<le> length (players g)" "clock_ok e" "list_all single_round (rounds g)"
      "0 \<le> k" "k \<le> int (length (rounds g))" "startTime g \<noteq> None" "endTime g = None" "pending e = []"
      "\<forall>i < nat k. \<not> open_round (rounds g ! i)"
      "\<forall>i. nat k \<le> i \<longrightarrow> i < length (rounds g) \<longrightarrow> fresh_round (rounds g ! i)"
    by (simp_all add: before_round_def)
  show ?thesis
  proof (cases "k < int (length (rounds g))")
    case True
    let ?r = "rounds g ! nat k"
    let ?rs = "(rounds g)[nat k := ?r\<lparr>rstartTime := Some (now e)\<rparr>]"
    let ?g = "g\<lparr>currentRound := k, rounds := ?rs\<rparr>"
    let ?e = "emit_all (event_out EvRound (RoundArg k) ?g) e"
    let ?e' = "scheduleTimer (gameId g) (AnswerTimeout (oid g) k) (msLength ?r) ?e"
    have k: "js_nth (rounds g) k = Some ?r" and kk: "nat k < length (rounds g)"
      using True pre(5) by (auto simp: js_nth_Some_iff)
    have fx: "gotoRound_fx k s = (?g, ?e')" using s k by (simp add: gotoRound_fx_def Let_def)
    have r: "single_round ?r" "fresh_round ?r" using pre kk by (simp_all add: list_all_length)
    have "clock_ok ?e'" using pre(3) by (intro clock_ok_scheduleTimer) simp
    moreover have "list_all single_round ?rs" using pre(4) r(1) by (simp add: list_all_update)
    ultimately have base: "game_base (?g, ?e')" using pre True by (simp add: game_base_def)
    have end_r: "rendTime ?r = None" using r(2) by (simp add: fresh_round_def)
    have "round_timer (?g, ?e')"
      using kk end_r pre(9) by (auto simp: round_timer_def scheduleTimer_eq pending_clearTimeout Let_def split: option.split)
    then have "running_inv (?g, ?e')" using pre kk by (simp add: running_inv_def)
    then show ?thesis unfolding fx using base True pre(7) by (intro game_invI_running) simp_all
  next
    case False
    let ?g = "g\<lparr>currentRound := k, endTime := Some (now e)\<rparr>"
    have k: "js_nth (rounds g) k = None" "k = int (length (rounds g))"
      using False pre(6) by (auto simp: js_nth_None_iff)
    have fx: "gotoRound_fx k s = (?g, emit_all (event_out EvStop NoArg ?g) e)"
      using s k by (simp add: gotoRound_fx_def stop_fx_def Let_def)
    have "game_inv (?g, e)"
    proof (rule game_invI_ended)
      show "game_base (?g, e)" using pre k(2) by (simp add: game_base_def)
      show "ended_inv (?g, e)" using pre k(2) by (simp add: ended_inv_def list_all_length)
    qed (use pre k(2) in simp_all)
    then show ?thesis unfolding fx by simp
  qed
qed

lemma start_fx_inv:
  assumes inv: "game_inv (g, e)" and st: "startTime g = None" and len: "length ps = length (players g)"
  shows "game_inv (start_fx (g\<lparr>players := ps\<rparr>, e))"
proof -
  have "before_round 0 (g\<lparr>players := ps, startTime := Some (now e)\<rparr>, e)"
    using game_inv_base [OF inv] game_inv_lobby [OF inv st] len
    by (simp add: before_round_def game_base_def lobby_inv_def list_all_length)
  from gotoRound_fx_inv [OF this] show ?thesis
    by (simp add: start_fx_def Let_def case_prod_unfold)
qed

lemma playerReady_fx_inv:
  assumes inv: "game_inv (g, e)"
  shows "game_inv (playerReady_fx i b (g, e))"
proof -
  let ?ps = "(players g)[i := (players g ! i)\<lparr>ready := b\<rparr>]"
  show ?thesis
  proof (cases "startTime g = None \<and> both_ready ?ps")
    case True
    then show ?thesis using start_fx_inv [OF inv, of ?ps]
      by (simp add: playerReady_fx_def Let_def case_prod_unfold)
  next
    case False
    then have "game_inv (g\<lparr>players := ?ps\<rparr>, e)" using game_inv_players [OF inv, of ?ps] by auto
    with False show ?thesis by (auto simp: playerReady_fx_def Let_def)
  qed
qed

text \<open>Only the current round of a running game is ever open, and it owns the pending timeout.\<close>

lemma open_round_current:
  assumes inv: "game_inv (g, e)" and r: "i < length (rounds g)" "open_round (rounds g ! i)"
  shows "startTime g \<noteq> None" "i = nat (currentRound g)" "running_inv (g, e)"
    "currentRound g < int (length (rounds g))"
    "\<exists>t due. pending e = [(t, due, AnswerTimeout (oid g) (currentRound g))] \<and> gameTimers e (gameId g) = Some t"
proof -
  have nf: "\<not> fresh_round (rounds g ! i)" using r(2) fresh_not_open by blast
  show started: "startTime g \<noteq> None"
  proof
    assume "startTime g = None"
    from game_inv_lobby [OF inv this] show False
      using r(1) nf by (simp add: lobby_inv_def list_all_length)
  qed
  show cur: "currentRound g < int (length (rounds g))"
  proof (rule ccontr)
    assume "\<not> currentRound g < int (length (rounds g))"
    from game_inv_ended [OF inv started this] show False
      using r by (simp add: ended_inv_def list_all_length)
  qed
  from game_inv_running [OF inv started cur] show run: "running_inv (g, e)" .
  then show i: "i = nat (currentRound g)"
    using r nf by (auto simp: running_inv_def Let_def) (metis linorder_cases)
  have "rendTime (rounds g ! nat (currentRound g)) = None" using r(2) i by (simp add: open_round_def)
  then show "\<exists>t due. pending e = [(t, due, AnswerTimeout (oid g) (currentRound g))]
      \<and> gameTimers e (gameId g) = Some t"
    using run by (simp add: running_inv_def round_timer_def Let_def)
qed

lemma answer_fx_inv:
  assumes inv: "game_inv (g, e)" and r: "js_nth (rounds g) (a_round a) = Some r" "open_round r"
  shows "a_round a = currentRound g" "game_inv (answer_fx a (g, e))"
proof -
  let ?k = "nat (a_round a)"
  have k: "0 \<le> a_round a" "?k < length (rounds g)" "rounds g ! ?k = r"
    using r(1) by (auto simp: js_nth_Some_iff)
  note cur = open_round_current [OF inv k(2), unfolded k(3), OF r(2)]
  have base: "game_base (g, e)" using inv by (rule game_inv_base)
  then have cur0: "0 \<le> currentRound g" by (simp add: game_base_def)
  then show eq: "a_round a = currentRound g" using cur(2) k(1) by simp
  obtain t due where pend: "pending e = [(t, due, AnswerTimeout (oid g) (a_round a))]"
      and tm: "gameTimers e (gameId g) = Some t"
    using cur(5) eq by auto
  let ?r = "r\<lparr>ranswer := a_value a, rendTime := Some (now e)\<rparr>"
  let ?g = "g\<lparr>rounds := (rounds g)[?k := ?r]\<rparr>"
  let ?e1 = "emit_all (event_out EvAnswer (AnswerArg a) g) (clearTimeout (Some t) e)"
  let ?e = "snd (setTimeout (GotoTimeout (oid g) (a_round a + 1)) 1000 ?e1)"
  have single: "single_round r" using base k by (auto simp: game_base_def list_all_length)
  then have fx: "answer_fx a (g, e) = (?g, ?e)"
    by (simp add: answer_fx_def Let_def onAnswer_single k tm)
  have "single_round ?r" using single by (simp add: single_round_def)
  then have "list_all single_round ((rounds g)[?k := ?r])"
    using base by (simp add: game_base_def list_all_update)
  moreover have "clock_ok ?e1" using base by (simp add: game_base_def tm.stop_ok)
  then have "clock_ok ?e" by (rule tm.start_ok)
  ultimately have "game_base (?g, ?e)" using base by (simp add: game_base_def)
  moreover have "rstartTime r \<noteq> None" using r(2) by (simp add: open_round_def)
  moreover have "round_timer (?g, ?e)"
    using k(2) cur(2) eq pend by (simp add: round_timer_def setTimeout_def pending_clearTimeout Let_def)
  ultimately have "game_base (?g, ?e)" "running_inv (?g, ?e)"
    using cur(3) k(2) eq by (auto simp: running_inv_def Let_def nth_list_update)
  then show "game_inv (answer_fx a (g, e))" unfolding fx
    using cur(1,4) by (intro game_invI_running) simp_all
qed

subsection \<open>Reachable games satisfy it\<close>

lemma game_inv_wf: "game_inv s \<Longrightarrow> wf_game (fst s) \<and> 2 \<le> length (players (fst s))"
  by (cases s) (simp add: game_inv_def game_base_def)

text \<open>When an answer is accepted, and with which effect on the state.\<close>

lemma answer_cases:
  assumes "wf_game g"
  shows "answer trigger a (g, e) = Inr
    (case js_nth (rounds g) (a_round a) of
       None \<Rightarrow> (Inl ''invalid round number'', (g, e))
     | Some r \<Rightarrow>
         if open_round r then (Inr (fst (onAnswer (now e) a r)), answer_fx a (g, e))
         else (Inl (if rendTime r \<noteq> None then ''round ended'' else ''round not started''), (g, e)))"
  using assms by (auto simp: method_eqs open_round_def split: option.split)

lemma answer_inv:
  assumes inv: "game_inv s" and ans: "answer trigger a s = Inr (res, s')"
  shows "game_inv s'"
proof -
  obtain g e where s: "s = (g, e)" by fastforce
  have wf: "wf_game g" using game_inv_wf [OF inv] s by simp
  show ?thesis
    using ans inv answer_fx_inv(2) [OF inv [unfolded s], of a]
    by (auto simp: s answer_cases [OF wf] split: option.splits if_splits)
qed

lemma playerReady_inv:
  assumes "game_inv s" and "playerReady trigger pid b s = Inr (res, s')"
  shows "game_inv s'"
  using assms game_inv_wf [OF assms(1)] playerReady_fx_inv
  by (cases s) (auto simp: method_eqs Let_def split: if_splits)

text \<open>The timer that is pending, when one is, is the only one.\<close>

lemma pending_cases:
  assumes inv: "game_inv (g, e)" and p: "(i, due, act) \<in> set (pending e)"
  shows "pending e = [(i, due, act)]" "startTime g \<noteq> None" "running_inv (g, e)"
    "currentRound g < int (length (rounds g))"
    "act = (if rendTime (rounds g ! nat (currentRound g)) = None
            then AnswerTimeout (oid g) (currentRound g) else GotoTimeout (oid g) (currentRound g + 1))"
proof -
  show started: "startTime g \<noteq> None"
  proof
    assume "startTime g = None"
    from game_inv_lobby [OF inv this] show False using p by (simp add: lobby_inv_def)
  qed
  show cur: "currentRound g < int (length (rounds g))"
  proof (rule ccontr)
    assume "\<not> currentRound g < int (length (rounds g))"
    from game_inv_ended [OF inv started this] show False using p by (simp add: ended_inv_def)
  qed
  from game_inv_running [OF inv started cur] show run: "running_inv (g, e)" .
  then show "pending e = [(i, due, act)]"
    "act = (if rendTime (rounds g ! nat (currentRound g)) = None
            then AnswerTimeout (oid g) (currentRound g) else GotoTimeout (oid g) (currentRound g + 1))"
    using p by (auto simp: running_inv_def round_timer_def Let_def split: if_splits)
qed

text \<open>
  A timeout of the current round is an answer without a value. Its timer is already off the table
  then, so the invariant is used for the state with the timer still there.
\<close>

lemma clearTimeout_fired:
  assumes "pending e = [(i, due, act)]" "gameTimers e gid = Some i"
  shows "clearTimeout (gameTimers e gid) (e\<lparr>pending := []\<rparr>) = clearTimeout (gameTimers e gid) e"
  using assms by (simp add: clearTimeout_def)

lemma fire_eq:
  assumes inv: "game_inv (g, e)" and p: "pending e = [(i, due, act)]"
  shows "fire act (g, e\<lparr>pending := []\<rparr>) = Inr
    (if rendTime (rounds g ! nat (currentRound g)) = None
     then answer_fx \<lparr>a_round = currentRound g, a_value = None\<rparr> (g, e)
     else gotoRound_fx (currentRound g + 1) (g, e\<lparr>pending := []\<rparr>))"
proof -
  have mem: "(i, due, act) \<in> set (pending e)" using p by simp
  note pc = pending_cases [OF inv mem]
  have wf: "wf_game g" using game_inv_wf [OF inv] by simp
  have k0: "0 \<le> currentRound g" using inv by (simp add: game_inv_def game_base_def)
  have nth: "js_nth (rounds g) (currentRound g) = Some (rounds g ! nat (currentRound g))"
    using k0 pc(4) by (simp add: js_nth_def)
  show ?thesis
  proof (cases "rendTime (rounds g ! nat (currentRound g)) = None")
    case True
    let ?a = "\<lparr>a_round = currentRound g, a_value = None\<rparr>"
    have st: "rstartTime (rounds g ! nat (currentRound g)) \<noteq> None"
      and tm: "gameTimers e (gameId g) = Some i"
      using pc(3) True p by (auto simp: running_inv_def round_timer_def Let_def)
    have "answer_fx ?a (g, e\<lparr>pending := []\<rparr>) = answer_fx ?a (g, e)"
      using clearTimeout_fired [OF p tm] by (simp add: answer_fx_def Let_def)
    then show ?thesis using True pc(5) wf nth st
      by (simp add: answer_cases open_round_def)
  next
    case False
    then have "act = GotoTimeout (oid g) (currentRound g + 1)" using pc(5) by auto
    then show ?thesis using False wf by (auto simp: gotoRound_eq [of _ "Suc (Suc 0)", folded trigger_4])
  qed
qed

lemma running_before_next:
  assumes inv: "game_inv (g, e)" and p: "pending e = [(i, due, act)]"
    and ended: "rendTime (rounds g ! nat (currentRound g)) \<noteq> None"
  shows "before_round (currentRound g + 1) (g, e\<lparr>pending := []\<rparr>)"
proof -
  have mem: "(i, due, act) \<in> set (pending e)" using p by simp
  note pc = pending_cases [OF inv mem]
  have base: "game_base (g, e)" using inv by (rule game_inv_base)
  then have k0: "0 \<le> currentRound g" by (simp add: game_base_def)
  have ok: "clock_ok (e\<lparr>pending := []\<rparr>)" using base by (simp add: game_base_def clock_ok_def)
  have "\<not> open_round (rounds g ! nat (currentRound g))" using ended by (simp add: open_round_def)
  then have "\<forall>i < nat (currentRound g + 1). \<not> open_round (rounds g ! i)"
    using pc(3) k0 by (auto simp: running_inv_def Let_def nat_add_distrib less_Suc_eq)
  then show ?thesis
    using base k0 pc(2,3,4) ok
    by (auto simp: before_round_def game_base_def running_inv_def Let_def nat_add_distrib)
qed

lemma fire_inv:
  assumes inv: "game_inv (g, e)" and p: "pending e = [(i, due, act)]"
    and f: "fire act (g, e\<lparr>pending := []\<rparr>) = Inr s'"
  shows "game_inv s'"
proof (cases "rendTime (rounds g ! nat (currentRound g)) = None")
  case True
  have mem: "(i, due, act) \<in> set (pending e)" using p by simp
  note pc = pending_cases [OF inv mem]
  let ?a = "\<lparr>a_round = currentRound g, a_value = None\<rparr>"
  have k0: "0 \<le> currentRound g" using inv by (simp add: game_inv_def game_base_def)
  have "js_nth (rounds g) (a_round ?a) = Some (rounds g ! nat (currentRound g))"
    using k0 pc(4) by (simp add: js_nth_def)
  moreover have "open_round (rounds g ! nat (currentRound g))"
    using True pc(3) by (simp add: open_round_def running_inv_def Let_def)
  ultimately have "game_inv (answer_fx ?a (g, e))" by (rule answer_fx_inv(2) [OF inv])
  then show ?thesis using f fire_eq [OF inv p] True by simp
next
  case False
  from gotoRound_fx_inv [OF running_before_next [OF inv p False]]
  show ?thesis using f fire_eq [OF inv p] False by simp
qed

lemma game_step_inv: "game_step s s' \<Longrightarrow> game_inv s \<Longrightarrow> game_inv s'"
proof (induction rule: game_step.induct)
  case (timer i due act e g s')
  have p: "pending e = [(i, due, act)]" using pending_cases(1) [OF timer.prems timer.hyps(1)] .
  then have "fire act (g, e\<lparr>pending := []\<rparr>) = Inr s'" using timer.hyps(3) by simp
  then show ?case by (rule fire_inv [OF timer.prems p])
qed (auto simp: game_inv_tick intro: answer_inv playerReady_inv game_inv_subscribe)

lemma created_inv:
  assumes "list_all fresh_round rs" "list_all single_round rs" "2 \<le> length ps" "\<not> both_ready ps" "idle_env e"
  shows "game_inv (new_Game i gid ps rs None None, e)"
proof -
  have "wf_game (new_Game i gid ps rs None None)" by simp
  then show ?thesis using assms
    by (simp add: game_inv_def game_base_def lobby_inv_def idle_env_def new_Game_def)
qed

lemma resumed_inv:
  assumes rs: "list_all fresh_round rs" "list_all single_round rs" and "2 \<le> length ps" "idle_env e"
    and "0 \<le> cur" "cur \<le> int (length rs)"
    and go: "gotoRound trigger cur (new_Game i gid ps rs (Some cur) (Some t), e) = Inr (res, s)"
  shows "game_inv s"
proof -
  let ?g = "new_Game i gid ps rs (Some cur) (Some t)"
  have wf: "wf_game ?g" by simp
  have "\<not> open_round (rs ! j)" if "j < nat cur" for j
    using rs(1) that assms(6) fresh_not_open by (auto simp: list_all_length)
  then have "before_round cur (?g, e)"
    using assms wf by (simp add: before_round_def idle_env_def new_Game_def list_all_length)
  from gotoRound_fx_inv [OF this] show ?thesis using go wf by (simp add: method_eqs)
qed

lemma reachable_inv: "reachable s \<Longrightarrow> game_inv s"
proof (induction rule: reachable.induct)
  case created then show ?case by (rule created_inv)
next
  case resumed then show ?case by (rule resumed_inv)
next
  case step then show ?case by (blast intro: game_step_inv)
qed

end
