(* ===== verification/GameProps.thy ===== *)
theory GameProps
  imports GameRun
begin

text \<open>
  What the invariant of \<open>GameRun\<close> gives the users of a game: what a game has recorded it never
  changes, a game starts exactly when its players are ready, an idle game always ends, and the time
  that takes. \<open>run_timers\<close> is the event loop with no messages: it runs the pending timer at the
  moment it is due (a reachable game never has two).
\<close>

fun run_timers :: "nat \<Rightarrow> gst \<Rightarrow> exn + gst" where
  "run_timers 0 s = Inr s"
| "run_timers (Suc n) (g, e) =
     (case pending e of
        [] \<Rightarrow> Inr (g, e)
      | (i, due, act) # ps \<Rightarrow>
          bindR (fire act (g, e\<lparr>now := max (now e) due, pending := ps\<rparr>)) (run_timers n))"

subsection \<open>What is recorded stays\<close>

definition advance :: "game \<Rightarrow> game \<Rightarrow> bool" where
  "advance g g' \<longleftrightarrow>
     map kind (rounds g') = map kind (rounds g)
     \<and> (\<forall>i < length (rounds g). rendTime (rounds g ! i) \<noteq> None \<longrightarrow> rounds g' ! i = rounds g ! i)
     \<and> currentRound g \<le> currentRound g'
     \<and> (startTime g \<noteq> None \<longrightarrow> startTime g' = startTime g)
     \<and> (endTime g \<noteq> None \<longrightarrow> endTime g' = endTime g)
     \<and> gameId g' = gameId g \<and> oid g' = oid g"

lemma advance_refl [simp]: "advance g g"
  by (simp add: advance_def)

lemma advance_length: "advance g g' \<Longrightarrow> length (rounds g') = length (rounds g)"
  by (metis advance_def length_map)

lemma advance_trans:
  assumes a: "advance g h" and b: "advance h k"
  shows "advance g k"
proof -
  have "length (rounds h) = length (rounds g)" using a by (rule advance_length)
  then show ?thesis using a b unfolding advance_def
    by (metis (no_types, lifting) order_trans)
qed

lemma map_kind_update:
  "i < length rs \<Longrightarrow> kind r = kind (rs ! i) \<Longrightarrow> map kind (rs[i := r]) = map kind rs"
  by (metis list_update_id map_update)

lemma advance_gotoRound_fx:
  assumes "before_round k (g, e)" and "currentRound g \<le> k"
  shows "advance g (fst (gotoRound_fx k (g, e)))"
proof (cases "k < int (length (rounds g))")
  case True
  let ?r = "rounds g ! nat k"
  have k: "js_nth (rounds g) k = Some ?r" and kk: "nat k < length (rounds g)"
    using True assms(1) by (auto simp: before_round_def js_nth_Some_iff)
  then have "rendTime ?r = None" using assms(1) by (simp add: before_round_def fresh_round_def)
  then show ?thesis using k kk assms
    by (auto simp: gotoRound_fx_def advance_def Let_def map_kind_update nth_list_update before_round_def)
next
  case False
  then have "js_nth (rounds g) k = None"
    using assms(1) by (auto simp: before_round_def js_nth_None_iff)
  then show ?thesis using assms
    by (simp add: gotoRound_fx_def stop_fx_def advance_def Let_def before_round_def)
qed

lemma advance_answer_fx:
  assumes inv: "game_inv (g, e)" and r: "js_nth (rounds g) (a_round a) = Some r" "open_round r"
  shows "advance g (fst (answer_fx a (g, e)))"
  using r by (auto simp: answer_fx_def advance_def Let_def js_nth_Some_iff map_kind_update frame
      nth_list_update open_round_def)

lemma before_round_start:
  assumes inv: "game_inv (g, e)" and st: "startTime g = None" and len: "length ps = length (players g)"
  shows "before_round 0 (g\<lparr>players := ps, startTime := Some (now e)\<rparr>, e)"
  using game_inv_base [OF inv] game_inv_lobby [OF inv st] len
  by (simp add: before_round_def game_base_def lobby_inv_def list_all_length)

lemma advance_start_fx:
  assumes inv: "game_inv (g, e)" and st: "startTime g = None" and len: "length ps = length (players g)"
  shows "advance g (fst (start_fx (g\<lparr>players := ps\<rparr>, e)))"
proof -
  let ?g = "g\<lparr>players := ps, startTime := Some (now e)\<rparr>"
  have "currentRound ?g \<le> 0" using game_inv_lobby [OF inv st] by (simp add: lobby_inv_def)
  from advance_gotoRound_fx [OF before_round_start [OF assms] this]
  have "advance ?g (fst (gotoRound_fx 0 (?g, e)))" .
  then have "advance g (fst (gotoRound_fx 0 (?g, e)))" using st by (simp add: advance_def)
  then show ?thesis by (simp add: start_fx_def Let_def case_prod_unfold)
qed

lemma advance_playerReady_fx:
  assumes inv: "game_inv (g, e)"
  shows "advance g (fst (playerReady_fx i b (g, e)))"
proof -
  let ?ps = "(players g)[i := (players g ! i)\<lparr>ready := b\<rparr>]"
  have "advance g (g\<lparr>players := ?ps\<rparr>)" by (simp add: advance_def)
  then show ?thesis using advance_start_fx [OF inv, of ?ps]
    by (auto simp: playerReady_fx_def Let_def case_prod_unfold)
qed

lemma step_advance:
  assumes "game_step s s'" and inv: "game_inv s"
  shows "advance (fst s) (fst s')"
  using assms
proof (induction rule: game_step.induct)
  case (client_answer a s res s')
  obtain g e where s: "s = (g, e)" by fastforce
  have wf: "wf_game g" using game_inv_wf [OF client_answer.prems] s by simp
  show ?case using client_answer advance_answer_fx [of g e a]
    by (auto simp: s answer_cases [OF wf] split: option.splits if_splits)
next
  case (client_ready pid b s res s')
  then show ?case using game_inv_wf [OF client_ready.prems] advance_playerReady_fx
    by (cases s) (auto simp: method_eqs Let_def split: if_splits)
next
  case (timer i due act e g s')
  note pc = pending_cases [OF timer.prems timer.hyps(1)]
  have f: "fire act (g, e\<lparr>pending := []\<rparr>) = Inr s'" using timer.hyps(3) pc(1) by simp
  show ?case
  proof (cases "rendTime (rounds g ! nat (currentRound g)) = None")
    case True
    have "0 \<le> currentRound g" using timer.prems by (simp add: game_inv_def game_base_def)
    then have "js_nth (rounds g) (currentRound g) = Some (rounds g ! nat (currentRound g))"
      using pc(4) by (simp add: js_nth_def)
    moreover have "open_round (rounds g ! nat (currentRound g))"
      using pc(3) True by (simp add: running_inv_def open_round_def Let_def)
    ultimately show ?thesis
      using f fire_eq [OF timer.prems pc(1)] True
        advance_answer_fx [OF timer.prems, of "\<lparr>a_round = currentRound g, a_value = None\<rparr>"] by simp
  next
    case False
    then show ?thesis
      using f fire_eq [OF timer.prems pc(1)]
        advance_gotoRound_fx [OF running_before_next [OF timer.prems pc(1) False]] by auto
  qed
qed (simp_all add: advance_def)

lemma steps_inv: "game_step\<^sup>*\<^sup>* s s' \<Longrightarrow> game_inv s \<Longrightarrow> game_inv s'"
  by (induction rule: rtranclp_induct) (auto intro: game_step_inv)

lemma steps_advance:
  assumes "game_step\<^sup>*\<^sup>* s s'" and "game_inv s"
  shows "advance (fst s) (fst s')"
  using assms
proof (induction rule: rtranclp_induct)
  case base
  show ?case by simp
next
  case (step t u)
  then have "game_inv t" using steps_inv by blast
  then show ?case using step advance_trans step_advance by blast
qed

subsection \<open>When a game starts\<close>

lemma playerReady_fx_startTime:
  assumes "game_inv (g, e)"
  shows "startTime (fst (playerReady_fx i b (g, e))) =
    (if startTime g = None \<and> both_ready ((players g)[i := (players g ! i)\<lparr>ready := b\<rparr>])
     then Some (now e) else startTime g)"
  by (auto simp: playerReady_fx_def start_fx_def gotoRound_fx_def stop_fx_def Let_def case_prod_unfold
      split: option.split)

lemma gotoRound_fx_startTime [simp]: "startTime (fst (gotoRound_fx k s)) = startTime (fst s)"
  by (cases s) (auto simp: gotoRound_fx_def stop_fx_def Let_def split: option.split)

lemma gotoRound_fx_players [simp]: "players (fst (gotoRound_fx k s)) = players (fst s)"
  by (cases s) (auto simp: gotoRound_fx_def stop_fx_def Let_def split: option.split)

lemma start_fx_players [simp]: "players (fst (start_fx s)) = players (fst s)"
  by (cases s) (simp add: start_fx_def Let_def case_prod_unfold)

lemma playerReady_fx_players:
  "players (fst (playerReady_fx i b (g, e))) = (players g)[i := (players g ! i)\<lparr>ready := b\<rparr>]"
  by (simp add: playerReady_fx_def Let_def case_prod_unfold)

lemma answer_fx_startTime [simp]: "startTime (fst (answer_fx a s)) = startTime (fst s)"
  by (cases s) (simp add: answer_fx_def Let_def)

lemma step_starts:
  assumes "game_step s s'" and inv: "game_inv s"
    and "startTime (fst s) = None" "startTime (fst s') \<noteq> None"
  shows "both_ready (players (fst s')) \<and> startTime (fst s') = Some (now (snd s))"
  using assms
proof (induction rule: game_step.induct)
  case (client_answer a s res s')
  then show ?case using game_inv_wf [OF client_answer.prems(1)]
    by (cases s) (auto simp: answer_cases split: option.splits if_splits)
next
  case (client_ready pid b s res s')
  obtain g e where s: "s = (g, e)" by fastforce
  let ?i = "find_index (\<lambda>p. playerId p = pid) (players g)"
  have s': "s' = playerReady_fx (nat ?i) b (g, e)"
    using client_ready game_inv_wf [OF client_ready.prems(1)]
    by (auto simp: s method_eqs Let_def split: if_splits)
  show ?case using client_ready.prems playerReady_fx_startTime [of g e "nat ?i" b]
    by (auto simp: s s' playerReady_fx_players split: if_splits)
next
  case (timer i due act e g s')
  then show ?case using pending_cases(2) [OF timer.prems(1) timer.hyps(1)] by simp
qed simp_all

subsection \<open>An idle game ends\<close>

text \<open>How many timers a started game still has to run.\<close>

definition timers_left :: "game \<Rightarrow> nat" where
  "timers_left g =
     (let n = length (rounds g); k = nat (currentRound g)
      in if k < n then 2 * (n - k) - (if rendTime (rounds g ! k) = None then 0 else 1) else 0)"

lemma running_pending:
  assumes inv: "game_inv (g, e)" and "startTime g \<noteq> None" "currentRound g < int (length (rounds g))"
  shows "\<exists>i due act. pending e = [(i, due, act)]"
  using game_inv_running [OF assms] by (auto simp: running_inv_def round_timer_def Let_def split: if_splits)

text \<open>Running one timer brings the game one step closer to the end.\<close>

lemma fire_left:
  assumes inv: "game_inv (g, e)" and p: "pending e = [(i, due, act)]"
    and s': "fire act (g, e\<lparr>pending := []\<rparr>) = Inr s'"
  shows "startTime (fst s') = startTime g" "Suc (timers_left (fst s')) = timers_left g"
proof -
  have mem: "(i, due, act) \<in> set (pending e)" using p by simp
  note pc = pending_cases [OF inv mem]
  have k0: "0 \<le> currentRound g" using inv by (simp add: game_inv_def game_base_def)
  have s'_eq: "s' = (if rendTime (rounds g ! nat (currentRound g)) = None
             then answer_fx \<lparr>a_round = currentRound g, a_value = None\<rparr> (g, e)
             else gotoRound_fx (currentRound g + 1) (g, e\<lparr>pending := []\<rparr>))"
    using fire_eq [OF inv p] s' by auto
  show "startTime (fst s') = startTime g" by (simp add: s'_eq)
  show "Suc (timers_left (fst s')) = timers_left g"
  proof (cases "rendTime (rounds g ! nat (currentRound g)) = None")
    case True
    have "single_round (rounds g ! nat (currentRound g))"
      using inv pc(4) k0 by (simp add: game_inv_def game_base_def list_all_length)
    then show ?thesis using True pc(4) k0
      by (simp add: s'_eq answer_fx_def timers_left_def Let_def onAnswer_single)
  next
    case False
    let ?k = "currentRound g + 1"
    have before: "before_round ?k (g, e\<lparr>pending := []\<rparr>)"
      by (rule running_before_next [OF inv p False])
    have fresh: "nat ?k < length (rounds g) \<Longrightarrow> rendTime (rounds g ! nat ?k) = None"
      using before by (simp add: before_round_def fresh_round_def)
    show ?thesis
      using False pc(4) k0 fresh
      by (auto simp: s'_eq gotoRound_fx_def stop_fx_def timers_left_def Let_def nat_add_distrib
          js_nth_def split: option.split)
  qed
qed

lemma run_one:
  assumes inv: "game_inv (g, e)" and p: "pending e = [(i, due, act)]"
  obtains s' where "run_timers (Suc n) (g, e) = run_timers n s'" "game_inv s'"
    "startTime (fst s') = startTime g" "Suc (timers_left (fst s')) = timers_left g"
proof -
  define e1 where "e1 = e\<lparr>now := max (now e) due\<rparr>"
  have inv1: "game_inv (g, e1)" using inv by (simp add: e1_def game_inv_tick)
  have p1: "pending e1 = [(i, due, act)]" using p by (simp add: e1_def)
  obtain s' where s': "fire act (g, e1\<lparr>pending := []\<rparr>) = Inr s'" using fire_eq [OF inv1 p1] by blast
  have "run_timers (Suc n) (g, e) = run_timers n s'" using p s' by (simp add: e1_def)
  then show ?thesis using that fire_inv [OF inv1 p1 s'] fire_left [OF inv1 p1 s'] by blast
qed

lemma run_timers_ends:
  assumes "game_inv (g, e)" and "startTime g \<noteq> None"
  shows "\<exists>g' e'. run_timers (timers_left g) (g, e) = Inr (g', e') \<and> game_inv (g', e')
    \<and> currentRound g' = int (length (rounds g')) \<and> endTime g' \<noteq> None \<and> pending e' = []"
  using assms
proof (induction "timers_left g" arbitrary: g e)
  case 0
  have le: "0 \<le> currentRound g" "currentRound g \<le> int (length (rounds g))"
    using 0 by (simp_all add: game_inv_def game_base_def)
  then have "currentRound g = int (length (rounds g))"
    using 0(1) by (auto simp: timers_left_def Let_def split: if_splits)
  then have n: "\<not> currentRound g < int (length (rounds g))" and eq: "currentRound g = int (length (rounds g))"
    by simp_all
  from game_inv_ended [OF 0(2,3) n] show ?case using 0 eq by (simp add: ended_inv_def)
next
  case (Suc m)
  then have "currentRound g < int (length (rounds g))"
    by (auto simp: timers_left_def Let_def game_inv_def game_base_def split: if_splits)
  from running_pending [OF Suc.prems this] obtain i due act where "pending e = [(i, due, act)]" by blast
  from run_one [OF Suc.prems(1) this, of m] obtain s' where
    s': "run_timers (Suc m) (g, e) = run_timers m s'" "game_inv s'" "startTime (fst s') = startTime g"
      "Suc (timers_left (fst s')) = timers_left g" .
  then have "m = timers_left (fst s')" using Suc.hyps(2) by simp
  with Suc.hyps(1) [of "fst s'" "snd s'"] s' Suc.prems Suc.hyps(2) show ?case by simp
qed

subsection \<open>How long that takes\<close>

text \<open>
  From the moment a round starts: its length, one second of delay, and so on for the rounds after
  it.
\<close>

fun play_time :: "round list \<Rightarrow> int" where
  "play_time [] = 0"
| "play_time (r # rs) = node_delay (msLength r) + 1000 + play_time rs"

lemma node_delay_1000 [simp]: "node_delay 1000 = 1000"
  by (simp add: node_delay_def)

lemma run_timeout:
  assumes inv: "game_inv (g, e)" and p: "pending e = [(i, due, act)]" and le: "now e \<le> due"
    and op: "rendTime (rounds g ! nat (currentRound g)) = None"
  shows "run_timers (Suc n) (g, e) =
    run_timers n (answer_fx \<lparr>a_round = currentRound g, a_value = None\<rparr> (g, e\<lparr>now := due\<rparr>))"
proof -
  have inv': "game_inv (g, e\<lparr>now := due\<rparr>)" using inv by (simp add: game_inv_tick)
  have p': "pending (e\<lparr>now := due\<rparr>) = [(i, due, act)]" using p by simp
  have "max (now e) due = due" using le by simp
  then show ?thesis using p fire_eq [OF inv' p'] op by simp
qed

lemma run_goto:
  assumes inv: "game_inv (g, e)" and p: "pending e = [(i, due, act)]" and le: "now e \<le> due"
    and en: "rendTime (rounds g ! nat (currentRound g)) \<noteq> None"
  shows "run_timers (Suc n) (g, e) =
      run_timers n (gotoRound_fx (currentRound g + 1) (g, e\<lparr>now := due, pending := []\<rparr>))"
    and "before_round (currentRound g + 1) (g, e\<lparr>now := due, pending := []\<rparr>)"
proof -
  have inv': "game_inv (g, e\<lparr>now := due\<rparr>)" using inv by (simp add: game_inv_tick)
  have p': "pending (e\<lparr>now := due\<rparr>) = [(i, due, act)]" using p by simp
  have "max (now e) due = due" using le by simp
  then show "run_timers (Suc n) (g, e) =
      run_timers n (gotoRound_fx (currentRound g + 1) (g, e\<lparr>now := due, pending := []\<rparr>))"
    using p fire_eq [OF inv' p'] en by auto
  show "before_round (currentRound g + 1) (g, e\<lparr>now := due, pending := []\<rparr>)"
    using running_before_next [OF inv' p' en] by simp
qed

text \<open>An unanswered round: the object right after its start and right after its timeout.\<close>

lemma round_started:
  assumes b: "before_round k (g, e)" and k: "k < int (length (rounds g))"
  obtains e1 where
    "gotoRound_fx k (g, e) = (g\<lparr>currentRound := k,
        rounds := (rounds g)[nat k := (rounds g ! nat k)\<lparr>rstartTime := Some (now e)\<rparr>]\<rparr>, e1)"
    "now e1 = now e" "pending e1 = [(nextTimer e, now e + node_delay (msLength (rounds g ! nat k)), AnswerTimeout (oid g) k)]"
    "gameTimers e1 (gameId g) = Some (nextTimer e)"
  using b k by (auto simp: before_round_def gotoRound_fx_def js_nth_def Let_def scheduleTimer_eq
      pending_clearTimeout split: option.split)

lemma round_timed_out:
  assumes "single_round (rounds g ! nat k)" "0 \<le> k" "nat k < length (rounds g)"
    and "pending e = [(i, due, act)]" "gameTimers e (gameId g) = Some i"
  obtains e2 j where
    "answer_fx \<lparr>a_round = k, a_value = None\<rparr> (g, e) = (g\<lparr>rounds := (rounds g)[nat k :=
       (rounds g ! nat k)\<lparr>ranswer := None, rendTime := Some (now e)\<rparr>]\<rparr>, e2)"
    "now e2 = now e" "pending e2 = [(j, now e + 1000, GotoTimeout (oid g) (k + 1))]"
  using assms by (auto simp: answer_fx_def Let_def onAnswer_single setTimeout_def pending_clearTimeout)

lemma run_round:
  assumes b: "before_round k (g, e)" and k: "k < int (length (rounds g))"
  obtains g' e' where
    "run_timers (Suc (Suc n)) (gotoRound_fx k (g, e)) = run_timers n (gotoRound_fx (k + 1) (g', e'))"
    "before_round (k + 1) (g', e')" "startTime g' = startTime g"
    "now e' = now e + node_delay (msLength (rounds g ! nat k)) + 1000"
    "drop (nat k + 1) (rounds g') = drop (nat k + 1) (rounds g)"
    "\<forall>i < length (rounds g). i \<noteq> nat k \<longrightarrow> rounds g' ! i = rounds g ! i"
    "length (rounds g') = length (rounds g)" "ranswer (rounds g' ! nat k) = None"
proof -
  let ?r = "rounds g ! nat k"
  let ?g1 = "g\<lparr>currentRound := k, rounds := (rounds g)[nat k := ?r\<lparr>rstartTime := Some (now e)\<rparr>]\<rparr>"
  define t where "t = now e + node_delay (msLength ?r)"
  obtain e1 where s1: "gotoRound_fx k (g, e) = (?g1, e1)" "now e1 = now e"
      "pending e1 = [(nextTimer e, t, AnswerTimeout (oid g) k)]" "gameTimers e1 (gameId g) = Some (nextTimer e)"
    using round_started [OF b k] unfolding t_def by metis
  have kk: "0 \<le> k" "nat k < length (rounds g)" and fr: "fresh_round ?r" and sg: "single_round ?r"
    using b k by (auto simp: before_round_def list_all_length)
  have le: "now e1 \<le> t" using s1(2) less_imp_le [OF node_delay_pos [of "msLength ?r"]] by (simp add: t_def)
  have inv1: "game_inv (?g1, e1)" using gotoRound_fx_inv [OF b] s1(1) by simp
  have open1: "rendTime (rounds ?g1 ! nat (currentRound ?g1)) = None"
    using kk fr by (simp add: fresh_round_def)
  let ?e1 = "e1\<lparr>now := t\<rparr>"
  obtain e2 j where s2: "answer_fx \<lparr>a_round = k, a_value = None\<rparr> (?g1, ?e1) =
        (?g1\<lparr>rounds := (rounds ?g1)[nat k := (rounds ?g1 ! nat k)\<lparr>ranswer := None, rendTime := Some t\<rparr>]\<rparr>, e2)"
      "now e2 = t" "pending e2 = [(j, t + 1000, GotoTimeout (oid g) (k + 1))]"
    using round_timed_out [of ?g1 k ?e1] s1(3,4) kk sg by auto
  let ?g2 = "?g1\<lparr>rounds := (rounds ?g1)[nat k := (rounds ?g1 ! nat k)\<lparr>ranswer := None, rendTime := Some t\<rparr>]\<rparr>"
  let ?e3 = "e2\<lparr>now := t + 1000, pending := []\<rparr>"
  have "js_nth (rounds ?g1) k = Some (rounds ?g1 ! nat k)" "open_round (rounds ?g1 ! nat k)"
    using kk fr by (auto simp: js_nth_def open_round_def fresh_round_def)
  then have inv2: "game_inv (?g2, e2)"
    using answer_fx_inv(2) [of ?g1 ?e1 "\<lparr>a_round = k, a_value = None\<rparr>"] inv1 s2(1)
    by (simp add: game_inv_tick)
  have ended2: "rendTime (rounds ?g2 ! nat (currentRound ?g2)) \<noteq> None" using kk by simp
  note goto = run_goto [OF inv2 s2(3) _ ended2]
  show ?thesis
  proof (rule that [of ?g2 ?e3])
    show "run_timers (Suc (Suc n)) (gotoRound_fx k (g, e)) = run_timers n (gotoRound_fx (k + 1) (?g2, ?e3))"
      using run_timeout [OF inv1 s1(3) le open1] s1(1) s2(1,2) goto(1) by simp
    show "before_round (k + 1) (?g2, ?e3)" using goto(2) s2(2) by simp
  qed (use kk in \<open>simp_all add: t_def\<close>)
qed

lemma run_rounds:
  assumes "before_round k (g, e)" and "k + int m = int (length (rounds g))"
  shows "\<exists>g' e'. run_timers (2 * m) (gotoRound_fx k (g, e)) = Inr (g', e') \<and>
    currentRound g' = int (length (rounds g')) \<and> startTime g' = startTime g \<and>
    endTime g' = Some (now e + play_time (drop (nat k) (rounds g))) \<and>
    (\<forall>i. nat k \<le> i \<longrightarrow> i < length (rounds g') \<longrightarrow> ranswer (rounds g' ! i) = None) \<and>
    (\<forall>i < nat k. rounds g' ! i = rounds g ! i) \<and> length (rounds g') = length (rounds g)"
  using assms
proof (induction m arbitrary: k g e)
  case 0
  then show ?case
    by (auto simp: gotoRound_fx_def stop_fx_def js_nth_def Let_def before_round_def)
next
  case (Suc m)
  have k: "k < int (length (rounds g))" "0 \<le> k" using Suc.prems by (auto simp: before_round_def)
  obtain g1 e1 where s1:
    "run_timers (Suc (Suc (2 * m))) (gotoRound_fx k (g, e)) = run_timers (2 * m) (gotoRound_fx (k + 1) (g1, e1))"
    "before_round (k + 1) (g1, e1)" "startTime g1 = startTime g"
    "now e1 = now e + node_delay (msLength (rounds g ! nat k)) + 1000"
    "drop (nat k + 1) (rounds g1) = drop (nat k + 1) (rounds g)"
    "\<forall>i < length (rounds g). i \<noteq> nat k \<longrightarrow> rounds g1 ! i = rounds g ! i"
    "length (rounds g1) = length (rounds g)" "ranswer (rounds g1 ! nat k) = None"
    using run_round [OF Suc.prems(1) k(1), of "2 * m"] by blast
  have "(k + 1) + int m = int (length (rounds g1))" using Suc.prems s1(7) by simp
  from Suc.IH [OF s1(2) this] obtain g2 e2 where s2:
    "run_timers (2 * m) (gotoRound_fx (k + 1) (g1, e1)) = Inr (g2, e2)"
    "currentRound g2 = int (length (rounds g2))" "startTime g2 = startTime g1"
    "endTime g2 = Some (now e1 + play_time (drop (nat (k + 1)) (rounds g1)))"
    "\<forall>i. nat (k + 1) \<le> i \<longrightarrow> i < length (rounds g2) \<longrightarrow> ranswer (rounds g2 ! i) = None"
    "\<forall>i < nat (k + 1). rounds g2 ! i = rounds g1 ! i" "length (rounds g2) = length (rounds g1)"
    by blast
  have nk: "nat (k + 1) = nat k + 1" using k(2) by simp
  have "drop (nat k) (rounds g) = rounds g ! nat k # drop (nat k + 1) (rounds g)"
    using k Cons_nth_drop_Suc [of "nat k" "rounds g"] by simp
  then have "endTime g2 = Some (now e + play_time (drop (nat k) (rounds g)))"
    using s2(4) s1(4,5) nk by simp
  moreover have "\<forall>i. nat k \<le> i \<longrightarrow> i < length (rounds g2) \<longrightarrow> ranswer (rounds g2 ! i) = None"
    using s2(5,6) s1(8) nk by (metis Suc_eq_plus1 lessI less_Suc_eq_le linorder_not_less nat_less_le)
  moreover have "\<forall>i < nat k. rounds g2 ! i = rounds g ! i"
    using s2(6) s1(6) nk k by auto
  ultimately show ?case using s1 s2 by simp
qed

text \<open>A game has one pending timer while it plays and none before and after.\<close>

lemma one_timer_while_playing:
  assumes "reachable (g, e)"
  shows "length (pending e) = (if startTime g \<noteq> None \<and> endTime g = None then 1 else 0)"
proof (cases "startTime g")
  case None
  then show ?thesis using game_inv_lobby [OF reachable_inv [OF assms]] by (simp add: lobby_inv_def)
next
  case (Some t)
  show ?thesis
  proof (cases "currentRound g < int (length (rounds g))")
    case True
    then have "running_inv (g, e)" using game_inv_running [OF reachable_inv [OF assms]] Some by simp
    then show ?thesis using Some
      by (auto simp: running_inv_def round_timer_def Let_def split: if_splits)
  next
    case False
    then have "ended_inv (g, e)" using game_inv_ended [OF reachable_inv [OF assms]] Some by simp
    then show ?thesis by (simp add: ended_inv_def)
  qed
qed

end
