(* ===== verification/Util.thy ===== *)
theory Util
  imports Prelude
begin

text \<open>
  The helpers of \<open>server/src/lib/util.ts\<close> and the way the server sequences asynchronous work.
  A \<open>Future<E, A>\<close> is a function that, run on a state, gives a rejection (\<open>Inl\<close>) or a result
  (\<open>Inr\<close>) and the state after it; \<open>map\<close>, \<open>chain\<close>, \<open>mapRej\<close>, \<open>chainRej\<close>, \<open>coalesce\<close> and
  \<open>parallel(1)\<close> are the control structures the code writes its futures with. \<open>parallel(1)\<close> runs
  its futures one after the other and stops at the first that rejects.
\<close>

subsection \<open>Either\<close>

text \<open>\<open>aoe2ea\<close>: an array of eithers to an either of arrays; the first \<open>Left\<close> is the result.\<close>

fun aoe2ea :: "('e + 'a) list \<Rightarrow> 'e + 'a list" where
  "aoe2ea [] = Inr []"
| "aoe2ea (x # xs) =
     (case x of Inl e \<Rightarrow> Inl e
      | Inr a \<Rightarrow> (case aoe2ea xs of Inl e \<Rightarrow> Inl e | Inr as \<Rightarrow> Inr (a # as)))"

definition find_e :: "('a \<Rightarrow> bool) \<Rightarrow> 'a list \<Rightarrow> 'a either" where
  "find_e fn elements =
     (case List.find fn elements of
        None \<Rightarrow> Inl ''Cannot find element''
      | Some res \<Rightarrow> Inr res)"

lemma aoe2ea_map_Inr [simp]: "aoe2ea (map (\<lambda>x. Inr (f x)) xs) = Inr (map f xs)"
  by (induction xs) auto

lemma aoe2ea_Inr: "aoe2ea xs = Inr ys \<Longrightarrow> xs = map Inr ys"
  by (induction xs arbitrary: ys) (auto split: sum.splits)

lemma aoe2ea_Inr_iff: "aoe2ea xs = Inr ys \<longleftrightarrow> xs = map Inr ys"
  using aoe2ea_Inr aoe2ea_map_Inr [of "\<lambda>x. x" ys] by auto

lemma aoe2ea_Inl: "Inl e \<in> set xs \<Longrightarrow> \<exists>e'. aoe2ea xs = Inl e'"
  by (induction xs) (auto split: sum.splits)

lemma find_e_Inr: "find_e P xs = Inr x \<Longrightarrow> x \<in> set xs \<and> P x"
  by (auto simp: find_e_def find_Some_iff split: option.splits)

lemma find_e_Inl_iff: "(\<exists>m. find_e P xs = Inl m) \<longleftrightarrow> (\<forall>x \<in> set xs. \<not> P x)"
  by (auto simp: find_e_def find_None_iff split: option.splits) (meson find_Some_iff nth_mem option.distinct(1) find_None_iff)+

lemma find_unique:
  assumes "distinct (map f xs)" "x \<in> set xs"
  shows "List.find (\<lambda>y. f y = f x) xs = Some x"
  using assms by (induction xs) (auto simp: image_iff)

subsection \<open>Futures\<close>

type_synonym ('s, 'e, 'a) future = "'s \<Rightarrow> ('e + 'a) \<times> 's"

definition resolve :: "'a \<Rightarrow> ('s, 'e, 'a) future" where
  "resolve a s = (Inr a, s)"

definition reject :: "'e \<Rightarrow> ('s, 'e, 'a) future" where
  "reject e s = (Inl e, s)"

definition e2f :: "'e + 'a \<Rightarrow> ('s, 'e, 'a) future" where
  "e2f a s = (a, s)"

definition fchain :: "('a \<Rightarrow> ('s, 'e, 'b) future) \<Rightarrow> ('s, 'e, 'a) future \<Rightarrow> ('s, 'e, 'b) future" where
  "fchain f m s = (case m s of (Inl e, s') \<Rightarrow> (Inl e, s') | (Inr a, s') \<Rightarrow> f a s')"

definition fmap :: "('a \<Rightarrow> 'b) \<Rightarrow> ('s, 'e, 'a) future \<Rightarrow> ('s, 'e, 'b) future" where
  "fmap f m s = (case m s of (Inl e, s') \<Rightarrow> (Inl e, s') | (Inr a, s') \<Rightarrow> (Inr (f a), s'))"

definition fmapRej :: "('e \<Rightarrow> 'd) \<Rightarrow> ('s, 'e, 'a) future \<Rightarrow> ('s, 'd, 'a) future" where
  "fmapRej f m s = (case m s of (Inl e, s') \<Rightarrow> (Inl (f e), s') | (Inr a, s') \<Rightarrow> (Inr a, s'))"

definition fchainRej :: "('e \<Rightarrow> ('s, 'd, 'a) future) \<Rightarrow> ('s, 'e, 'a) future \<Rightarrow> ('s, 'd, 'a) future" where
  "fchainRej f m s = (case m s of (Inl e, s') \<Rightarrow> f e s' | (Inr a, s') \<Rightarrow> (Inr a, s'))"

text \<open>\<open>coalesce(Left)(Right)\<close>: a future that never rejects, with the outcome as its result.\<close>

definition fcoalesce :: "('s, 'e, 'a) future \<Rightarrow> ('s, 'd, 'e + 'a) future" where
  "fcoalesce m s = (case m s of (r, s') \<Rightarrow> (Inr r, s'))"

fun parallel1 :: "('s, 'e, 'a) future list \<Rightarrow> ('s, 'e, 'a list) future" where
  "parallel1 [] s = (Inr [], s)"
| "parallel1 (m # ms) s =
     (case m s of
        (Inl e, s') \<Rightarrow> (Inl e, s')
      | (Inr a, s') \<Rightarrow>
          (case parallel1 ms s' of
             (Inl e, s'') \<Rightarrow> (Inl e, s'')
           | (Inr as, s'') \<Rightarrow> (Inr (a # as), s'')))"

text \<open>A computation on the state that always has a result.\<close>

definition fget :: "('s \<Rightarrow> 'a) \<Rightarrow> ('s, 'e, 'a) future" where
  "fget f s = (Inr (f s), s)"

lemmas future_defs [model_defs] =
  resolve_def reject_def e2f_def fchain_def fmap_def fmapRej_def fchainRej_def fcoalesce_def fget_def

lemma future_simps [simp]:
  "resolve a s = (Inr a, s)"
  "reject e s = (Inl e, s)"
  "e2f x s = (x, s)"
  "fget f s = (Inr (f s), s)"
  by (simp_all add: future_defs)

lemma fchain_fmap: "fchain f (fmap g m) = fchain (\<lambda>a. f (g a)) m"
  by (auto simp: fun_eq_iff fchain_def fmap_def split: prod.split sum.split)

lemma fcoalesce_Inr: "\<exists>r s'. fcoalesce m s = (Inr r, s')"
  by (cases "m s") (simp add: fcoalesce_def)

lemma parallel1_coalesced: "\<exists>rs s'. parallel1 (map fcoalesce ms) s = (Inr rs, s')"
proof (induction ms arbitrary: s)
  case Nil
  then show ?case by simp
next
  case (Cons m ms)
  obtain r s' where m: "m s = (r, s')" by fastforce
  from Cons.IH [of s'] m show ?case by (auto simp: fcoalesce_def)
qed

lemma parallel1_append:
  "parallel1 (xs @ ys) s =
     (case parallel1 xs s of
        (Inl e, s') \<Rightarrow> (Inl e, s')
      | (Inr as, s') \<Rightarrow>
          (case parallel1 ys s' of (Inl e, s'') \<Rightarrow> (Inl e, s'') | (Inr bs, s'') \<Rightarrow> (Inr (as @ bs), s'')))"
  by (induction xs arbitrary: s) (auto split: prod.splits sum.splits)

text \<open>Sequencing from the state's side: a property every future keeps is kept by the composition.\<close>

lemma parallel1_inv:
  assumes "\<And>m s. m \<in> set ms \<Longrightarrow> P s \<Longrightarrow> P (snd (m s))" and "P s"
  shows "P (snd (parallel1 ms s))"
  using assms
proof (induction ms arbitrary: s)
  case Nil
  then show ?case by simp
next
  case (Cons m ms)
  obtain r s' where m: "m s = (r, s')" by fastforce
  then have "P s'" using Cons.prems by (metis list.set_intros(1) snd_conv)
  then have "P (snd (parallel1 ms s'))" using Cons.IH Cons.prems(1) by simp
  with m \<open>P s'\<close> show ?case by (auto split: sum.splits prod.splits)
qed

subsection \<open>The laws of chaining\<close>

locale sequencing =
  fixes unit_of :: "'a \<Rightarrow> ('s, 'e, 'a) future"
    and chain_of :: "('a \<Rightarrow> ('s, 'e, 'a) future) \<Rightarrow> ('s, 'e, 'a) future \<Rightarrow> ('s, 'e, 'a) future"
  assumes chain_unit: "chain_of f (unit_of a) = f a"
    and unit_chain: "chain_of unit_of m = m"
    and chain_assoc: "chain_of g (chain_of f m) = chain_of (\<lambda>a. chain_of g (f a)) m"
begin

lemma chain_fold:
  "chain_of g (fold chain_of fs m) = fold chain_of (fs @ [g]) m"
  by simp

lemma chain_units: "fold chain_of (replicate n unit_of) m = m"
  by (induction n) (simp_all add: unit_chain)

end

interpretation fut: sequencing resolve fchain
  by unfold_locales (auto simp: fun_eq_iff fchain_def split: prod.splits sum.splits)

end
