(* ===== verification/Restore.thy ===== *)
theory Restore
  imports GameProps Util
begin

text \<open>
  Stored games: the object that \<open>JSON.stringify\<close> sees when a game is saved, the game that is
  rebuilt from it after a restart (\<open>deserializeGame\<close> and \<open>resumeGame\<close> of
  \<open>server/src/lib/game.ts\<close>), and what is lost between the two.
\<close>

subsection \<open>The JSON of a game\<close>

fun round_name_str :: "round_name \<Rightarrow> string" where
  "round_name_str Button = ''button''"
| "round_name_str Wire = ''wire''"
| "round_name_str Keypad = ''keypad''"
| "round_name_str TutorialButton = ''tutorial-button''"

fun event_str :: "game_event \<Rightarrow> string" where
  "event_str EvStart = ''start''"
| "event_str EvStop = ''stop''"
| "event_str EvState = ''state''"
| "event_str EvAnswer = ''answer''"
| "event_str EvError = ''error''"
| "event_str EvRound = ''round''"
| "event_str EvPlayerReady = ''player_ready''"
| "event_str EvHandoff = ''handoff''"

definition opt_js :: "jsval option \<Rightarrow> jsval" where
  "opt_js x = (case x of None \<Rightarrow> JUndef | Some v \<Rightarrow> v)"

definition round_obj :: "round \<Rightarrow> jsval" where
  "round_obj r = JObj
     ([(''msLength'', JNum (msLength r)),
       (''name'', JStr (round_name_str (rname r))),
       (''solution'', case kind r of SingleK sol _ \<Rightarrow> JNum sol | SequenceK sol \<Rightarrow> JArr (map JNum sol))]
      @ (case kind r of SingleK _ opts \<Rightarrow> [(''options'', JArr (map JNum opts))] | SequenceK _ \<Rightarrow> [])
      @ [(''startTime'', opt_js (map_option JNum (rstartTime r))),
         (''answer'', opt_js (ranswer r)),
         (''endTime'', opt_js (map_option JNum (rendTime r)))])"

definition player_obj :: "player \<Rightarrow> jsval" where
  "player_obj p = JObj [(''playerId'', JStr (playerId p)), (''ready'', JBool (ready p))]"

text \<open>A game object's own properties, the callbacks of \<open>cbMap\<close> included.\<close>

definition cb_obj :: "(game_event, listener) cb_map \<Rightarrow> jsval" where
  "cb_obj m = JObj (concat (map (\<lambda>ev. case m ev of None \<Rightarrow> []
       | Some cbs \<Rightarrow> [(event_str ev, JArr (map (\<lambda>_. JFun) cbs))])
     [EvPlayerReady, EvState, EvAnswer, EvStop, EvStart, EvRound, EvError, EvHandoff]))"

definition game_obj :: "game \<Rightarrow> jsval" where
  "game_obj g = JObj
     [(''cbMap'', cb_obj (cbMap g)),
      (''currentRound'', JNum (currentRound g)),
      (''rounds'', JArr (map round_obj (rounds g))),
      (''gameId'', JStr (gameId g)),
      (''players'', JArr (map player_obj (players g))),
      (''startTime'', opt_js (map_option JNum (startTime g))),
      (''endTime'', opt_js (map_option JNum (endTime g)))]"

text \<open>Reading such an object at the type \<open>GameData\<close>; \<open>None\<close> where a field has another type.\<close>

fun as_num :: "jsval \<Rightarrow> int option" where
  "as_num (JNum n) = Some n"
| "as_num _ = None"

fun as_str :: "jsval \<Rightarrow> string option" where
  "as_str (JStr s) = Some s"
| "as_str _ = None"

fun as_bool :: "jsval \<Rightarrow> bool option" where
  "as_bool (JBool b) = Some b"
| "as_bool _ = None"

fun as_arr :: "jsval \<Rightarrow> jsval list option" where
  "as_arr (JArr xs) = Some xs"
| "as_arr _ = None"

fun sequence_opt :: "'a option list \<Rightarrow> 'a list option" where
  "sequence_opt [] = Some []"
| "sequence_opt (x # xs) =
     (case (x, sequence_opt xs) of (Some a, Some as) \<Rightarrow> Some (a # as) | _ \<Rightarrow> None)"

definition as_list :: "(jsval \<Rightarrow> 'a option) \<Rightarrow> jsval \<Rightarrow> 'a list option" where
  "as_list f v = Option.bind (as_arr v) (\<lambda>xs. sequence_opt (map f xs))"

definition as_opt :: "(jsval \<Rightarrow> 'a option) \<Rightarrow> jsval \<Rightarrow> 'a option option" where
  "as_opt f v = (if v = JUndef then Some None else map_option Some (f v))"

definition as_round_name :: "jsval \<Rightarrow> round_name option" where
  "as_round_name v =
     (if v = JStr ''button'' then Some Button else if v = JStr ''wire'' then Some Wire
      else if v = JStr ''keypad'' then Some Keypad
      else if v = JStr ''tutorial-button'' then Some TutorialButton else None)"

definition as_solution :: "jsval \<Rightarrow> solution option" where
  "as_solution v = (case v of JNum n \<Rightarrow> Some (SNum n) | _ \<Rightarrow> map_option SSeq (as_list as_num v))"

definition as_round_data :: "jsval \<Rightarrow> round_data option" where
  "as_round_data v =
     (case (as_round_name (fld v ''name''), as_opt as_num (fld v ''msLength''),
            as_solution (fld v ''solution''), as_opt (as_list as_num) (fld v ''options'')) of
        (Some nm, Some ms, Some sol, Some opts) \<Rightarrow>
          (case (as_opt as_num (fld v ''startTime''), as_opt as_num (fld v ''endTime''),
                 as_opt as_num (fld v ''attack'')) of
             (Some st, Some en, Some att) \<Rightarrow>
               Some \<lparr>rd_name = nm, rd_msLength = ms, rd_solution = sol, rd_options = opts,
                 rd_answer = (if fld v ''answer'' = JUndef then None else Some (fld v ''answer'')),
                 rd_startTime = st, rd_endTime = en, rd_attack = att\<rparr>
           | _ \<Rightarrow> None)
      | _ \<Rightarrow> None)"

definition as_player :: "jsval \<Rightarrow> player option" where
  "as_player v =
     (case (as_str (fld v ''playerId''), as_bool (fld v ''ready'')) of
        (Some i, Some b) \<Rightarrow> Some \<lparr>playerId = i, ready = b\<rparr>
      | _ \<Rightarrow> None)"

definition as_game_data :: "jsval \<Rightarrow> game_data option" where
  "as_game_data v =
     (case (as_list as_player (fld v ''players''), as_str (fld v ''gameId''),
            as_list as_round_data (fld v ''rounds'')) of
        (Some ps, Some gid, Some rs) \<Rightarrow>
          (case (as_opt as_num (fld v ''currentRound''), as_opt as_num (fld v ''startTime''),
                 as_opt as_num (fld v ''endTime'')) of
             (Some cur, Some st, Some en) \<Rightarrow>
               Some \<lparr>gd_players = ps, gd_gameId = gid, gd_rounds = rs, gd_currentRound = cur,
                 gd_startTime = st, gd_endTime = en\<rparr>
           | _ \<Rightarrow> None)
      | _ \<Rightarrow> None)"

subsection \<open>Storing a game and reading it back\<close>

lemma sequence_opt_map: "(\<And>x. x \<in> set xs \<Longrightarrow> f x = Some (h x)) \<Longrightarrow> sequence_opt (map f xs) = Some (map h xs)"
  by (induction xs) auto

lemma jclone_list_map:
  "(\<And>x. x \<in> set xs \<Longrightarrow> jclone (f x) = Some (h x)) \<Longrightarrow> jclone_list (map f xs) = map h xs"
  by (induction xs) auto

lemma jclone_JNums [simp]: "jclone_list (map JNum ns) = map JNum ns"
  by (rule jclone_list_map) simp

lemma as_list_nums [simp]: "as_list as_num (JArr (map JNum ns)) = Some ns"
  by (simp add: as_list_def o_def sequence_opt_map [of ns "\<lambda>n. Some n" "\<lambda>n. n", simplified])

lemma jclone_opt_num: "jclone (opt_js (map_option JNum t)) = map_option JNum t"
  by (simp add: opt_js_def split: option.split)

lemma jclone_not_undef: "jclone v \<noteq> Some JUndef"
  using pure_jclone(1) by fastforce

lemma as_round_name_str [simp]: "as_round_name (JStr (round_name_str nm)) = Some nm"
  by (cases nm) (simp_all add: as_round_name_def)

lemma jclone_result: "jclone v = Some w \<Longrightarrow> w \<noteq> JUndef"
  using jclone_not_undef by blast

text \<open>Where a field of the stored round is defined, and what it is.\<close>

lemma round_obj_fields:
  fixes r
  defines "w \<equiv> the (jclone (round_obj r))"
  shows "jclone (round_obj r) = Some w"
    and "fld w ''name'' = JStr (round_name_str (rname r))"
    and "fld w ''msLength'' = JNum (msLength r)"
    and "fld w ''solution'' = (case kind r of SingleK sol _ \<Rightarrow> JNum sol | SequenceK sol \<Rightarrow> JArr (map JNum sol))"
    and "fld w ''options'' = (case kind r of SingleK _ opts \<Rightarrow> JArr (map JNum opts) | SequenceK _ \<Rightarrow> JUndef)"
    and "fld w ''answer'' = opt_js (Option.bind (ranswer r) jclone)"
    and "fld w ''startTime'' = opt_js (map_option JNum (rstartTime r))"
    and "fld w ''endTime'' = opt_js (map_option JNum (rendTime r))"
    and "fld w ''attack'' = JUndef"
proof -
  have w: "jclone (round_obj r) = Some w" by (simp add: w_def round_obj_def)
  then show "jclone (round_obj r) = Some w" .
  define kvs where "kvs = [(''msLength'', JNum (msLength r)),
       (''name'', JStr (round_name_str (rname r))),
       (''solution'', case kind r of SingleK sol _ \<Rightarrow> JNum sol | SequenceK sol \<Rightarrow> JArr (map JNum sol))]
      @ (case kind r of SingleK _ opts \<Rightarrow> [(''options'', JArr (map JNum opts))] | SequenceK _ \<Rightarrow> [])
      @ [(''startTime'', opt_js (map_option JNum (rstartTime r))),
         (''answer'', opt_js (ranswer r)),
         (''endTime'', opt_js (map_option JNum (rendTime r)))]"
  have obj: "round_obj r = JObj kvs" by (simp add: round_obj_def kvs_def)
  have dis: "distinct (map fst kvs)" by (cases "kind r") (simp_all add: kvs_def)
  note f = fld_clone [OF dis, of w] w [unfolded obj]
  show "fld w ''name'' = JStr (round_name_str (rname r))" using f by (simp add: kvs_def)
  show "fld w ''msLength'' = JNum (msLength r)" using f by (simp add: kvs_def)
  show "fld w ''solution'' = (case kind r of SingleK sol _ \<Rightarrow> JNum sol | SequenceK sol \<Rightarrow> JArr (map JNum sol))"
    using f by (cases "kind r") (simp_all add: kvs_def)
  show "fld w ''options'' = (case kind r of SingleK _ opts \<Rightarrow> JArr (map JNum opts) | SequenceK _ \<Rightarrow> JUndef)"
    using f by (cases "kind r") (simp_all add: kvs_def)
  show "fld w ''answer'' = opt_js (Option.bind (ranswer r) jclone)"
    using f by (cases "kind r"; cases "ranswer r") (simp_all add: kvs_def opt_js_def)
  show "fld w ''startTime'' = opt_js (map_option JNum (rstartTime r))"
    using f by (cases "kind r"; cases "rstartTime r") (simp_all add: kvs_def opt_js_def)
  show "fld w ''endTime'' = opt_js (map_option JNum (rendTime r))"
    using f by (cases "kind r"; cases "rendTime r") (simp_all add: kvs_def opt_js_def)
  show "fld w ''attack'' = JUndef" using f by (cases "kind r") (simp_all add: kvs_def)
qed

lemma as_opt_num [simp]: "as_opt as_num (opt_js (map_option JNum t)) = Some t"
  by (cases t) (simp_all add: as_opt_def opt_js_def)

lemma as_opt_undef [simp]: "as_opt f JUndef = Some None"
  by (simp add: as_opt_def)

lemma as_opt_nums: "as_opt (as_list as_num) (JArr (map JNum ns)) = Some (Some ns)"
  "as_opt as_num (JNum n) = Some (Some n)"
  by (simp_all add: as_opt_def)

lemma opt_js_back: "x \<noteq> Some JUndef \<Longrightarrow> (if opt_js x = JUndef then None else Some (opt_js x)) = x"
  by (cases x) (simp_all add: opt_js_def)

lemma answer_json: "Option.bind a jclone \<noteq> Some JUndef"
  by (auto simp: bind_eq_Some_conv dest: jclone_result)

lemma round_obj_clone: "as_round_data (the (jclone (round_obj r))) = Some (round_state r)"
proof -
  note ans = opt_js_back [OF answer_json [of "ranswer r"]]
  show ?thesis
    unfolding as_round_data_def round_obj_fields(2-) ans
    by (cases "kind r") (simp_all add: as_opt_nums as_solution_def round_state_def)
qed

lemma round_obj_json: "jclone (round_obj r) = Some (the (jclone (round_obj r)))"
  using round_obj_fields(1) by simp

lemma player_obj_clone: "jclone (player_obj p) = Some (player_obj p)" "as_player (player_obj p) = Some p"
  by (simp_all add: player_obj_def as_player_def)

lemma cb_obj_json: "\<exists>w. jclone (cb_obj m) = Some (JObj w)"
  by (simp add: cb_obj_def)

lemma game_obj_fields:
  fixes g
  defines "w \<equiv> the (jclone (game_obj g))"
  shows "jclone (game_obj g) = Some w"
    and "fld w ''players'' = JArr (map player_obj (players g))"
    and "fld w ''gameId'' = JStr (gameId g)"
    and "fld w ''rounds'' = JArr (map (\<lambda>r. the (jclone (round_obj r))) (rounds g))"
    and "fld w ''currentRound'' = JNum (currentRound g)"
    and "fld w ''startTime'' = opt_js (map_option JNum (startTime g))"
    and "fld w ''endTime'' = opt_js (map_option JNum (endTime g))"
proof -
  have w: "jclone (game_obj g) = Some w" by (simp add: w_def game_obj_def)
  then show "jclone (game_obj g) = Some w" .
  define kvs where "kvs = [(''cbMap'', cb_obj (cbMap g)),
      (''currentRound'', JNum (currentRound g)),
      (''rounds'', JArr (map round_obj (rounds g))),
      (''gameId'', JStr (gameId g)),
      (''players'', JArr (map player_obj (players g))),
      (''startTime'', opt_js (map_option JNum (startTime g))),
      (''endTime'', opt_js (map_option JNum (endTime g)))]"
  have obj: "game_obj g = JObj kvs" by (simp add: game_obj_def kvs_def)
  have dis: "distinct (map fst kvs)" by (simp add: kvs_def)
  note f = fld_clone [OF dis, of w] w [unfolded obj]
  show "fld w ''players'' = JArr (map player_obj (players g))"
    using f by (simp add: kvs_def jclone_list_map [of _ player_obj player_obj] player_obj_clone)
  show "fld w ''gameId'' = JStr (gameId g)" using f by (simp add: kvs_def)
  show "fld w ''rounds'' = JArr (map (\<lambda>r. the (jclone (round_obj r))) (rounds g))"
    using f jclone_list_map [of "rounds g" round_obj "\<lambda>r. the (jclone (round_obj r))", OF round_obj_json]
    by (simp add: kvs_def)
  show "fld w ''currentRound'' = JNum (currentRound g)" using f by (simp add: kvs_def)
  show "fld w ''startTime'' = opt_js (map_option JNum (startTime g))"
    using f by (cases "startTime g") (simp_all add: kvs_def opt_js_def)
  show "fld w ''endTime'' = opt_js (map_option JNum (endTime g))"
    using f by (cases "endTime g") (simp_all add: kvs_def opt_js_def)
qed

lemma as_list_map:
  "(\<And>x. x \<in> set xs \<Longrightarrow> f (h x) = Some (k x)) \<Longrightarrow> as_list f (JArr (map h xs)) = Some (map k xs)"
  using sequence_opt_map [of xs "f \<circ> h" k] by (simp add: as_list_def)

text \<open>\<open>state()\<close> is what the JSON of the game object says: reading the clone gives \<open>state g\<close>.\<close>

lemma game_obj_state:
  "\<exists>w. deepClone (game_obj g) = Inr w \<and> as_game_data w = Some (state g)"
proof -
  let ?w = "the (jclone (game_obj g))"
  have "as_list as_player (fld ?w ''players'') = Some (players g)"
    using as_list_map [of "players g" as_player player_obj "\<lambda>p. p"]
    by (simp add: game_obj_fields(2) player_obj_clone)
  moreover have "as_list as_round_data (fld ?w ''rounds'') = Some (map round_state (rounds g))"
    unfolding game_obj_fields(4) by (rule as_list_map) (rule round_obj_clone)
  ultimately have "as_game_data ?w = Some (state g)"
    by (simp add: as_game_data_def game_obj_fields(3,5,6,7) as_opt_nums state_def)
  moreover have "deepClone (game_obj g) = Inr ?w"
    by (subst deepClone_def, subst game_obj_fields(1)) simp
  ultimately show ?thesis by blast
qed

subsection \<open>Rebuilding a game\<close>

definition resumeGame :: "gst \<Rightarrow> exn + gst" where
  "resumeGame s =
     (let (game, e) = s
      in if startTime game \<noteq> None then mapR snd (gotoRound trigger (currentRound game) s) else Inr s)"

text \<open>The rebuilt object is a new one, \<open>i\<close>. \<open>Inl\<close> inside is the \<open>Left\<close> of a refused round.\<close>

definition deserializeGame :: "nat \<Rightarrow> game_data \<Rightarrow> env \<Rightarrow> exn + game either \<times> env" where
  "deserializeGame i gameData e =
     (case aoe2ea (map createRound (gd_rounds gameData)) of
        Inl m \<Rightarrow> Inr (Inl m, e)
      | Inr rs \<Rightarrow>
          mapR (\<lambda>(g, e'). (Inr g, e'))
            (resumeGame (new_Game i (gd_gameId gameData) (gd_players gameData) rs
               (gd_currentRound gameData) (gd_startTime gameData), e)))"

text \<open>A round is rebuilt from its solution, options and length alone.\<close>

definition forget :: "round \<Rightarrow> round" where
  "forget r = r\<lparr>ranswer := None, rstartTime := None, rendTime := None\<rparr>"

definition restorable :: "round \<Rightarrow> bool" where
  "restorable r \<longleftrightarrow> rname r = Button \<and> single_round r"

lemma createRound_state:
  "restorable r \<Longrightarrow> createRound (round_state r) = Inr (forget r)"
  by (cases "kind r")
     (auto simp: restorable_def single_round_def createRound_def createButtonRound_def
        isButtonRoundData_def isSingleRoundData_def round_state_def new_ButtonRound_def
        new_SingleRound_def new_Round_def forget_def)

lemma createRounds_state:
  "list_all restorable rs \<Longrightarrow> aoe2ea (map createRound (map round_state rs)) = Inr (map forget rs)"
  by (induction rs) (simp_all add: createRound_state)

lemma createRound_restorable: "createRound d = Inr r \<Longrightarrow> restorable r"
  using createRound_Inr [of d r]
  by (auto simp: restorable_def new_ButtonRound_def new_SingleRound_def new_Round_def)

lemma forget_facts [simp]:
  "fresh_round (forget r)" "single_round (forget r) = single_round r"
  by (simp_all add: forget_def fresh_round_def single_round_def)

text \<open>The game a stored game is rebuilt to before it resumes.\<close>

definition restored :: "nat \<Rightarrow> game \<Rightarrow> game" where
  "restored i g =
     new_Game i (gameId g) (players g) (map forget (rounds g)) (Some (currentRound g)) (startTime g)"

lemma restored_sel [simp]:
  "oid (restored i g) = i" "players (restored i g) = players g" "gameId (restored i g) = gameId g"
  "rounds (restored i g) = map forget (rounds g)" "currentRound (restored i g) = currentRound g"
  "startTime (restored i g) = startTime g" "endTime (restored i g) = None"
  "wf_game (restored i g)"
  by (simp_all add: restored_def) (simp_all add: new_Game_def)

lemma deserialize_state:
  assumes "list_all restorable (rounds g)"
  shows "deserializeGame i (state g) e =
    Inr (if startTime g = None then (Inr (restored i g), e)
         else (let (g', e') = gotoRound_fx (currentRound g) (restored i g, e) in (Inr g', e')))"
proof -
  have new: "deserializeGame i (state g) e
      = mapR (\<lambda>(g, e'). (Inr g, e')) (resumeGame (restored i g, e))"
    using createRounds_state [OF assms]
    by (simp add: deserializeGame_def state_def restored_def)
  show ?thesis
  proof (cases "startTime g")
    case None
    then show ?thesis using new by (simp add: resumeGame_def)
  next
    case (Some t)
    then show ?thesis using new
      by (simp add: resumeGame_def method_eqs split: prod.split)
  qed
qed

end
