(* ===== verification/World.thy ===== *)
theory World
  imports Restore
begin

text \<open>
  The state of the server process and of what it talks to: the SQLite database (tables of
  \<open>server/db/init.sql\<close>), the game objects and the module variable \<open>memGames\<close>, the recording
  directories, and the Docker daemon. Every entry point of the server is a future on this state.

  SQLite is modelled by the documented meaning of the statements the source holds: a table is the
  list of its rows in \<open>rowid\<close> order, \<open>INSERT\<close> fails on a duplicate in a \<open>UNIQUE\<close> or
  \<open>PRIMARY KEY\<close> column, foreign keys are not enforced (SQLite's default, which the program does
  not change). Any access may fail for other reasons: \<open>dbfate\<close> says, for the n-th use of
  \<open>withDb\<close>, whether the file cannot be opened, the statement fails, or only the closing of the
  connection after it. Nobody listens to the event \<open>error\<close> of a file that cannot be opened, so it is an
  uncaught exception.
  The Docker daemon is a parameter: \<open>daemon\<close> gives the answer to the last of a list of requests.
\<close>

subsection \<open>Errors\<close>

text \<open>The classes of \<open>Error\<close> the code distinguishes; each carries its message.\<close>

datatype err =
    PlainError string
  | DockerError int string
  | CreateMurmurError int int int string   \<comment> \<open>\<open>grpcPort\<close>, \<open>murmurPort\<close>, \<open>sessionId\<close>\<close>
  | SessionError session string

fun err_message :: "err \<Rightarrow> string" where
  "err_message (PlainError m) = m"
| "err_message (DockerError _ m) = m"
| "err_message (CreateMurmurError _ _ _ m) = m"
| "err_message (SessionError _ m) = m"

subsection \<open>The tables\<close>

datatype game_text = GameText game_data | BadText string

record db_game =
  row_gameId :: string
  row_data :: game_text
  row_isCurrent :: bool
  row_sessionId :: int
  row_order :: int

record murmur =
  murmurId :: string
  mur_sessionId :: int
  mur_grpcPort :: int
  mur_murmurPort :: int
  recDir :: string

record db =
  t_session :: "session list"
  t_game :: "db_game list"
  t_attack :: "attack list"
  t_murmur :: "murmur list"

datatype db_fate = Fine | OpenFails | StatementFails | CloseFails

datatype docker_req = DockerReq string string jsval   \<comment> \<open>method, path with query, body\<close>

text \<open>
  An answer of the daemon: the request fails, or there is a status code and a body, \<open>None\<close> when
  the body is not JSON.
\<close>

datatype docker_res = NetError string | DockerRes int "jsval option"

record world =
  db :: db
  dbcount :: nat
  dbfate :: "nat \<Rightarrow> db_fate"
  genv :: env
  objs :: "game list"       \<comment> \<open>every \<open>Game\<close> object built so far; its index is its \<open>oid\<close>\<close>
  memGames :: "nat list"
  dirs :: "string \<Rightarrow> string list option"   \<comment> \<open>the directories that exist, with their entries\<close>
  docker_log :: "docker_req list"
  daemon :: "docker_req list \<Rightarrow> docker_res"
  recDirRoot :: string
  fakesDir :: string
  uuids :: "nat \<Rightarrow> string"
  uuid_count :: nat
  crashed :: "exn option"   \<comment> \<open>an exception no handler caught\<close>

type_synonym 'a fut = "(world, err, 'a) future"

subsection \<open>Access to the database\<close>

text \<open>One statement: an error message, or a result and the tables after it.\<close>

type_synonym 'a stmt = "db \<Rightarrow> string + 'a \<times> db"

definition withDb :: "'a stmt \<Rightarrow> 'a fut" where
  "withDb fn w =
     (let w1 = w\<lparr>dbcount := Suc (dbcount w)\<rparr>
      in case dbfate w (dbcount w) of
           OpenFails \<Rightarrow> (Inl (PlainError ''SQLITE_CANTOPEN''), w1\<lparr>crashed := Some CannotOpen\<rparr>)
         | StatementFails \<Rightarrow> (Inl (PlainError ''SQLITE_ERROR''), w1)
         | Fine \<Rightarrow>
             (case fn (db w) of
                Inl m \<Rightarrow> (Inl (PlainError m), w1)
              | Inr (a, d) \<Rightarrow> (Inr a, w1\<lparr>db := d\<rparr>))
         | CloseFails \<Rightarrow>
             (case fn (db w) of
                Inl m \<Rightarrow> (Inl (PlainError m), w1)
              | Inr (a, d) \<Rightarrow> (Inl (PlainError ''SQLITE_BUSY''), w1\<lparr>db := d\<rparr>)))"

definition sqlite_unique :: string where
  "sqlite_unique = ''SQLITE_CONSTRAINT: UNIQUE constraint failed''"

text \<open>The row id given to a new row of a table with an \<open>INTEGER PRIMARY KEY\<close>.\<close>

definition next_rowid :: "int list \<Rightarrow> int" where
  "next_rowid ids = (if ids = [] then 1 else Max (set ids) + 1)"

lemma next_rowid_fresh: "next_rowid ids \<notin> set ids"
proof
  assume a: "next_rowid ids \<in> set ids"
  then have "ids \<noteq> []" by auto
  then have "next_rowid ids = Max (set ids) + 1" by (simp add: next_rowid_def)
  moreover have "next_rowid ids \<le> Max (set ids)" using a by simp
  ultimately show False by simp
qed

definition unique_ok :: "('r \<Rightarrow> 'k) \<Rightarrow> 'r \<Rightarrow> 'r list \<Rightarrow> bool" where
  "unique_ok f r rs \<longleftrightarrow> f r \<notin> f ` set rs"

lemma unique_ok_append: "distinct (map f rs) \<Longrightarrow> unique_ok f r rs \<Longrightarrow> distinct (map f (rs @ [r]))"
  by (auto simp: unique_ok_def)

text \<open>
  The keys and the uniqueness the schema asks for, as an invariant of the tables. Its foreign keys are not part of
  it: they are not enforced, and a removal can leave rows that refer to nothing.
\<close>

definition db_ok :: "db \<Rightarrow> bool" where
  "db_ok d \<longleftrightarrow>
     distinct (map sessionId (t_session d))
     \<and> distinct (map blueParticipant (t_session d)) \<and> distinct (map redParticipant (t_session d))
     \<and> distinct (map grpcPort (t_session d)) \<and> distinct (map murmurPort (t_session d))
     \<and> distinct (map row_gameId (t_game d))
     \<and> distinct (map attackId (t_attack d))
     \<and> distinct (map murmurId (t_murmur d)) \<and> distinct (map mur_sessionId (t_murmur d))
     \<and> distinct (map recDir (t_murmur d))
     \<and> distinct (map mur_grpcPort (t_murmur d)) \<and> distinct (map mur_murmurPort (t_murmur d))"

lemma distinct_map_filter_key: "distinct (map f xs) \<Longrightarrow> distinct (map f (filter P xs))"
  by (induction xs) auto

definition stmt_ok :: "'a stmt \<Rightarrow> bool" where
  "stmt_ok q \<longleftrightarrow> (\<forall>d a d'. db_ok d \<longrightarrow> q d = Inr (a, d') \<longrightarrow> db_ok d')"

lemma withDb_ok: "stmt_ok q \<Longrightarrow> db_ok (db w) \<Longrightarrow> db_ok (db (snd (withDb q w)))"
  by (auto simp: withDb_def Let_def stmt_ok_def split: db_fate.split sum.split)

lemma withDb_Inr:
  "withDb q w = (Inr a, w') \<longleftrightarrow>
     dbfate w (dbcount w) = Fine \<and>
     (\<exists>d. q (db w) = Inr (a, d) \<and> w' = w\<lparr>dbcount := Suc (dbcount w), db := d\<rparr>)"
  by (auto simp: withDb_def Let_def split: db_fate.splits sum.splits)

lemma withDb_frame [frame, simp]:
  "memGames (snd (withDb q w)) = memGames w" "objs (snd (withDb q w)) = objs w"
  "genv (snd (withDb q w)) = genv w" "dirs (snd (withDb q w)) = dirs w"
  "docker_log (snd (withDb q w)) = docker_log w" "daemon (snd (withDb q w)) = daemon w"
  "dbfate (snd (withDb q w)) = dbfate w"
  "recDirRoot (snd (withDb q w)) = recDirRoot w" "fakesDir (snd (withDb q w)) = fakesDir w"
  "uuids (snd (withDb q w)) = uuids w" "uuid_count (snd (withDb q w)) = uuid_count w"
  "dbcount (snd (withDb q w)) = Suc (dbcount w)"
  by (auto simp: withDb_def Let_def split: db_fate.split sum.split)

text \<open>A database that answers: no access fails but for a constraint.\<close>

definition db_works :: "world \<Rightarrow> bool" where
  "db_works w \<longleftrightarrow> (\<forall>n. dbfate w n = Fine)"

lemma withDb_works:
  "db_works w \<Longrightarrow> withDb q w =
     (case q (db w) of
        Inl m \<Rightarrow> (Inl (PlainError m), w\<lparr>dbcount := Suc (dbcount w)\<rparr>)
      | Inr (a, d) \<Rightarrow> (Inr a, w\<lparr>dbcount := Suc (dbcount w), db := d\<rparr>))"
  by (simp add: withDb_def db_works_def Let_def)

lemma db_works_frame [simp]: "db_works (w\<lparr>db := d\<rparr>) = db_works w"
  "db_works (w\<lparr>dbcount := n\<rparr>) = db_works w" "db_works (w\<lparr>objs := os\<rparr>) = db_works w"
  "db_works (w\<lparr>memGames := ms\<rparr>) = db_works w" "db_works (w\<lparr>genv := e\<rparr>) = db_works w"
  "db_works (w\<lparr>dirs := ds\<rparr>) = db_works w" "db_works (w\<lparr>docker_log := dl\<rparr>) = db_works w"
  "db_works (w\<lparr>uuid_count := n\<rparr>) = db_works w" "db_works (w\<lparr>crashed := x\<rparr>) = db_works w"
  by (simp_all add: db_works_def)

text \<open>No exception has reached the event loop but for a file that cannot be opened.\<close>

definition unopened_only :: "world \<Rightarrow> bool" where
  "unopened_only w \<longleftrightarrow> crashed w = None \<or> crashed w = Some CannotOpen \<and> (\<exists>n. dbfate w n = OpenFails)"

lemma unopened_only_frame [simp]: "unopened_only (w\<lparr>db := d\<rparr>) = unopened_only w"
  "unopened_only (w\<lparr>dbcount := n\<rparr>) = unopened_only w" "unopened_only (w\<lparr>objs := os\<rparr>) = unopened_only w"
  "unopened_only (w\<lparr>memGames := ms\<rparr>) = unopened_only w" "unopened_only (w\<lparr>genv := e\<rparr>) = unopened_only w"
  "unopened_only (w\<lparr>dirs := ds\<rparr>) = unopened_only w" "unopened_only (w\<lparr>docker_log := dl\<rparr>) = unopened_only w"
  "unopened_only (w\<lparr>uuid_count := n\<rparr>) = unopened_only w"
  by (simp_all add: unopened_only_def)

lemma unopened_only_withDb: "unopened_only w \<Longrightarrow> unopened_only (snd (withDb q w))"
  by (auto simp: unopened_only_def withDb_def Let_def split: db_fate.split sum.split)

lemma unopened_only_works: "unopened_only w \<Longrightarrow> db_works w \<Longrightarrow> crashed w = None"
  by (auto simp: unopened_only_def db_works_def)

subsection \<open>Statements on one table\<close>

text \<open>\<open>SELECT\<close> and \<open>DELETE\<close> are the same for all tables but for the column.\<close>

definition select_all :: "(db \<Rightarrow> 'r list) \<Rightarrow> 'r list stmt" where
  "select_all t d = Inr (t d, d)"

definition e2f_err :: "'a either \<Rightarrow> 'a fut" where
  "e2f_err x = e2f (case x of Inl m \<Rightarrow> Inl (PlainError m) | Inr a \<Rightarrow> Inr a)"

lemma select_all_ok [simp]: "stmt_ok (select_all t)"
  by (simp add: stmt_ok_def select_all_def)

lemma e2f_err_simps [simp]: "e2f_err (Inl m) w = (Inl (PlainError m), w)" "e2f_err (Inr a) w = (Inr a, w)"
  by (simp_all add: e2f_err_def)

lemma e2f_err_frame [simp]: "snd (e2f_err x w) = w"
  by (cases x) simp_all

text \<open>What a composition of futures keeps when its parts keep it.\<close>

definition keeps :: "(world \<Rightarrow> bool) \<Rightarrow> 'a fut \<Rightarrow> bool" where
  "keeps P m \<longleftrightarrow> (\<forall>w. P w \<longrightarrow> P (snd (m w)))"

named_theorems keeps_intros \<open>closure of \<open>keeps\<close> under the combinators\<close>

lemma keepsD: "keeps P m \<Longrightarrow> P w \<Longrightarrow> P (snd (m w))"
  by (simp add: keeps_def)

lemma keeps_resolve [keeps_intros]: "keeps P (resolve a)"
  by (simp add: keeps_def)

lemma keeps_reject [keeps_intros]: "keeps P (reject a)"
  by (simp add: keeps_def)

lemma keeps_e2f [keeps_intros]: "keeps P (e2f x)" "keeps P (e2f_err y)"
  by (simp_all add: keeps_def)

lemma keeps_fget [keeps_intros]: "keeps P (fget f)"
  by (simp add: keeps_def)

lemma keeps_fmap [keeps_intros]: "keeps P m \<Longrightarrow> keeps P (fmap f m)"
  by (auto simp: keeps_def fmap_def split: prod.split sum.split)

lemma keeps_fmapRej [keeps_intros]: "keeps P m \<Longrightarrow> keeps P (fmapRej f m)"
  by (auto simp: keeps_def fmapRej_def split: prod.split sum.split)

lemma keeps_fchain [keeps_intros]:
  assumes "keeps P m" "\<And>a. keeps P (f a)"
  shows "keeps P (fchain f m)"
  unfolding keeps_def
proof (intro allI impI)
  fix w assume "P w"
  then have "P (snd (m w))" using assms(1) by (rule keepsD [rotated])
  then show "P (snd (fchain f m w))"
    using assms(2) by (auto simp: fchain_def keeps_def split: prod.split sum.split)
qed

lemma keeps_fchainRej [keeps_intros]:
  assumes "keeps P m" "\<And>a. keeps P (f a)"
  shows "keeps P (fchainRej f m)"
  unfolding keeps_def
proof (intro allI impI)
  fix w assume "P w"
  then have "P (snd (m w))" using assms(1) by (rule keepsD [rotated])
  then show "P (snd (fchainRej f m w))"
    using assms(2) by (auto simp: fchainRej_def keeps_def split: prod.split sum.split)
qed

lemma keeps_fcoalesce [keeps_intros]: "keeps P m \<Longrightarrow> keeps P (fcoalesce m)"
  by (auto simp: keeps_def fcoalesce_def split: prod.split)

lemma keeps_parallel1 [keeps_intros]: "(\<And>m. m \<in> set ms \<Longrightarrow> keeps P m) \<Longrightarrow> keeps P (parallel1 ms)"
  unfolding keeps_def by (metis parallel1_inv)

lemma keeps_withDb [keeps_intros]: "stmt_ok q \<Longrightarrow> keeps (\<lambda>w. db_ok (db w)) (withDb q)"
  by (simp add: keeps_def withDb_ok)

end
