(* ===== verification/Paths.thy ===== *)
theory Paths
  imports Prelude
begin

text \<open>
  Node's \<open>path.resolve\<close> and \<open>path.join\<close> (POSIX) as \<open>murmurlib.ts\<close> and \<open>attacklib.ts\<close> use
  them: the first argument is an absolute directory, the others come from ports, participant ids and
  directory entries. A path is split at its slashes; empty and \<open>.\<close> components are dropped, \<open>..\<close>
  drops the component before it, and an absolute argument discards everything to its left.
\<close>

text \<open>\<open>s.split(sep)\<close> and \<open>parts.join(sep)\<close>, for a separator of one character the first.\<close>

fun split_on :: "char \<Rightarrow> string \<Rightarrow> string list" where
  "split_on sep [] = [[]]"
| "split_on sep (c # cs) =
     (if c = sep then [] # split_on sep cs
      else case split_on sep cs of [] \<Rightarrow> [[c]] | p # ps \<Rightarrow> (c # p) # ps)"

fun join_with :: "string \<Rightarrow> string list \<Rightarrow> string" where
  "join_with sep [] = []"
| "join_with sep [p] = p"
| "join_with sep (p # q # ps) = p @ sep @ join_with sep (q # ps)"

lemma split_on_nonempty: "split_on c s \<noteq> []"
  by (induction s) (auto split: list.split)

lemma split_on_none: "c \<notin> set s \<Longrightarrow> split_on c s = [s]"
  by (induction s) auto

lemma split_on_append: "c \<notin> set s \<Longrightarrow> split_on c (s @ c # t) = s # split_on c t"
  by (induction s) (auto split: list.split)

lemma split_on_join: "ps \<noteq> [] \<Longrightarrow> \<forall>p \<in> set ps. c \<notin> set p \<Longrightarrow> split_on c (join_with [c] ps) = ps"
  by (induction "[c]" ps rule: join_with.induct) (simp_all add: split_on_none split_on_append)

abbreviation split_slash :: "string \<Rightarrow> string list" where
  "split_slash \<equiv> split_on CHR ''/''"

definition path_step :: "string list \<Rightarrow> string \<Rightarrow> string list" where
  "path_step acc p =
     (if p = [] \<or> p = ''.'' then acc else if p = ''..'' then butlast acc else acc @ [p])"

definition norm_parts :: "string list \<Rightarrow> string list" where
  "norm_parts ps = foldl path_step [] ps"

definition abs_path :: "string list \<Rightarrow> string" where
  "abs_path ps = ''/'' @ join_with ''/'' ps"

definition resolve_parts :: "string \<Rightarrow> string list \<Rightarrow> string list" where
  "resolve_parts root segs =
     norm_parts (foldl (\<lambda>acc s. if s = [] then acc else if hd s = CHR ''/'' then split_slash s
                                else acc @ split_slash s) (split_slash root) segs)"

definition path_resolve :: "string \<Rightarrow> string list \<Rightarrow> string" where
  "path_resolve root segs = abs_path (resolve_parts root segs)"

definition path_join :: "string \<Rightarrow> string \<Rightarrow> string" where
  "path_join dir name = abs_path (norm_parts (split_slash (dir @ ''/'' @ name)))"

subsection \<open>Plain names\<close>

text \<open>A name that stays one component below the directory it is resolved in.\<close>

definition plain :: "string \<Rightarrow> bool" where
  "plain s \<longleftrightarrow> s \<noteq> [] \<and> s \<noteq> ''.'' \<and> s \<noteq> ''..'' \<and> CHR ''/'' \<notin> set s"

text \<open>A directory as \<open>path.resolve\<close> returns it.\<close>

definition resolved_dir :: "string \<Rightarrow> bool" where
  "resolved_dir d \<longleftrightarrow> (\<exists>ps. ps \<noteq> [] \<and> list_all plain ps \<and> d = abs_path ps)"

lemma split_slash_append:
  "CHR ''/'' \<notin> set s \<Longrightarrow> split_slash (s @ ''/'' @ t) = s # split_slash t"
  by (simp add: split_on_append)

lemma split_join: "ps \<noteq> [] \<Longrightarrow> list_all plain ps \<Longrightarrow> split_slash (join_with ''/'' ps) = ps"
  by (rule split_on_join) (auto simp: list_all_iff plain_def)

lemma split_abs_path: "ps \<noteq> [] \<Longrightarrow> list_all plain ps \<Longrightarrow> split_slash (abs_path ps) = [] # ps"
  by (simp add: abs_path_def split_join)

lemma foldl_path_step: "list_all plain ps \<Longrightarrow> foldl path_step acc ps = acc @ ps"
  by (induction ps arbitrary: acc) (auto simp: path_step_def plain_def)

lemma norm_plain: "list_all plain ps \<Longrightarrow> norm_parts ([] # ps) = ps"
  by (simp add: norm_parts_def path_step_def foldl_path_step)

lemma resolve_parts_plain:
  assumes "ps \<noteq> []" "list_all plain ps" "list_all plain segs"
  shows "resolve_parts (abs_path ps) segs = ps @ segs"
proof -
  have "foldl (\<lambda>acc s. if s = [] then acc else if hd s = CHR ''/'' then split_slash s
          else acc @ split_slash s) acc segs = acc @ segs" for acc
    using assms(3)
  proof (induction segs arbitrary: acc)
    case (Cons s segs)
    then have "s \<noteq> []" "hd s \<noteq> CHR ''/''" "split_slash s = [s]"
      by (cases s; auto simp: plain_def split_on_none)+
    then show ?case using Cons by simp
  qed simp
  then show ?thesis using assms by (simp add: resolve_parts_def split_abs_path norm_plain)
qed

lemma join_with_snoc: "ps \<noteq> [] \<Longrightarrow> join_with sep (ps @ [p]) = join_with sep ps @ sep @ p"
  by (induction sep ps rule: join_with.induct) auto

lemma path_resolve_plain:
  assumes "resolved_dir d" "plain p"
  shows "path_resolve d [p] = d @ ''/'' @ p"
  using assms resolve_parts_plain [of _ "[p]"]
  by (auto simp: resolved_dir_def path_resolve_def abs_path_def join_with_snoc)

lemma path_resolve_plain2:
  assumes "resolved_dir d" "plain p" "plain q"
  shows "path_resolve d [p, q] = d @ ''/'' @ p @ ''/'' @ q"
proof -
  obtain ps where ps: "ps \<noteq> []" "list_all plain ps" "d = abs_path ps"
    using assms(1) by (auto simp: resolved_dir_def)
  have "resolve_parts d [p, q] = (ps @ [p]) @ [q]"
    using resolve_parts_plain [OF ps(1,2), of "[p, q]"] assms ps(3) by simp
  then show ?thesis using ps join_with_snoc [of "ps @ [p]" "''/''" q]
    by (simp add: path_resolve_def abs_path_def join_with_snoc del: append_assoc)
qed

lemma path_join_plain: "resolved_dir d \<Longrightarrow> plain p \<Longrightarrow> path_join d p = d @ ''/'' @ p"
proof -
  assume "resolved_dir d" and p: "plain p"
  then obtain ps where ps: "ps \<noteq> []" "list_all plain ps" "d = abs_path ps"
    by (auto simp: resolved_dir_def)
  have "split_slash (d @ ''/'' @ p) = split_slash (abs_path (ps @ [p]))"
    using ps by (simp add: abs_path_def join_with_snoc)
  also have "\<dots> = [] # ps @ [p]" using split_abs_path [of "ps @ [p]"] ps p by simp
  finally show ?thesis using ps p norm_plain [of "ps @ [p]"]
    by (simp add: path_join_def) (simp add: abs_path_def join_with_snoc)
qed

end
