(* ===== verification/Docker.thy ===== *)
theory Docker
  imports World Paths
begin

text \<open>
  \<open>server/src/lib/dockerlib.ts\<close>: requests to the Docker daemon over its socket. The daemon is the
  parameter \<open>daemon\<close> of the world; every request is recorded in \<open>docker_log\<close>.
\<close>

subsection \<open>Values as JavaScript reads them\<close>

fun js_truthy :: "jsval \<Rightarrow> bool" where
  "js_truthy JUndef = False"
| "js_truthy JNull = False"
| "js_truthy (JBool b) = b"
| "js_truthy (JNum n) = (n \<noteq> 0)"
| "js_truthy (JStr s) = (s \<noteq> [])"
| "js_truthy _ = True"

text \<open>\<open>String(v)\<close>; the text of a function is not modelled.\<close>

fun js_string :: "jsval \<Rightarrow> string" and js_elems :: "jsval list \<Rightarrow> string list" where
  "js_string JUndef = ''undefined''"
| "js_string JNull = ''null''"
| "js_string (JBool b) = (if b then ''true'' else ''false'')"
| "js_string (JNum n) = show_int n"
| "js_string (JStr s) = s"
| "js_string (JArr xs) = join_with '','' (js_elems xs)"
| "js_string (JObj _) = ''[object Object]''"
| "js_string JFun = ''function''"
| "js_elems [] = []"
| "js_elems (x # xs) = (if nullish x then [] else js_string x) # js_elems xs"

subsection \<open>Requests\<close>

definition parseResponseBody :: "jsval option \<Rightarrow> jsval" where
  "parseResponseBody body = (case body of None \<Rightarrow> JObj [] | Some v \<Rightarrow> v)"

text \<open>\<open>resData.message || "Unknown error"\<close>.\<close>

definition docker_message :: "jsval \<Rightarrow> string" where
  "docker_message resData =
     (let m = fld resData ''message'' in if js_truthy m then js_string m else ''Unknown error'')"

text \<open>
  The query is an array put into a template string, so its parts are joined with commas. An error
  status whose body is the JSON \<open>null\<close> makes the handler read \<open>null.message\<close>; nothing catches
  that exception.
\<close>

definition dockerReq :: "string \<Rightarrow> string \<Rightarrow> (string \<times> string) list \<Rightarrow> jsval \<Rightarrow> jsval fut" where
  "dockerReq method endpoint queryParams body w =
     (let queryStr = join_with '','' (map (\<lambda>(k, v). k @ ''='' @ v) queryParams);
          log = docker_log w @ [DockerReq method (endpoint @ ''?'' @ queryStr) body];
          w1 = w\<lparr>docker_log := log\<rparr>
      in case daemon w log of
           NetError m \<Rightarrow> (Inl (DockerError 500 m), w1)
         | DockerRes statusCode resBody \<Rightarrow>
             let resData = parseResponseBody resBody
             in if 400 \<le> statusCode
                then if nullish resData
                     then (Inl (PlainError ''TypeError''), w1\<lparr>crashed := Some TypeError\<rparr>)
                     else (Inl (DockerError statusCode (docker_message resData)), w1)
                else (Inr resData, w1))"

definition docker_start :: "string \<Rightarrow> jsval fut" where
  "docker_start containerId =
     dockerReq ''POST'' (''/containers/'' @ containerId @ ''/start'') [] (JObj [])"

definition stopContainer :: "string \<Rightarrow> string fut" where
  "stopContainer name =
     fmap (\<lambda>_. name) (dockerReq ''POST'' (''/containers/'' @ name @ ''/stop'') [] (JObj []))"

definition docker_stop :: "string list \<Rightarrow> string list fut" where
  "docker_stop containers = parallel1 (map stopContainer containers)"

definition rmContainer :: "string \<Rightarrow> jsval fut" where
  "rmContainer name = dockerReq ''DELETE'' (''/containers/'' @ name) [] (JObj [])"

text \<open>\<open>rm\<close> runs its requests at the same time; the program passes it one name.\<close>

definition docker_rm :: "string list \<Rightarrow> jsval list fut" where
  "docker_rm containers = parallel1 (map rmContainer containers)"

definition docker_create :: "string \<Rightarrow> jsval \<Rightarrow> jsval fut" where
  "docker_create name config = dockerReq ''POST'' ''/containers/create'' [(''name'', name)] config"

text \<open>
  \<open>ps({ all, filters })\<close>, with \<open>filters\<close> as the text it is turned into; \<open>undefined\<close> leaves its
  place empty.
\<close>

definition docker_ps :: "bool option \<Rightarrow> string option \<Rightarrow> jsval fut" where
  "docker_ps all filtersStr =
     dockerReq ''GET'' ''/containers/json''
       [(''all'', case all of None \<Rightarrow> [] | Some b \<Rightarrow> js_string (JBool b)),
        (''filters'', case filtersStr of None \<Rightarrow> [] | Some t \<Rightarrow> t)] (JObj [])"

subsection \<open>Facts\<close>

lemmas docker_defs =
  docker_start_def stopContainer_def docker_stop_def rmContainer_def docker_rm_def docker_create_def

lemma dockerReq_frame [frame, simp]:
  "db (snd (dockerReq m ep q b w)) = db w" "dirs (snd (dockerReq m ep q b w)) = dirs w"
  "memGames (snd (dockerReq m ep q b w)) = memGames w" "objs (snd (dockerReq m ep q b w)) = objs w"
  "genv (snd (dockerReq m ep q b w)) = genv w" "daemon (snd (dockerReq m ep q b w)) = daemon w"
  "dbfate (snd (dockerReq m ep q b w)) = dbfate w" "dbcount (snd (dockerReq m ep q b w)) = dbcount w"
  by (auto simp: dockerReq_def Let_def split: docker_res.split)

text \<open>A request succeeds exactly when the daemon answers it with a status below 400.\<close>

lemma dockerReq_Inr_iff:
  "(\<exists>r. fst (dockerReq m ep q b w) = Inr r) \<longleftrightarrow>
     (\<exists>c body. daemon w (docker_log (snd (dockerReq m ep q b w))) = DockerRes c body \<and> c < 400)"
  by (auto simp: dockerReq_def Let_def split: docker_res.split if_splits)

lemma dockerReq_log:
  "\<exists>req. docker_log (snd (dockerReq m ep q b w)) = docker_log w @ [req]"
  by (auto simp: dockerReq_def Let_def split: docker_res.split)

text \<open>
  The parts of a query are put together with commas: asked for all containers and for a filter, the
  daemon sees one parameter \<open>all\<close> with the rest as its value.
\<close>

lemma docker_ps_log:
  "docker_log (snd (docker_ps (Some True) (Some t) w)) =
     docker_log w @ [DockerReq ''GET'' (''/containers/json?all=true,filters='' @ t) (JObj [])]"
  by (simp add: docker_ps_def dockerReq_def Let_def split: docker_res.split)

lemma keeps_dockerReq [keeps_intros]: "keeps (\<lambda>w. P (db w)) (dockerReq m ep q b)"
  by (simp add: keeps_def)

lemma keeps_docker [keeps_intros]:
  "keeps (\<lambda>w. P (db w)) (docker_start c)" "keeps (\<lambda>w. P (db w)) (docker_stop cs)"
  "keeps (\<lambda>w. P (db w)) (docker_rm cs)" "keeps (\<lambda>w. P (db w)) (docker_create nm cfg)"
  by (auto simp: docker_defs intro!: keeps_intros)

end
