(* ===== verification/Murmur.thy ===== *)
theory Murmur
  imports Docker
begin

text \<open>
  \<open>server/src/lib/murmurlib.ts\<close>: the voice server of a session, that is a row of the table
  \<open>murmur\<close>, a recording directory and a Docker container, all three named after the session's two
  ports.
\<close>

subsection \<open>Names\<close>

definition murmur_id :: "int \<Rightarrow> int \<Rightarrow> string" where
  "murmur_id grpc mur = ''g'' @ show_int grpc @ ''_m'' @ show_int mur"

definition resolveMurmur :: "string \<Rightarrow> int \<Rightarrow> int \<Rightarrow> int \<Rightarrow> murmur" where
  "resolveMurmur root grpc mur sid =
     \<lparr>murmurId = murmur_id grpc mur, mur_sessionId = sid, mur_grpcPort = grpc,
      mur_murmurPort = mur, recDir = path_resolve root [murmur_id grpc mur]\<rparr>"

subsection \<open>Recording directories\<close>

text \<open>
  \<open>mkdirSync\<close>, \<open>rmdirSync\<close> and \<open>readdir\<close>; the left side is the error code Node reports. The
  parent directory exists since the program started. \<open>chmodSync\<close> on a directory just made does
  not fail.
\<close>

definition mkdirSync :: "string \<Rightarrow> world \<Rightarrow> unit either \<times> world" where
  "mkdirSync d w =
     (if dirs w d \<noteq> None then (Inl ''EEXIST'', w)
      else (Inr (), w\<lparr>dirs := (dirs w)(d \<mapsto> [])\<rparr>))"

definition rmdirSync :: "string \<Rightarrow> world \<Rightarrow> unit either \<times> world" where
  "rmdirSync d w =
     (case dirs w d of
        None \<Rightarrow> (Inl ''ENOENT'', w)
      | Some names \<Rightarrow>
          if names = [] then (Inr (), w\<lparr>dirs := (dirs w)(d := None)\<rparr>) else (Inl ''ENOTEMPTY'', w))"

definition readdirP :: "string \<Rightarrow> string list fut" where
  "readdirP d w = e2f_err (case dirs w d of None \<Rightarrow> Inl ''ENOENT'' | Some names \<Rightarrow> Inr names) w"

definition createRecDir :: "murmur \<Rightarrow> bool \<Rightarrow> world \<Rightarrow> murmur either \<times> world" where
  "createRecDir params ignoreExists w =
     (case mkdirSync (recDir params) w of
        (Inr _, w1) \<Rightarrow> (Inr params, w1)
      | (Inl code, w1) \<Rightarrow>
          if ignoreExists \<and> code = ''EEXIST'' then (Inr params, w1) else (Inl code, w1))"

definition removeRecDir :: "murmur \<Rightarrow> world \<Rightarrow> unit either \<times> world" where
  "removeRecDir m w = rmdirSync (recDir m) w"

definition namesToRecFiles :: "string \<Rightarrow> string list \<Rightarrow> (string \<times> string) list" where
  "namesToRecFiles d names = map (\<lambda>name. (name, path_join d name)) names"

definition getRecordings :: "murmur \<Rightarrow> (string \<times> string) list fut" where
  "getRecordings m = fmap (namesToRecFiles (recDir m)) (readdirP (recDir m))"

subsection \<open>The table\<close>

definition insert_murmur_stmt :: "murmur \<Rightarrow> unit stmt" where
  "insert_murmur_stmt m d =
     (if unique_ok murmurId m (t_murmur d) \<and> unique_ok mur_sessionId m (t_murmur d)
         \<and> unique_ok recDir m (t_murmur d) \<and> unique_ok mur_grpcPort m (t_murmur d)
         \<and> unique_ok mur_murmurPort m (t_murmur d)
      then Inr ((), d\<lparr>t_murmur := t_murmur d @ [m]\<rparr>) else Inl sqlite_unique)"

definition insertMurmur :: "murmur \<Rightarrow> murmur fut" where
  "insertMurmur m = fmap (\<lambda>_. m) (withDb (insert_murmur_stmt m))"

definition delete_murmur_stmt :: "string \<Rightarrow> unit stmt" where
  "delete_murmur_stmt i d = Inr ((), d\<lparr>t_murmur := filter (\<lambda>m. murmurId m \<noteq> i) (t_murmur d)\<rparr>)"

definition deleteMurmur :: "murmur \<Rightarrow> murmur fut" where
  "deleteMurmur m = fmap (\<lambda>_. m) (withDb (delete_murmur_stmt (murmurId m)))"

definition getMurmurBySessionId :: "int \<Rightarrow> murmur fut" where
  "getMurmurBySessionId sid =
     fchain (\<lambda>murmurs. case murmurs of
         [] \<Rightarrow> reject (PlainError ''Murmur not found by sessionId.'')
       | m # _ \<Rightarrow> resolve m)
       (withDb (select_all (\<lambda>d. filter (\<lambda>m. mur_sessionId m = sid) (t_murmur d))))"

subsection \<open>The container\<close>

definition container_config :: "murmur \<Rightarrow> jsval" where
  "container_config m = JObj
     [(''Image'', JStr ''mumble_server''),
      (''ExposedPorts'', JObj [(''64738/tcp'', JObj []), (''64738/udp'', JObj []), (''50051'', JObj [])]),
      (''HostConfig'', JObj
        [(''Mounts'', JArr [JObj
            [(''Target'', JStr ''/var/hcc/rec/''), (''Source'', JStr (recDir m)),
             (''Type'', JStr ''bind''), (''ReadOnly'', JBool False)]]),
         (''PortBindings'', JObj
            [(''64738/udp'', JArr [JObj [(''HostPort'', JStr (show_int (mur_murmurPort m)))]]),
             (''64738/tcp'', JArr [JObj [(''HostPort'', JStr (show_int (mur_murmurPort m)))]]),
             (''50051'', JArr [JObj [(''HostPort'', JStr (show_int (mur_grpcPort m)))]])])])]"

text \<open>The result carries the container's id; \<open>x.Id\<close> raises when the answer's body is \<open>null\<close>.\<close>

definition createContainer :: "murmur \<Rightarrow> (jsval \<times> murmur) fut" where
  "createContainer m =
     fchain (\<lambda>x w. case js_prop x ''Id'' of
         Inl ex \<Rightarrow> (Inl (PlainError ''TypeError''), w\<lparr>crashed := Some ex\<rparr>)
       | Inr cid \<Rightarrow> (Inr (cid, m), w))
       (docker_create (murmurId m) (container_config m))"

definition createMurmur :: "int \<Rightarrow> int \<Rightarrow> int \<Rightarrow> (jsval \<times> murmur) fut" where
  "createMurmur grpc mur sid w =
     (let m = resolveMurmur (recDirRoot w) grpc mur sid
      in fmapRej (\<lambda>e. CreateMurmurError grpc mur sid (err_message e))
           (fchain createContainer
             (fchain (\<lambda>m w. case createRecDir m False w of (r, w1) \<Rightarrow> e2f_err r w1)
               (insertMurmur m))) w)"

definition removeContainer :: "murmur \<Rightarrow> jsval list fut" where
  "removeContainer m =
     fchain (\<lambda>ids. case ids of i # _ \<Rightarrow> docker_rm [i] | [] \<Rightarrow> resolve []) (docker_stop [murmurId m])"

text \<open>
  The array of futures is built before any of them runs, and building its second element removes the
  directory: that happens before the container is stopped.
\<close>

definition removeMurmur :: "murmur \<Rightarrow> murmur fut" where
  "removeMurmur m w =
     (let (r, w1) = removeRecDir m w
      in fchain (\<lambda>_. deleteMurmur m)
           (parallel1 [fmap (\<lambda>x. map_sum id (\<lambda>_. ()) x) (fcoalesce (removeContainer m)),
                       fcoalesce (e2f_err r)]) w1)"

definition removeSessionMurmur :: "session \<Rightarrow> session fut" where
  "removeSessionMurmur s =
     fmap (\<lambda>_. s) (fchain removeMurmur (getMurmurBySessionId (sessionId s)))"

definition initMurmur :: "murmur \<Rightarrow> murmur fut" where
  "initMurmur m w =
     (case createRecDir m True w of
        (r, w1) \<Rightarrow> fmap (\<lambda>_. m) (fchain (\<lambda>_. docker_start (murmurId m)) (e2f_err r)) w1)"

lemmas murmur_defs [model_defs] =
  insertMurmur_def deleteMurmur_def getMurmurBySessionId_def createContainer_def createMurmur_def
  removeContainer_def removeMurmur_def removeSessionMurmur_def initMurmur_def createRecDir_def
  removeRecDir_def mkdirSync_def rmdirSync_def

subsection \<open>Names determine their ports\<close>

lemma show_int_digits: "c \<in> set (show_int i) \<Longrightarrow> c = CHR ''-'' \<or> of_char c \<in> {48 .. (57 :: nat)}"
  by (auto simp: show_int_def split: if_splits dest: show_nat_digits)

lemma show_int_no_underscore: "CHR ''_'' \<notin> set (show_int i)"
  using show_int_digits [of "CHR ''_''" i] by auto

lemma show_int_no_slash: "CHR ''/'' \<notin> set (show_int i)"
  using show_int_digits [of "CHR ''/''" i] by auto

lemma append_sep_inj:
  "c \<notin> set xs \<Longrightarrow> c \<notin> set xs' \<Longrightarrow> xs @ c # ys = xs' @ c # ys' \<Longrightarrow> xs = xs' \<and> ys = ys'"
  by (induction xs arbitrary: xs') (auto simp: Cons_eq_append_conv append_eq_Cons_conv)

lemma murmur_id_inj: "murmur_id a b = murmur_id c d \<longleftrightarrow> a = c \<and> b = d"
proof
  assume "murmur_id a b = murmur_id c d"
  then have eq: "show_int a @ CHR ''_'' # (CHR ''m'' # show_int b) = show_int c @ CHR ''_'' # (CHR ''m'' # show_int d)"
    by (simp add: murmur_id_def)
  from append_sep_inj [OF show_int_no_underscore show_int_no_underscore eq]
  show "a = c \<and> b = d" by (auto dest: show_int_inj)
qed simp

lemma plain_murmur_id: "plain (murmur_id a b)"
  using show_int_no_slash by (auto simp: plain_def murmur_id_def)

lemma recDir_resolve:
  "resolved_dir root \<Longrightarrow> recDir (resolveMurmur root a b sid) = root @ ''/'' @ murmur_id a b"
  by (simp add: resolveMurmur_def path_resolve_plain plain_murmur_id)

lemma recDir_inj:
  "resolved_dir root \<Longrightarrow> recDir (resolveMurmur root a b s) = recDir (resolveMurmur root c d t)
     \<longleftrightarrow> a = c \<and> b = d"
  by (simp add: recDir_resolve murmur_id_inj)

subsection \<open>The table keeps its constraints\<close>

lemma insert_murmur_ok: "stmt_ok (insert_murmur_stmt m)"
  by (auto simp: stmt_ok_def insert_murmur_stmt_def db_ok_def unique_ok_def split: if_splits)

lemma delete_murmur_ok: "stmt_ok (delete_murmur_stmt i)"
  by (auto simp: stmt_ok_def delete_murmur_stmt_def db_ok_def distinct_map_filter_key)

lemma mkdirSync_db [simp]: "db (snd (mkdirSync d w)) = db w"
  by (simp add: mkdirSync_def)

lemma rmdirSync_db [simp]: "db (snd (rmdirSync d w)) = db w"
  by (simp add: rmdirSync_def split: option.split)

lemma createRecDir_db [simp]: "db (snd (createRecDir m b w)) = db w"
  by (simp add: createRecDir_def mkdirSync_def split: option.split)

lemma removeRecDir_db [simp]: "db (snd (removeRecDir m w)) = db w"
  by (simp add: removeRecDir_def)

lemma keeps_createRecDir [keeps_intros]:
  "keeps (\<lambda>w. P (db w)) (\<lambda>w. case createRecDir m b w of (r, w1) \<Rightarrow> e2f_err r w1)"
  by (auto simp: keeps_def case_prod_unfold)

lemma keeps_createContainer [keeps_intros]: "keeps (\<lambda>w. P (db w)) (createContainer m)"
  unfolding createContainer_def
  by (intro keeps_intros) (auto simp: keeps_def split: sum.split)

lemma keeps_createMurmur [keeps_intros]: "keeps (\<lambda>w. db_ok (db w)) (createMurmur a b c)"
proof -
  have "keeps (\<lambda>w. db_ok (db w)) (fmapRej f (fchain createContainer
     (fchain (\<lambda>m w. case createRecDir m False w of (r, w1) \<Rightarrow> e2f_err r w1) (insertMurmur m))))" for f m
    unfolding insertMurmur_def by (intro keeps_intros insert_murmur_ok)
  then show ?thesis unfolding keeps_def createMurmur_def Let_def by blast
qed

lemma keeps_removeContainer [keeps_intros]: "keeps (\<lambda>w. P (db w)) (removeContainer m)"
  unfolding removeContainer_def by (intro keeps_intros) (auto split: list.split intro: keeps_intros)

lemma keeps_removeMurmur [keeps_intros]: "keeps (\<lambda>w. db_ok (db w)) (removeMurmur m)"
proof -
  have "keeps (\<lambda>w. db_ok (db w)) (fchain (\<lambda>_. deleteMurmur m)
      (parallel1 [fmap (\<lambda>x. map_sum id (\<lambda>_. ()) x) (fcoalesce (removeContainer m)),
                       fcoalesce (e2f_err r)]))" for r
    unfolding deleteMurmur_def
    by (intro keeps_intros delete_murmur_ok) (auto intro!: keeps_intros)
  then show ?thesis
    unfolding keeps_def removeMurmur_def Let_def by (auto simp: case_prod_unfold)
qed

lemma keeps_removeSessionMurmur [keeps_intros]: "keeps (\<lambda>w. db_ok (db w)) (removeSessionMurmur s)"
  unfolding removeSessionMurmur_def getMurmurBySessionId_def
  by (intro keeps_intros select_all_ok) (auto split: list.split intro: keeps_intros)

lemma keeps_initMurmur [keeps_intros]: "keeps (\<lambda>w. P (db w)) (initMurmur m)"
proof -
  have step: "keeps (\<lambda>w. P (db w)) (fmap (\<lambda>_. m) (fchain (\<lambda>_. docker_start (murmurId m)) (e2f_err r)))"
    for r :: "murmur either"
    by (intro keeps_intros)
  show ?thesis
    unfolding keeps_def
  proof (intro allI impI)
    fix w :: world assume "P (db w)"
    then show "P (db (snd (initMurmur m w)))"
      using keepsD [OF step, of "snd (createRecDir m True w)" "fst (createRecDir m True w)"]
      by (simp add: initMurmur_def case_prod_unfold)
  qed
qed

end
