(* ===== verification/Store.thy ===== *)
theory Store
  imports Murmur
begin

text \<open>
  Where games live outside their objects: the array \<open>memGames\<close> of the games in memory and the
  table \<open>game\<close>, with the functions of \<open>server/src/lib/game.ts\<close> that keep them, and the rows of
  the table \<open>attack\<close> that \<open>createGame\<close> writes through \<open>server/src/lib/attacklib.ts\<close>.
\<close>

subsection \<open>Arrays looked up by a key\<close>

text \<open>The three operations on \<open>memGames\<close>, for any key: \<open>getGame\<close>, \<open>setMemGame\<close>, \<open>removeMemGame\<close>.\<close>

definition mem_get :: "('v \<Rightarrow> 'k) \<Rightarrow> 'k \<Rightarrow> 'v list \<Rightarrow> 'v option" where
  "mem_get key k xs = List.find (\<lambda>x. key x = k) xs"

definition mem_set :: "('v \<Rightarrow> 'k) \<Rightarrow> 'v \<Rightarrow> 'v list \<Rightarrow> 'v list" where
  "mem_set key v xs =
     (let i = find_index (\<lambda>x. key x = key v) xs
      in if i \<noteq> -1 then xs[nat i := v] else xs @ [v])"

definition mem_remove :: "('v \<Rightarrow> 'k) \<Rightarrow> 'v \<Rightarrow> 'v list \<Rightarrow> 'v list" where
  "mem_remove key v xs = splice1 (find_index (\<lambda>x. key x = key v) xs) xs"

definition mem_ok :: "('v \<Rightarrow> 'k) \<Rightarrow> 'v list \<Rightarrow> bool" where
  "mem_ok key xs \<longleftrightarrow> distinct (map key xs)"

text \<open>
  A store that holds one value per key. Removal keeps the other keys only when the key to remove is
  present: \<open>splice(-1, 1)\<close> removes another one.
\<close>

locale keyed_store =
  fixes key :: "'v \<Rightarrow> 'k"
    and ok :: "'s \<Rightarrow> bool"
    and get :: "'k \<Rightarrow> 's \<Rightarrow> 'v option"
    and put :: "'v \<Rightarrow> 's \<Rightarrow> 's"
    and del :: "'v \<Rightarrow> 's \<Rightarrow> 's"
  assumes get_key: "get k s = Some v \<Longrightarrow> key v = k"
    and put_ok: "ok s \<Longrightarrow> ok (put v s)"
    and get_put: "ok s \<Longrightarrow> get k (put v s) = (if k = key v then Some v else get k s)"
    and del_ok: "ok s \<Longrightarrow> ok (del v s)"
    and get_del: "ok s \<Longrightarrow> get (key v) s \<noteq> None \<Longrightarrow>
          get k (del v s) = (if k = key v then None else get k s)"
begin

text \<open>After any number of puts, what is found under a key is the last value that was put there.\<close>

lemma find_snoc: "List.find P (xs @ [x]) = (case List.find P xs of Some y \<Rightarrow> Some y | None \<Rightarrow> if P x then Some x else None)"
  by (induction xs) simp_all

lemma get_puts:
  "ok s \<Longrightarrow> get k (fold put vs s) =
    (case List.find (\<lambda>v. key v = k) (rev vs) of Some v \<Rightarrow> Some v | None \<Rightarrow> get k s)"
  by (induction vs arbitrary: s) (auto simp: put_ok get_put find_snoc split: option.split)

lemma put_put: "ok s \<Longrightarrow> key v = key v' \<Longrightarrow> get k (put v (put v' s)) = get k (put v s)"
  by (simp add: get_put put_ok)

lemma del_put: "ok s \<Longrightarrow> get (key v) s = None \<Longrightarrow> get k (del v (put v s)) = get k s"
  by (simp add: get_put put_ok get_del)

lemma puts_get: "ok s \<Longrightarrow> distinct (map key vs) \<Longrightarrow> v \<in> set vs \<Longrightarrow> get (key v) (fold put vs s) = Some v"
proof (induction vs arbitrary: s rule: rev_induct)
  case Nil
  then show ?case by simp
next
  case (snoc x xs)
  have ok: "ok (fold put xs s)" using snoc.prems(1)
    by (induction xs arbitrary: s) (simp_all add: put_ok)
  show ?case
  proof (cases "v = x")
    case True
    then show ?thesis using ok by (simp add: get_put)
  next
    case False
    then have "v \<in> set xs" "key v \<noteq> key x" using snoc.prems by (auto simp: image_iff)
    then show ?thesis using snoc.IH [OF snoc.prems(1)] snoc.prems(2) ok by (simp add: get_put)
  qed
qed

lemma puts_ok: "ok s \<Longrightarrow> ok (fold put vs s)"
  by (induction vs arbitrary: s) (simp_all add: put_ok)

end

lemma find_distinct_key:
  "distinct (map key xs) \<Longrightarrow> x \<in> set xs \<Longrightarrow> List.find (\<lambda>y. key y = key x) xs = Some x"
  by (rule find_unique)

lemma find_None_key: "List.find (\<lambda>y. key y = k) xs = None \<longleftrightarrow> k \<notin> key ` set xs"
  by (auto simp: find_None_iff)

lemma mem_get_Some: "mem_get key k xs = Some v \<Longrightarrow> v \<in> set xs \<and> key v = k"
  by (auto simp: mem_get_def find_Some_iff)

lemma mem_get_None: "mem_get key k xs = None \<longleftrightarrow> k \<notin> key ` set xs"
  by (simp add: mem_get_def find_None_key)

lemma mem_get_eq_iff: "mem_ok key xs \<Longrightarrow> mem_get key k xs = Some v \<longleftrightarrow> v \<in> set xs \<and> key v = k"
  using mem_get_Some find_distinct_key [of key xs v] by (fastforce simp: mem_get_def mem_ok_def)

text \<open>Where \<open>setMemGame\<close> and \<open>removeMemGame\<close> find the key, split the array there.\<close>

lemma mem_set_present:
  assumes "key v \<in> key ` set xs"
  obtains ys x zs where "xs = ys @ x # zs" "key x = key v" "key v \<notin> key ` set ys"
    "mem_set key v xs = ys @ v # zs" "mem_remove key v xs = ys @ zs"
proof -
  have ex: "\<exists>x \<in> set xs. key x = key v" using assms by auto
  then have "0 \<le> find_index (\<lambda>x. key x = key v) xs" by (simp add: find_index_nonneg_iff)
  then obtain k where k: "find_index (\<lambda>x. key x = key v) xs = int k" using nonneg_int_cases by blast
  note nth = find_index_nth [OF k] and before = find_index_first [OF k]
  have kl: "k < length xs" using nth by simp
  have split: "xs = take k xs @ xs ! k # drop (Suc k) xs" using kl by (rule id_take_nth_drop)
  have "mem_set key v xs = take k xs @ v # drop (Suc k) xs"
    using k kl by (simp add: mem_set_def Let_def upd_conv_take_nth_drop)
  moreover have "mem_remove key v xs = take k xs @ drop (Suc k) xs"
    using k by (simp add: mem_remove_def splice1_nat)
  moreover have "key v \<notin> key ` set (take k xs)"
    using before kl by (force simp: in_set_conv_nth)
  ultimately show ?thesis using that [OF split] nth by simp
qed

lemma mem_set_absent: "key v \<notin> key ` set xs \<Longrightarrow> mem_set key v xs = xs @ [v]"
  by (auto simp: mem_set_def Let_def find_index_minus1_iff image_iff)

lemma mem_remove_absent: "key v \<notin> key ` set xs \<Longrightarrow> mem_remove key v xs = butlast xs"
proof -
  assume "key v \<notin> key ` set xs"
  then have "find_index (\<lambda>x. key x = key v) xs = -1" by (auto simp: find_index_minus1_iff image_iff)
  then show ?thesis by (simp add: mem_remove_def splice1_minus1)
qed

lemma mem_set_ok: "mem_ok key xs \<Longrightarrow> mem_ok key (mem_set key v xs)"
proof (cases "key v \<in> key ` set xs")
  case True
  then show "mem_ok key xs \<Longrightarrow> ?thesis"
    by (rule mem_set_present) (auto simp: mem_ok_def)
qed (auto simp: mem_set_absent mem_ok_def)

lemma mem_remove_ok: "mem_ok key xs \<Longrightarrow> mem_ok key (mem_remove key v xs)"
proof (cases "key v \<in> key ` set xs")
  case True
  then show "mem_ok key xs \<Longrightarrow> ?thesis"
    by (rule mem_set_present) (auto simp: mem_ok_def)
next
  case False
  then show "mem_ok key xs \<Longrightarrow> ?thesis"
    by (auto simp: mem_remove_absent mem_ok_def map_butlast distinct_butlast)
qed

lemma set_mem_set: "mem_ok key xs \<Longrightarrow> set (mem_set key v xs) = {x \<in> set xs. key x \<noteq> key v} \<union> {v}"
proof (cases "key v \<in> key ` set xs")
  case True
  then show "mem_ok key xs \<Longrightarrow> ?thesis"
    by (rule mem_set_present) (auto simp: mem_ok_def image_iff)
qed (auto simp: mem_set_absent image_iff)

lemma set_mem_remove:
  "mem_ok key xs \<Longrightarrow> key v \<in> key ` set xs \<Longrightarrow>
     set (mem_remove key v xs) = {x \<in> set xs. key x \<noteq> key v}"
  by (erule mem_set_present) (auto simp: mem_ok_def image_iff)

lemma mem_get_set:
  assumes "mem_ok key xs"
  shows "mem_get key k (mem_set key v xs) = (if k = key v then Some v else mem_get key k xs)"
proof -
  have "mem_get key k (mem_set key v xs) = Some u \<longleftrightarrow>
      (if k = key v then Some v else mem_get key k xs) = Some u" for u
    using assms mem_set_ok [OF assms] by (auto simp: mem_get_eq_iff set_mem_set)
  then show ?thesis by (metis not_Some_eq)
qed

lemma mem_get_remove:
  assumes "mem_ok key xs" "key v \<in> key ` set xs"
  shows "mem_get key k (mem_remove key v xs) = (if k = key v then None else mem_get key k xs)"
proof -
  have "mem_get key k (mem_remove key v xs) = Some u \<longleftrightarrow>
      (if k = key v then None else mem_get key k xs) = Some u" for u
    using assms mem_remove_ok [OF assms(1)] by (auto simp: mem_get_eq_iff set_mem_remove)
  then show ?thesis by (metis not_Some_eq)
qed

interpretation mem: keyed_store key "mem_ok key" "mem_get key" "mem_set key" "mem_remove key"
  for key :: "'v \<Rightarrow> 'k"
  by unfold_locales
     (auto simp: mem_set_ok mem_remove_ok mem_get_set mem_get_remove mem_get_None
       dest: mem_get_Some)

end
