(* ===== verification/GameStore.thy ===== *)
theory GameStore
  imports Store
begin

text \<open>
  The rest of \<open>server/src/lib/game.ts\<close>: the games in memory and the rows of the table \<open>game\<close>,
  \<open>createGame\<close> with the attacks it inserts (\<open>createAttack\<close>, \<open>insertAttack\<close> of
  \<open>server/src/lib/attacklib.ts\<close>), \<open>initGame\<close> and \<open>removeSessionGames\<close>. A game object is the index
  of its entry in \<open>objs\<close>.
\<close>

subsection \<open>Games in memory\<close>

definition game_key :: "world \<Rightarrow> nat \<Rightarrow> string" where
  "game_key w i = gameId (objs w ! i)"

definition getGames :: "world \<Rightarrow> nat list" where
  "getGames w = memGames w"

definition getGame :: "string \<Rightarrow> world \<Rightarrow> nat either" where
  "getGame gid w =
     (case mem_get (game_key w) gid (memGames w) of
        None \<Rightarrow> Inl ''Game not found.''
      | Some i \<Rightarrow> Inr i)"

definition setMemGame :: "nat \<Rightarrow> world \<Rightarrow> world" where
  "setMemGame i w = w\<lparr>memGames := mem_set (game_key w) i (memGames w)\<rparr>"

definition removeMemGame :: "nat \<Rightarrow> world \<Rightarrow> world" where
  "removeMemGame i w = w\<lparr>memGames := mem_remove (game_key w) i (memGames w)\<rparr>"

text \<open>A method call on the object \<open>i\<close>; \<open>None\<close> when it raised an exception nothing catches.\<close>

definition on_object :: "nat \<Rightarrow> (gst \<Rightarrow> exn + 'r \<times> gst) \<Rightarrow> world \<Rightarrow> 'r option \<times> world" where
  "on_object i f w =
     (case f (objs w ! i, genv w) of
        Inl ex \<Rightarrow> (None, w\<lparr>crashed := Some ex\<rparr>)
      | Inr (r, (g, e)) \<Rightarrow> (Some r, w\<lparr>objs := (objs w)[i := g], genv := e\<rparr>))"

subsection \<open>The table\<close>

record game_row =
  gr_gameId :: string
  gr_sessionId :: int
  gr_data :: game_data
  gr_isCurrent :: bool
  gr_order :: int

definition parseJSON :: "game_text \<Rightarrow> game_data either" where
  "parseJSON arg =
     (case arg of
        GameText gd \<Rightarrow> Inr gd
      | BadText t \<Rightarrow> Inl (''Unexpected token'' @ [char_of (10 :: nat)] @ ''Input:'' @ t))"

definition normalizeGameRow :: "db_game \<Rightarrow> game_row either" where
  "normalizeGameRow r =
     mapR (\<lambda>gd. \<lparr>gr_gameId = row_gameId r, gr_sessionId = row_sessionId r, gr_data = gd,
                 gr_isCurrent = row_isCurrent r, gr_order = row_order r\<rparr>) (parseJSON (row_data r))"

definition insert_game_stmt :: "db_game \<Rightarrow> unit stmt" where
  "insert_game_stmt r d =
     (if unique_ok row_gameId r (t_game d) then Inr ((), d\<lparr>t_game := t_game d @ [r]\<rparr>)
      else Inl sqlite_unique)"

definition update_game_stmt :: "string \<Rightarrow> game_data \<Rightarrow> unit stmt" where
  "update_game_stmt gid gd d =
     Inr ((), d\<lparr>t_game := map (\<lambda>r. if row_gameId r = gid then r\<lparr>row_data := GameText gd\<rparr> else r) (t_game d)\<rparr>)"

definition delete_game_stmt :: "string \<Rightarrow> unit stmt" where
  "delete_game_stmt gid d = Inr ((), d\<lparr>t_game := filter (\<lambda>r. row_gameId r \<noteq> gid) (t_game d)\<rparr>)"

text \<open>
  \<open>saveGame\<close> reads the state when it is called and writes it when its future runs; \<open>save_row\<close> is
  that future, for the id and state a \<open>SaveGame\<close> effect carries.
\<close>

definition save_row :: "string \<Rightarrow> game_data \<Rightarrow> unit fut" where
  "save_row gid gd = withDb (update_game_stmt gid gd)"

definition removeGame :: "nat \<Rightarrow> nat fut" where
  "removeGame i w =
     fchain (\<lambda>_ w'. (Inr i, removeMemGame i w')) (withDb (delete_game_stmt (game_key w i))) w"

definition insertGame :: "game_row \<Rightarrow> game_row fut" where
  "insertGame p =
     fmap (\<lambda>_. p)
       (withDb (insert_game_stmt
         \<lparr>row_gameId = gr_gameId p, row_data = GameText (gr_data p), row_isCurrent = gr_isCurrent p,
          row_sessionId = gr_sessionId p, row_order = gr_order p\<rparr>))"

definition getSessionGames :: "int \<Rightarrow> game_row list fut" where
  "getSessionGames sid =
     fchain parallel1
       (fmap (\<lambda>rows. map (\<lambda>r. e2f_err (normalizeGameRow r)) rows)
         (withDb (select_all (\<lambda>d. filter (\<lambda>r. row_sessionId r = sid) (t_game d)))))"

subsection \<open>Attacks of a new game\<close>

definition insert_attack_stmt :: "attack \<Rightarrow> int stmt" where
  "insert_attack_stmt a d =
     (let i = next_rowid (map attackId (t_attack d))
      in Inr (i, d\<lparr>t_attack := t_attack d @ [a\<lparr>attackId := i\<rparr>]\<rparr>))"

text \<open>\<open>insertAttack\<close>: the \<open>attackId\<close> of its argument is not used.\<close>

definition insertAttack :: "attack \<Rightarrow> attack fut" where
  "insertAttack a = fmap (\<lambda>i. a\<lparr>attackId := i\<rparr>) (withDb (insert_attack_stmt a))"

definition createAttack :: "game_row \<Rightarrow> int \<Rightarrow> int \<Rightarrow> attack fut" where
  "createAttack gameRow attackSolution roundIndex w =
     (case map playerId (gd_players (gr_data gameRow)) of
        source # target # _ \<Rightarrow>
          insertAttack
            \<lparr>attackId = 0, att_sessionId = gr_sessionId gameRow, att_gameId = gd_gameId (gr_data gameRow),
             att_round = roundIndex, sourceUser = source, targetUser = target,
             audioPath = path_resolve (fakesDir w) [source, show_int attackSolution @ ''.wav'']\<rparr> w
      | _ \<Rightarrow> (Inl (PlainError ''TypeError''), w\<lparr>crashed := Some TypeError\<rparr>))"

definition createGameAttacks :: "round_data list \<Rightarrow> game_row \<Rightarrow> game_row fut" where
  "createGameAttacks schedule gameRow =
     fmap (\<lambda>_. gameRow)
       (parallel1 (concat (map (\<lambda>(roundIndex, roundData).
            case rd_attack roundData of
              None \<Rightarrow> []
            | Some attack \<Rightarrow> [createAttack gameRow attack (int roundIndex)])
          (enumerate 0 schedule))))"

subsection \<open>Creating and initialising games\<close>

text \<open>\<open>new Game({gameId, players, rounds})\<close>: a new object and its \<open>state()\<close>.\<close>

definition alloc_game :: "string \<Rightarrow> player list \<Rightarrow> round list \<Rightarrow> game_data fut" where
  "alloc_game gid ps rs w =
     (let g = new_Game (length (objs w)) gid ps rs None None
      in (Inr (state g), w\<lparr>objs := objs w @ [g]\<rparr>))"

text \<open>\<open>createGame\<close> draws the id of the game when it is called, before its future runs.\<close>

definition createGame ::
  "string \<Rightarrow> string \<Rightarrow> int \<Rightarrow> int \<Rightarrow> round_data list \<Rightarrow> bool \<Rightarrow> world \<Rightarrow> game_row fut \<times> world" where
  "createGame blue red sid gameOrder schedule isCurrent w =
     (let gid = uuids w (uuid_count w);
          w1 = w\<lparr>uuid_count := Suc (uuid_count w)\<rparr>;
          ps = map (\<lambda>p. createPlayer (Inl p)) [blue, red]
      in (fchain (createGameAttacks schedule)
           (fchain (\<lambda>gd. insertGame \<lparr>gr_gameId = gid, gr_sessionId = sid, gr_data = gd,
                                     gr_isCurrent = isCurrent, gr_order = gameOrder\<rparr>)
             (fchain (alloc_game gid ps) (e2f_err (aoe2ea (map createRound schedule))))), w1))"

definition initGame :: "game_data \<Rightarrow> world \<Rightarrow> nat either \<times> world" where
  "initGame gd w =
     (let i = length (objs w)
      in case deserializeGame i gd (genv w) of
           Inl ex \<Rightarrow> (Inl ''exception'', w\<lparr>crashed := Some ex\<rparr>)
         | Inr (Inl m, e) \<Rightarrow> (Inl m, w\<lparr>genv := e\<rparr>)
         | Inr (Inr g, e) \<Rightarrow> (Inr i, setMemGame i (w\<lparr>objs := objs w @ [g], genv := e\<rparr>)))"

fun init_games :: "game_data list \<Rightarrow> world \<Rightarrow> nat either list \<times> world" where
  "init_games [] w = ([], w)"
| "init_games (gd # gds) w =
     (let (r, w1) = initGame gd w; (rs, w2) = init_games gds w1 in (r # rs, w2))"

text \<open>\<open>sort((a, b) => a.gameOrder - b.gameOrder)\<close> is stable.\<close>

definition initGameRows :: "game_row list \<Rightarrow> world \<Rightarrow> nat list either \<times> world" where
  "initGameRows gRows w =
     (let (rs, w1) = init_games (map gr_data (sort_key gr_order gRows)) w in (aoe2ea rs, w1))"

text \<open>The games are all looked up before any is removed; one that is not in memory fails the whole.\<close>

definition removeSessionGames :: "session \<Rightarrow> session fut" where
  "removeSessionGames s =
     fmap (\<lambda>_. s)
       (fchain (\<lambda>gameRows w.
           fchain (\<lambda>games. parallel1 (map removeGame games))
             (e2f_err (aoe2ea (map (\<lambda>g. getGame (gr_gameId g) w) gameRows))) w)
         (getSessionGames (sessionId s)))"

lemmas game_store_defs [model_defs] =
  getGame_def setMemGame_def removeMemGame_def parseJSON_def normalizeGameRow_def removeGame_def
  insertGame_def getSessionGames_def insertAttack_def createAttack_def createGameAttacks_def
  alloc_game_def createGame_def initGame_def initGameRows_def removeSessionGames_def

subsection \<open>The table keeps its constraints\<close>

lemma insert_game_ok: "stmt_ok (insert_game_stmt r)"
  by (auto simp: stmt_ok_def insert_game_stmt_def db_ok_def unique_ok_def split: if_splits)

lemma update_game_ids:
  "map row_gameId (map (\<lambda>r. if row_gameId r = gid then r\<lparr>row_data := t\<rparr> else r) rs) = map row_gameId rs"
  by (induction rs) auto

lemma update_game_ok: "stmt_ok (update_game_stmt gid gd)"
  by (auto simp: stmt_ok_def update_game_stmt_def db_ok_def update_game_ids simp del: map_map)

lemma delete_game_ok: "stmt_ok (delete_game_stmt gid)"
  by (auto simp: stmt_ok_def delete_game_stmt_def db_ok_def distinct_map_filter_key)

lemma insert_attack_ok: "stmt_ok (insert_attack_stmt a)"
proof -
  have "next_rowid (map attackId as) \<noteq> attackId x" if "x \<in> set as" for as and x :: attack
    using next_rowid_fresh [of "map attackId as"] that by auto
  then show ?thesis by (auto simp: stmt_ok_def insert_attack_stmt_def db_ok_def Let_def)
qed

lemma keeps_getSessionGames [keeps_intros]: "keeps (\<lambda>w. db_ok (db w)) (getSessionGames sid)"
proof -
  have rows: "keeps (\<lambda>w. db_ok (db w)) (parallel1 (map (\<lambda>r. e2f_err (normalizeGameRow r)) rows))" for rows
    by (rule keeps_parallel1) (auto intro: keeps_e2f)
  show ?thesis unfolding getSessionGames_def fchain_fmap
    by (rule keeps_fchain [OF keeps_withDb rows]) simp
qed

lemma removeMemGame_frame [frame, simp]:
  "db (removeMemGame i w) = db w" "objs (removeMemGame i w) = objs w" "genv (removeMemGame i w) = genv w"
  by (simp_all add: removeMemGame_def)

lemma setMemGame_frame [frame, simp]:
  "db (setMemGame i w) = db w" "objs (setMemGame i w) = objs w" "genv (setMemGame i w) = genv w"
  "crashed (setMemGame i w) = crashed w"
  by (simp_all add: setMemGame_def)

lemma keeps_removeGame [keeps_intros]: "keeps (\<lambda>w. db_ok (db w)) (removeGame i)"
  unfolding keeps_def removeGame_def
  using withDb_ok [OF delete_game_ok]
  by (auto simp: fchain_def split: prod.split sum.split) (metis snd_conv)+

lemma keeps_insertGame [keeps_intros]: "keeps (\<lambda>w. db_ok (db w)) (insertGame p)"
  unfolding insertGame_def by (intro keeps_intros insert_game_ok)

lemma keeps_insertAttack [keeps_intros]: "keeps (\<lambda>w. db_ok (db w)) (insertAttack a)"
  unfolding insertAttack_def by (intro keeps_intros insert_attack_ok)

lemma keeps_createAttack [keeps_intros]: "keeps (\<lambda>w. db_ok (db w)) (createAttack r a i)"
  using keepsD [OF keeps_insertAttack] by (auto simp: keeps_def createAttack_def split: list.split)

lemma keeps_createGameAttacks [keeps_intros]: "keeps (\<lambda>w. db_ok (db w)) (createGameAttacks sch r)"
  unfolding createGameAttacks_def
  by (intro keeps_intros) (auto intro: keeps_intros split: option.splits)

lemma keeps_createGame: "keeps (\<lambda>w. db_ok (db w)) (fst (createGame blue red sid ord sch cur w))"
proof -
  have "keeps (\<lambda>w. db_ok (db w)) (alloc_game gid ps rs)" for gid ps rs
    by (simp add: keeps_def alloc_game_def Let_def)
  then show ?thesis by (auto simp: createGame_def Let_def intro!: keeps_intros)
qed

lemma keeps_removeSessionGames [keeps_intros]: "keeps (\<lambda>w. db_ok (db w)) (removeSessionGames s)"
proof -
  have "keeps (\<lambda>w. db_ok (db w)) (fchain (\<lambda>games. parallel1 (map removeGame games)) (e2f_err x))" for x
    by (intro keeps_intros) (auto intro: keeps_intros)
  then have "keeps (\<lambda>w. db_ok (db w)) (\<lambda>w. fchain (\<lambda>games. parallel1 (map removeGame games))
             (e2f_err (aoe2ea (map (\<lambda>g. getGame (gr_gameId g) w) gameRows))) w)" for gameRows
    by (simp add: keeps_def)
  then show ?thesis unfolding removeSessionGames_def by (intro keeps_intros)
qed

end
