(* ===== verification/Sessions.thy ===== *)
theory Sessions
  imports GameStore Schedules
begin

text \<open>
  \<open>server/src/lib/session.ts\<close>: a study session is a row of \<open>study_session\<close>, four rows of
  \<open>game\<close> with their attacks, and a voice server. Creation, removal after a failure, removal,
  initialisation at start-up, the current game; and \<open>scheduleAttack\<close> and the queries of
  \<open>attacklib.ts\<close>.
\<close>

subsection \<open>Rows\<close>

definition insert_session_stmt :: "session \<Rightarrow> int stmt" where
  "insert_session_stmt s d =
     (let i = next_rowid (map sessionId (t_session d))
      in if unique_ok blueParticipant s (t_session d) \<and> unique_ok redParticipant s (t_session d)
            \<and> unique_ok grpcPort s (t_session d) \<and> unique_ok murmurPort s (t_session d)
         then Inr (i, d\<lparr>t_session := t_session d @ [s\<lparr>sessionId := i\<rparr>]\<rparr>)
         else Inl sqlite_unique)"

text \<open>The \<open>sessionId\<close> of the argument is not used.\<close>

definition insertSession :: "session \<Rightarrow> session fut" where
  "insertSession s = fmap (\<lambda>i. s\<lparr>sessionId := i\<rparr>) (withDb (insert_session_stmt s))"

definition getSessions :: "session list fut" where
  "getSessions = withDb (select_all t_session)"

definition getPlayerSession :: "string \<Rightarrow> session fut" where
  "getPlayerSession pid =
     fchain (\<lambda>sessions.
        case List.find (\<lambda>s. blueParticipant s = pid \<or> redParticipant s = pid) sessions of
          None \<Rightarrow> reject (PlainError ''Player session not found.'')
        | Some s \<Rightarrow> resolve s) getSessions"

definition getSessionById :: "int \<Rightarrow> session fut" where
  "getSessionById sid = fchain (\<lambda>ss. e2f_err (find_e (\<lambda>s. sessionId s = sid) ss)) getSessions"

definition delete_session_stmt :: "int \<Rightarrow> unit stmt" where
  "delete_session_stmt sid d = Inr ((), d\<lparr>t_session := filter (\<lambda>s. sessionId s \<noteq> sid) (t_session d)\<rparr>)"

definition deleteSession :: "session \<Rightarrow> session fut" where
  "deleteSession s = fmap (\<lambda>_. s) (withDb (delete_session_stmt (sessionId s)))"

subsection \<open>Attacks\<close>

definition getAttacks :: "attack list fut" where
  "getAttacks = withDb (select_all t_attack)"

definition delete_attacks_stmt :: "int \<Rightarrow> unit stmt" where
  "delete_attacks_stmt sid d = Inr ((), d\<lparr>t_attack := filter (\<lambda>a. att_sessionId a \<noteq> sid) (t_attack d)\<rparr>)"

definition deleteSessionAttacks :: "session \<Rightarrow> session fut" where
  "deleteSessionAttacks s = fmap (\<lambda>_. s) (withDb (delete_attacks_stmt (sessionId s)))"

text \<open>Registering a closure on a game object.\<close>

definition listen :: "nat \<Rightarrow> game_event \<Rightarrow> listener \<Rightarrow> world \<Rightarrow> world" where
  "listen i ev l w =
     w\<lparr>objs := (objs w)[i := (objs w ! i)\<lparr>cbMap := on ev l (cbMap (objs w ! i))\<rparr>]\<rparr>"

text \<open>An attack whose game is not in memory is not scheduled, and that is no error.\<close>

definition scheduleAttack :: "attack \<Rightarrow> attack fut" where
  "scheduleAttack a =
     fchain (\<lambda>s w. case getGame (att_gameId a) w of
          Inl _ \<Rightarrow> (Inr a, w)
        | Inr i \<Rightarrow> (Inr a, listen i EvRound (AttackListener a (grpcPort s)) w))
       (fchain (\<lambda>ss. e2f_err (find_e (\<lambda>s. sessionId s = att_sessionId a) ss)) getSessions)"

definition initAttacks :: "attack list fut" where
  "initAttacks = fchain (\<lambda>as. parallel1 (map scheduleAttack as)) getAttacks"

subsection \<open>The current game\<close>

text \<open>The two updates are one transaction.\<close>

definition set_current_stmt :: "int \<Rightarrow> string \<Rightarrow> unit stmt" where
  "set_current_stmt sid gid d =
     Inr ((), d\<lparr>t_game :=
       map (\<lambda>r. if row_gameId r = gid then r\<lparr>row_isCurrent := True\<rparr> else r)
         (map (\<lambda>r. if row_sessionId r = sid then r\<lparr>row_isCurrent := False\<rparr> else r) (t_game d))\<rparr>)"

definition setCurrentGame :: "int \<Rightarrow> string \<Rightarrow> unit fut" where
  "setCurrentGame sid gid = withDb (set_current_stmt sid gid)"

definition getCurrentGame :: "int \<Rightarrow> nat fut" where
  "getCurrentGame sid =
     fchain (\<lambda>x. e2f_err x)
       (fchain (\<lambda>rows w. (Inr (bindR (mapR gr_gameId (find_e (\<lambda>gr. gr_isCurrent gr) rows)) (\<lambda>gid. getGame gid w)), w))
         (getSessionGames sid))"

subsection \<open>Removal\<close>

definition coalesced :: "'a fut \<Rightarrow> (err + unit) fut" where
  "coalesced m = fmap (map_sum id (\<lambda>_. ())) (fcoalesce m)"

definition removeSession :: "int \<Rightarrow> session fut" where
  "removeSession sid =
     fchain (\<lambda>s. fchain (\<lambda>_. deleteSession s)
         (parallel1 [coalesced (removeSessionGames s), coalesced (deleteSessionAttacks s),
                     coalesced (removeSessionMurmur s)]))
       (getSessionById sid)"

subsection \<open>Initialisation\<close>

text \<open>
  \<open>chainGames\<close>: \<open>reduceRight\<close> from the last game; when a game stops, the one after it becomes the
  current game. Its \<open>Left\<close> for no games is a value its caller drops.
\<close>

fun chain_games :: "int \<Rightarrow> nat list \<Rightarrow> world \<Rightarrow> world" where
  "chain_games sid (i # j # js) w =
     (let w1 = chain_games sid (j # js) w in listen i EvStop (ChainListener sid (gameId (objs w1 ! j))) w1)"
| "chain_games sid _ w = w"

definition chainGames :: "session \<Rightarrow> nat list \<Rightarrow> world \<Rightarrow> nat either \<times> world" where
  "chainGames s games w =
     (case games of
        [] \<Rightarrow> (Inl ''No games to chain'', w)
      | i # _ \<Rightarrow> (Inr i, chain_games (sessionId s) games w))"

definition doGames :: "session \<Rightarrow> nat either fut" where
  "doGames s =
     fchain (\<lambda>games w. case chainGames s games w of (r, w1) \<Rightarrow> (Inr r, w1))
       (fchain (\<lambda>rows w. case initGameRows rows w of (r, w1) \<Rightarrow> e2f_err r w1)
         (getSessionGames (sessionId s)))"

definition doAttacks :: "session \<Rightarrow> attack list fut" where
  "doAttacks s =
     fchain (\<lambda>as. parallel1 (map scheduleAttack (filter (\<lambda>a. att_sessionId a = sessionId s) as))) getAttacks"

definition doMurmur :: "session \<Rightarrow> murmur fut" where
  "doMurmur s = fchain initMurmur (getMurmurBySessionId (sessionId s))"

definition initSession :: "session \<Rightarrow> session fut" where
  "initSession s =
     fmap (\<lambda>_. s)
       (fmapRej (\<lambda>e. SessionError s (err_message e))
         (fchain (\<lambda>_. doMurmur s) (fchain (\<lambda>_. doAttacks s) (doGames s))))"

definition initSessions :: "(err + session) list fut" where
  "initSessions = fchain (\<lambda>ss. parallel1 (map (\<lambda>s. fcoalesce (initSession s)) ss)) getSessions"

subsection \<open>Creation\<close>

definition createSessionMurmur :: "session \<Rightarrow> session fut" where
  "createSessionMurmur s =
     fmapRej (\<lambda>e. SessionError s (err_message e))
       (fmap (\<lambda>_. s) (createMurmur (grpcPort s) (murmurPort s) (sessionId s)))"

text \<open>The array of the four futures is built first: four ids are drawn.\<close>

definition createSessionGames :: "session \<Rightarrow> session fut" where
  "createSessionGames s w =
     (let blue = blueParticipant s; red = redParticipant s; sid = sessionId s;
          (g0, w0) = createGame blue red sid 0 (tutorialSchedules ! 0) True w;
          (g1, w1) = createGame red blue sid 1 (tutorialSchedules ! 1) False w0;
          (g2, w2) = createGame blue red sid 2 (gameSchedules ! 0) False w1;
          (g3, w3) = createGame red blue sid 3 (gameSchedules ! 1) False w2
      in fmapRej (\<lambda>e. SessionError s (err_message e)) (fmap (\<lambda>_. s) (parallel1 [g0, g1, g2, g3])) w3)"

definition createSession :: "session \<Rightarrow> session fut" where
  "createSession params =
     fchainRej (\<lambda>e. case e of
          SessionError s _ \<Rightarrow> fchain (\<lambda>_. reject e) (removeSession (sessionId s))
        | _ \<Rightarrow> reject e)
       (fchain initSession (fchain createSessionGames (fchain createSessionMurmur (insertSession params))))"

subsection \<open>Effects of games on the database\<close>

text \<open>
  The listeners of a game start futures on the database; the others go to sockets and to the
  \<open>mumble-cli\<close> program.
\<close>

fun run_effect :: "effect \<Rightarrow> world \<Rightarrow> world" where
  "run_effect (SaveGame gid gd) w = snd (save_row gid gd w)"
| "run_effect (SetCurrentGame sid gid) w = snd (setCurrentGame sid gid w)"
| "run_effect _ w = w"

definition run_effects :: "effect list \<Rightarrow> world \<Rightarrow> world" where
  "run_effects xs w = fold run_effect xs w"

lemmas session_defs [model_defs] =
  insertSession_def getSessions_def getPlayerSession_def getSessionById_def deleteSession_def
  getAttacks_def deleteSessionAttacks_def scheduleAttack_def initAttacks_def setCurrentGame_def
  getCurrentGame_def removeSession_def doGames_def doAttacks_def doMurmur_def initSession_def
  initSessions_def createSessionMurmur_def createSessionGames_def createSession_def

subsection \<open>The constraints of the schema are kept\<close>

lemma insert_session_ok: "stmt_ok (insert_session_stmt s)"
proof -
  have "next_rowid (map sessionId ss) \<noteq> sessionId x" if "x \<in> set ss" for ss and x :: session
    using next_rowid_fresh [of "map sessionId ss"] that by auto
  then show ?thesis
    by (auto simp: stmt_ok_def insert_session_stmt_def db_ok_def unique_ok_def Let_def split: if_splits)
qed

lemma delete_session_ok: "stmt_ok (delete_session_stmt sid)"
  by (auto simp: stmt_ok_def delete_session_stmt_def db_ok_def distinct_map_filter_key)

lemma delete_attacks_ok: "stmt_ok (delete_attacks_stmt sid)"
  by (auto simp: stmt_ok_def delete_attacks_stmt_def db_ok_def distinct_map_filter_key)

lemma set_current_ids:
  "map row_gameId (map (\<lambda>r. if P r then r\<lparr>row_isCurrent := b\<rparr> else r) rs) = map row_gameId rs"
  by (induction rs) auto

lemma set_current_ok: "stmt_ok (set_current_stmt sid gid)"
  by (auto simp: stmt_ok_def set_current_stmt_def db_ok_def set_current_ids simp del: map_map)

lemma listen_frame [frame, simp]:
  "db (listen i ev l w) = db w" "memGames (listen i ev l w) = memGames w" "genv (listen i ev l w) = genv w"
  "length (objs (listen i ev l w)) = length (objs w)" "dirs (listen i ev l w) = dirs w"
  by (simp_all add: listen_def)

lemma chain_games_frame [frame, simp]:
  "db (chain_games sid is w) = db w" "memGames (chain_games sid is w) = memGames w"
  by (induction sid "is" w rule: chain_games.induct) (simp_all add: Let_def)

lemma initGame_db [simp]: "db (snd (initGame gd w)) = db w"
  by (auto simp: initGame_def Let_def split: sum.split)

lemma init_games_db [simp]: "db (snd (init_games gds w)) = db w"
  by (induction gds arbitrary: w) (simp_all add: Let_def case_prod_unfold)

lemma keeps_getSessions [keeps_intros]: "keeps (\<lambda>w. db_ok (db w)) getSessions"
  "keeps (\<lambda>w. db_ok (db w)) getAttacks"
  unfolding getSessions_def getAttacks_def by (rule keeps_withDb; simp)+

lemma keeps_getSessionById [keeps_intros]: "keeps (\<lambda>w. db_ok (db w)) (getSessionById sid)"
  unfolding getSessionById_def by (intro keeps_intros)

lemma keeps_deletes [keeps_intros]:
  "keeps (\<lambda>w. db_ok (db w)) (deleteSession s)" "keeps (\<lambda>w. db_ok (db w)) (deleteSessionAttacks s)"
  unfolding deleteSession_def deleteSessionAttacks_def
  by (intro keeps_intros delete_session_ok delete_attacks_ok)+

lemma keeps_coalesced [keeps_intros]: "keeps P m \<Longrightarrow> keeps P (coalesced m)"
  unfolding coalesced_def by (intro keeps_intros)

lemma keeps_removeSession [keeps_intros]: "keeps (\<lambda>w. db_ok (db w)) (removeSession sid)"
  unfolding removeSession_def by (intro keeps_intros) (auto intro!: keeps_intros)

lemma keeps_scheduleAttack [keeps_intros]: "keeps (\<lambda>w. db_ok (db w)) (scheduleAttack a)"
  unfolding scheduleAttack_def
  by (intro keeps_fchain keeps_intros) (auto simp: keeps_def split: sum.split)

lemma keeps_doGames [keeps_intros]: "keeps (\<lambda>w. db_ok (db w)) (doGames s)"
proof -
  have "keeps (\<lambda>w. db_ok (db w)) (\<lambda>w. case chainGames s games w of (r, w1) \<Rightarrow> (Inr r, w1))" for games
    by (auto simp: keeps_def chainGames_def split: list.split)
  moreover have "keeps (\<lambda>w. db_ok (db w)) (\<lambda>w. case initGameRows rows w of (r, w1) \<Rightarrow> e2f_err r w1)" for rows
    by (auto simp: keeps_def initGameRows_def case_prod_unfold Let_def)
  ultimately show ?thesis unfolding doGames_def by (intro keeps_intros)
qed

lemma keeps_doMurmur [keeps_intros]: "keeps (\<lambda>w. db_ok (db w)) (doMurmur s)"
  unfolding doMurmur_def getMurmurBySessionId_def
  by (intro keeps_intros select_all_ok) (auto split: list.split intro: keeps_intros)

lemma keeps_initSession [keeps_intros]: "keeps (\<lambda>w. db_ok (db w)) (initSession s)"
  unfolding initSession_def doAttacks_def by (intro keeps_intros) (auto intro: keeps_intros)

lemma keeps_initSessions [keeps_intros]: "keeps (\<lambda>w. db_ok (db w)) initSessions"
  unfolding initSessions_def by (intro keeps_intros) (auto intro: keeps_intros)

lemma keeps_createSessionMurmur [keeps_intros]: "keeps (\<lambda>w. db_ok (db w)) (createSessionMurmur s)"
  unfolding createSessionMurmur_def by (intro keeps_intros)

lemma createGame_db [simp]: "db (snd (createGame a b sid k sch c w)) = db w"
  by (simp add: createGame_def Let_def)

lemma keeps_createSessionGames [keeps_intros]: "keeps (\<lambda>w. db_ok (db w)) (createSessionGames s)"
  unfolding keeps_def
proof (intro allI impI)
  fix w :: world assume ok: "db_ok (db w)"
  have "keeps (\<lambda>w. db_ok (db w)) (fmapRej f (fmap g (parallel1 [fst (createGame a1 b1 i1 k1 s1 c1 w1),
      fst (createGame a2 b2 i2 k2 s2 c2 w2), fst (createGame a3 b3 i3 k3 s3 c3 w3),
      fst (createGame a4 b4 i4 k4 s4 c4 w4)])))"
    for f g a1 b1 i1 k1 s1 c1 w1 a2 b2 i2 k2 s2 c2 w2 a3 b3 i3 k3 s3 c3 w3 a4 b4 i4 k4 s4 c4 w4
    by (intro keeps_intros) (auto intro: keeps_createGame)
  note step = keepsD [OF this]
  show "db_ok (db (snd (createSessionGames s w)))"
    unfolding createSessionGames_def Let_def case_prod_unfold
    by (rule step) (simp add: ok)
qed

lemma keeps_insertSession [keeps_intros]: "keeps (\<lambda>w. db_ok (db w)) (insertSession s)"
  unfolding insertSession_def by (intro keeps_intros insert_session_ok)

lemma keeps_createSession: "keeps (\<lambda>w. db_ok (db w)) (createSession params)"
  unfolding createSession_def
  by (intro keeps_fchainRej keeps_intros) (auto split: err.split intro!: keeps_intros)

lemma run_effect_ok: "db_ok (db w) \<Longrightarrow> db_ok (db (run_effect x w))"
  using withDb_ok [OF update_game_ok] withDb_ok [OF set_current_ok]
  by (cases x) (simp_all add: save_row_def setCurrentGame_def)

lemma run_effects_ok: "db_ok (db w) \<Longrightarrow> db_ok (db (run_effects xs w))"
  unfolding run_effects_def by (induction xs arbitrary: w) (simp_all add: run_effect_ok)

end
