(* ===== verification/SessionProps.thy ===== *)
theory SessionProps
  imports Sessions
begin

text \<open>
  What the session operations do to the database when it answers (\<open>db_works\<close>): removal removes
  everything that belongs to the session and nothing else, a session whose voice server cannot be set
  up leaves no row behind, the current game of a session is unique, and saved states arrive.
\<close>

subsection \<open>Running futures on a database that works\<close>

lemma select_run: "db_works w \<Longrightarrow> withDb (select_all t) w = (Inr (t (db w)), w\<lparr>dbcount := Suc (dbcount w)\<rparr>)"
  by (simp add: withDb_works select_all_def)

lemma getSessionById_run:
  assumes "db_works w" "distinct (map sessionId (t_session (db w)))" "s \<in> set (t_session (db w))"
  shows "getSessionById (sessionId s) w = (Inr s, w\<lparr>dbcount := Suc (dbcount w)\<rparr>)"
  using assms
  by (simp add: getSessionById_def getSessions_def fchain_def select_run find_e_def find_unique)

lemma coalesced_run: "coalesced m w = (Inr (map_sum id (\<lambda>_. ()) (fst (m w))), snd (m w))"
  by (simp add: coalesced_def fmap_def fcoalesce_def case_prod_unfold)

lemma parallel_coalesced3:
  "snd (parallel1 [coalesced a, coalesced b, coalesced c] w) = snd (c (snd (b (snd (a w)))))"
  "\<exists>r. fst (parallel1 [coalesced a, coalesced b, coalesced c] w) = Inr r"
  by (simp_all add: coalesced_run)

text \<open>What an operation does to the tables only, under a database that works.\<close>

definition db_effect :: "(world \<Rightarrow> world) \<Rightarrow> (db \<Rightarrow> db) \<Rightarrow> bool" where
  "db_effect op f \<longleftrightarrow> (\<forall>w. db_works w \<longrightarrow> db (op w) = f (db w) \<and> db_works (op w))"

lemma fmap_snd [simp]: "snd (fmap f m w) = snd (m w)"
  by (simp add: fmap_def split: prod.split sum.split)

lemma fmapRej_snd [simp]: "snd (fmapRej f m w) = snd (m w)"
  by (simp add: fmapRej_def split: prod.split sum.split)

lemma works_dockerReq [simp]: "db_works (snd (dockerReq m ep q b w)) = db_works w"
  by (simp add: db_works_def)

definition same_db :: "world \<Rightarrow> world \<Rightarrow> bool" where
  "same_db w w' \<longleftrightarrow> db w' = db w \<and> dbfate w' = dbfate w"

lemma same_db_refl [simp]: "same_db w w"
  by (simp add: same_db_def)

lemma same_db_trans: "same_db a b \<Longrightarrow> same_db b c \<Longrightarrow> same_db a c"
  by (simp add: same_db_def)

lemma same_db_fchain:
  assumes "same_db w (snd (m w))" "\<And>a w'. same_db w' (snd (f a w'))"
  shows "same_db w (snd (fchain f m w))"
  using assms same_db_trans by (auto simp: fchain_def split: prod.split sum.split)

lemma same_db_after:
  assumes "\<And>a w'. same_db w' (snd (f a w'))"
  shows "same_db (snd (m w)) (snd (fchain f m w))"
  using assms by (auto simp: fchain_def split: prod.split sum.split)

lemma same_db_dockerReq [simp]: "same_db w (snd (dockerReq m ep q b w))"
  by (simp add: same_db_def)

lemma same_db_docker [simp]:
  "same_db w (snd (docker_start c w))" "same_db w (snd (stopContainer c w))" "same_db w (snd (rmContainer c w))"
  "same_db w (snd (docker_create nm cfg w))"
  by (simp_all add: docker_defs)

lemma same_db_single: "same_db w (snd (m w)) \<Longrightarrow> same_db w (snd (parallel1 [m] w))"
  by (auto split: prod.split sum.split)

lemma same_db_removeContainer: "same_db w (snd (removeContainer m w))"
  unfolding removeContainer_def docker_stop_def docker_rm_def
  by (rule same_db_fchain) (auto split: list.split intro!: same_db_single simp del: parallel1.simps)

lemma same_db_removeRecDir: "same_db w (snd (removeRecDir m w))"
  by (auto simp: same_db_def removeRecDir_def rmdirSync_def split: option.split)

lemma same_db_createRecDir: "same_db w (snd (createRecDir m b w))"
  by (auto simp: same_db_def createRecDir_def mkdirSync_def split: option.split)

lemma same_db_createContainer: "same_db w (snd (createContainer m w))"
  unfolding createContainer_def
  by (rule same_db_fchain) (simp, auto simp: same_db_def split: sum.split)

lemma same_db_works: "same_db w w' \<Longrightarrow> db_works w' = db_works w"
  by (simp add: same_db_def db_works_def)

lemma removeMurmur_run:
  assumes "db_works w"
  shows "fst (removeMurmur m w) = Inr m"
    and "db (snd (removeMurmur m w)) = (db w)\<lparr>t_murmur := filter (\<lambda>x. murmurId x \<noteq> murmurId m) (t_murmur (db w))\<rparr>"
    and "dbfate (snd (removeMurmur m w)) = dbfate w"
proof -
  let ?w1 = "snd (removeRecDir m w)"
  let ?w2 = "snd (removeContainer m ?w1)"
  have "same_db w ?w2" using same_db_removeRecDir same_db_removeContainer same_db_trans by blast
  then have w2: "db ?w2 = db w" "dbfate ?w2 = dbfate w" "db_works ?w2"
    using assms by (auto simp: same_db_def db_works_def)
  have "parallel1 [fmap (\<lambda>x. map_sum id (\<lambda>_. ()) x) (fcoalesce (removeContainer m)),
        fcoalesce (e2f_err (fst (removeRecDir m w)))] ?w1 = ((Inr r, ?w2) :: (err + (err + unit) list) \<times> world)"
    if "r = [map_sum id (\<lambda>_. ()) (fst (removeContainer m ?w1)), fst (e2f_err (fst (removeRecDir m w)) ?w2)]" for r
    using that by (simp add: fcoalesce_def fmap_def case_prod_unfold)
  then obtain r where par: "parallel1 [fmap (\<lambda>x. map_sum id (\<lambda>_. ()) x) (fcoalesce (removeContainer m)),
        fcoalesce (e2f_err (fst (removeRecDir m w)))] ?w1 = ((Inr r, ?w2) :: (err + (err + unit) list) \<times> world)" by blast
  then have eq: "removeMurmur m w = deleteMurmur m ?w2"
    by (simp add: removeMurmur_def fchain_def case_prod_unfold Let_def del: parallel1.simps)
  show "fst (removeMurmur m w) = Inr m"
    and "db (snd (removeMurmur m w)) = (db w)\<lparr>t_murmur := filter (\<lambda>x. murmurId x \<noteq> murmurId m) (t_murmur (db w))\<rparr>"
    and "dbfate (snd (removeMurmur m w)) = dbfate w"
    using w2 unfolding eq
    by (simp_all add: deleteMurmur_def withDb_works delete_murmur_stmt_def fmap_def)
qed

text \<open>The murmur row of a session is the only one with its id.\<close>

lemma filter_murmur_session:
  assumes "distinct (map murmurId ms)" "distinct (map mur_sessionId ms)" "m \<in> set ms"
  shows "filter (\<lambda>x. murmurId x \<noteq> murmurId m) ms = filter (\<lambda>x. mur_sessionId x \<noteq> mur_sessionId m) ms"
  using assms by (intro filter_cong) (auto simp: distinct_map inj_on_def)

lemma removeSessionMurmur_db:
  assumes "db_works w" "db_ok (db w)"
  shows "db (snd (removeSessionMurmur s w)) =
      (db w)\<lparr>t_murmur := filter (\<lambda>m. mur_sessionId m \<noteq> sessionId s) (t_murmur (db w))\<rparr>"
    and "dbfate (snd (removeSessionMurmur s w)) = dbfate w"
proof -
  let ?ms = "filter (\<lambda>m. mur_sessionId m = sessionId s) (t_murmur (db w))"
  let ?w1 = "w\<lparr>dbcount := Suc (dbcount w)\<rparr>"
  have get: "getMurmurBySessionId (sessionId s) w =
      (case ?ms of [] \<Rightarrow> (Inl (PlainError ''Murmur not found by sessionId.''), ?w1) | m # _ \<Rightarrow> (Inr m, ?w1))"
    using assms(1) by (simp add: getMurmurBySessionId_def fchain_def select_run split: list.split)
  have "db (snd (removeSessionMurmur s w)) =
      (db w)\<lparr>t_murmur := filter (\<lambda>m. mur_sessionId m \<noteq> sessionId s) (t_murmur (db w))\<rparr>
      \<and> dbfate (snd (removeSessionMurmur s w)) = dbfate w"
  proof (cases ?ms)
    case Nil
    then have "filter (\<lambda>m. mur_sessionId m \<noteq> sessionId s) (t_murmur (db w)) = t_murmur (db w)"
      by (auto simp: filter_empty_conv filter_id_conv)
    then show ?thesis using get Nil by (simp add: removeSessionMurmur_def fchain_def)
  next
    case (Cons m ms)
    then have m: "m \<in> set (t_murmur (db w))" "mur_sessionId m = sessionId s"
      using set_filter [of "\<lambda>m. mur_sessionId m = sessionId s" "t_murmur (db w)"] by auto
    have "removeSessionMurmur s w = fmap (\<lambda>_. s) (removeMurmur m) ?w1"
      using get Cons by (simp add: removeSessionMurmur_def fchain_def fmap_def)
    then show ?thesis
      using removeMurmur_run [of ?w1 m] assms m filter_murmur_session [of "t_murmur (db w)" m]
      by (simp add: db_ok_def)
  qed
  then show "db (snd (removeSessionMurmur s w)) =
      (db w)\<lparr>t_murmur := filter (\<lambda>m. mur_sessionId m \<noteq> sessionId s) (t_murmur (db w))\<rparr>"
    and "dbfate (snd (removeSessionMurmur s w)) = dbfate w" by simp_all
qed


text \<open>Removing the games of a session, when all of them are in memory.\<close>

lemma removeGame_run:
  assumes "db_works w"
  shows "fst (removeGame i w) = Inr i"
    and "db (snd (removeGame i w)) = (db w)\<lparr>t_game := filter (\<lambda>r. row_gameId r \<noteq> game_key w i) (t_game (db w))\<rparr>"
    and "dbfate (snd (removeGame i w)) = dbfate w" "objs (snd (removeGame i w)) = objs w"
  using assms by (simp_all add: removeGame_def fchain_def withDb_works delete_game_stmt_def removeMemGame_def)

lemma removeGames_run:
  assumes "db_works w"
  shows "(\<exists>r. fst (parallel1 (map removeGame is) w) = Inr r)
    \<and> db (snd (parallel1 (map removeGame is) w)) =
        (db w)\<lparr>t_game := filter (\<lambda>r. row_gameId r \<notin> game_key w ` set is) (t_game (db w))\<rparr>
    \<and> dbfate (snd (parallel1 (map removeGame is) w)) = dbfate w"
  using assms
proof (induction "is" arbitrary: w)
  case Nil
  then show ?case by simp
next
  case (Cons i js)
  note r = removeGame_run [OF Cons.prems, of i]
  obtain w1 where w1: "removeGame i w = (Inr i, w1)" using r(1) by (metis prod.collapse)
  have "db_works w1" using Cons.prems r(3) w1 by (simp add: db_works_def)
  note IH = Cons.IH [OF this]
  have key: "game_key w1 = game_key w" using r(4) w1 by (simp add: game_key_def fun_eq_iff)
  obtain rs w2 where par: "parallel1 (map removeGame js) w1 = (Inr rs, w2)"
    using IH by (metis prod.collapse)
  show ?case using IH r(2,3) w1 par key
    by (simp add: conj_commute)
qed

lemma getSessionGames_run:
  assumes "db_works w"
    and "\<And>r. r \<in> set (t_game (db w)) \<Longrightarrow> row_sessionId r = sid \<Longrightarrow> \<exists>gd. row_data r = GameText gd"
  shows "\<exists>rows. getSessionGames sid w = (Inr rows, w\<lparr>dbcount := Suc (dbcount w)\<rparr>)
    \<and> map normalizeGameRow (filter (\<lambda>r. row_sessionId r = sid) (t_game (db w))) = map Inr rows
    \<and> map gr_gameId rows = map row_gameId (filter (\<lambda>r. row_sessionId r = sid) (t_game (db w)))"
proof -
  have "\<exists>rows. parallel1 (map (\<lambda>r. e2f_err (normalizeGameRow r)) rs) v = (Inr rows, v)
      \<and> map normalizeGameRow rs = map Inr rows \<and> map gr_gameId rows = map row_gameId rs"
    if "\<forall>r \<in> set rs. \<exists>gd. row_data r = GameText gd" for rs :: "db_game list" and v :: world
    using that by (induction rs) (auto simp: normalizeGameRow_def parseJSON_def)
  then show ?thesis
    using assms by (simp add: getSessionGames_def fchain_def fmap_def select_run)
qed

definition rows_readable :: "db \<Rightarrow> bool" where
  "rows_readable d \<longleftrightarrow> (\<forall>r \<in> set (t_game d). \<exists>gd. row_data r = GameText gd)"

definition in_memory :: "world \<Rightarrow> string \<Rightarrow> bool" where
  "in_memory w gid \<longleftrightarrow> (\<exists>i \<in> set (memGames w). game_key w i = gid)"

lemma getGame_cases:
  "getGame gid w = (if in_memory w gid then Inr (the (mem_get (game_key w) gid (memGames w)))
                    else Inl ''Game not found.'')"
proof (cases "mem_get (game_key w) gid (memGames w)")
  case None
  moreover have "\<not> in_memory w gid" using None by (auto simp: in_memory_def mem_get_None)
  ultimately show ?thesis by (simp add: getGame_def)
next
  case (Some i)
  then show ?thesis using mem_get_Some [OF Some] by (auto simp: getGame_def in_memory_def)
qed

lemma getGame_key: "getGame gid w = Inr i \<Longrightarrow> game_key w i = gid \<and> i \<in> set (memGames w)"
  by (auto simp: getGame_def split: option.splits dest: mem_get_Some)

lemma aoe2ea_map_Inl: "x \<in> set xs \<Longrightarrow> f x = Inl e \<Longrightarrow> \<exists>e'. aoe2ea (map f xs) = Inl e'"
  by (rule aoe2ea_Inl [of e]) force

text \<open>All or nothing: one game that is not in memory, and no row is removed.\<close>

lemma removeSessionGames_db:
  assumes "db_works w" "rows_readable (db w)"
  shows "db (snd (removeSessionGames s w)) =
      (if \<forall>r \<in> set (t_game (db w)). row_sessionId r = sessionId s \<longrightarrow> in_memory w (row_gameId r)
       then (db w)\<lparr>t_game := filter (\<lambda>r. row_gameId r \<notin>
              row_gameId ` {r \<in> set (t_game (db w)). row_sessionId r = sessionId s}) (t_game (db w))\<rparr>
       else db w)"
    and "dbfate (snd (removeSessionGames s w)) = dbfate w"
proof -
  let ?w1 = "w\<lparr>dbcount := Suc (dbcount w)\<rparr>"
  let ?mine = "filter (\<lambda>r. row_sessionId r = sessionId s) (t_game (db w))"
  obtain rows where rows: "getSessionGames (sessionId s) w = (Inr rows, ?w1)"
      "map gr_gameId rows = map row_gameId ?mine"
    using getSessionGames_run [OF assms(1)] assms(2) unfolding rows_readable_def by metis
  let ?look = "map (\<lambda>g. getGame (gr_gameId g) ?w1) rows"
  have look: "?look = map (\<lambda>gid. getGame gid ?w1) (map row_gameId ?mine)"
    unfolding rows(2) [symmetric] by simp
  have mem1: "in_memory ?w1 = in_memory w" "game_key ?w1 = game_key w"
    by (simp_all add: in_memory_def game_key_def fun_eq_iff)
  have run: "snd (removeSessionGames s w) =
      snd (fchain (\<lambda>games. parallel1 (map removeGame games)) (e2f_err (aoe2ea ?look)) ?w1)"
    by (simp add: removeSessionGames_def fchain_def rows(1))
  have "db (snd (removeSessionGames s w)) =
      (if \<forall>r \<in> set (t_game (db w)). row_sessionId r = sessionId s \<longrightarrow> in_memory w (row_gameId r)
       then (db w)\<lparr>t_game := filter (\<lambda>r. row_gameId r \<notin>
              row_gameId ` {r \<in> set (t_game (db w)). row_sessionId r = sessionId s}) (t_game (db w))\<rparr>
       else db w) \<and> dbfate (snd (removeSessionGames s w)) = dbfate w"
  proof (cases "\<forall>r \<in> set (t_game (db w)). row_sessionId r = sessionId s \<longrightarrow> in_memory w (row_gameId r)")
    case True
    define ids where "ids = map (\<lambda>r. the (mem_get (game_key w) (row_gameId r) (memGames w))) ?mine"
    have "?look = map Inr ids"
      using True unfolding look ids_def by (auto simp: getGame_cases mem1)
    then have a: "aoe2ea ?look = Inr ids" using aoe2ea_map_Inr [of "\<lambda>x. x" ids] by simp
    have keys: "game_key w (the (mem_get (game_key w) (row_gameId r) (memGames w))) = row_gameId r"
      if "r \<in> set ?mine" for r
      using that True getGame_key [of "row_gameId r" w] by (auto simp: getGame_cases)
    then have "game_key w ` set ids = row_gameId ` set ?mine"
      unfolding ids_def by (force simp: image_iff)
    then show ?thesis
      using True a run removeGames_run [of ?w1 ids] assms(1) mem1 by (simp add: fchain_def)
  next
    case False
    then obtain r where "r \<in> set ?mine" "\<not> in_memory w (row_gameId r)" by auto
    then obtain e where "aoe2ea ?look = Inl e"
      using aoe2ea_map_Inl [of "row_gameId r" "map row_gameId ?mine" "\<lambda>gid. getGame gid ?w1"]
      unfolding look by (auto simp: getGame_cases mem1)
    then show ?thesis using False run by (auto simp: fchain_def)
  qed
  then show "db (snd (removeSessionGames s w)) =
      (if \<forall>r \<in> set (t_game (db w)). row_sessionId r = sessionId s \<longrightarrow> in_memory w (row_gameId r)
       then (db w)\<lparr>t_game := filter (\<lambda>r. row_gameId r \<notin>
              row_gameId ` {r \<in> set (t_game (db w)). row_sessionId r = sessionId s}) (t_game (db w))\<rparr>
       else db w)"
    and "dbfate (snd (removeSessionGames s w)) = dbfate w" by simp_all
qed

subsection \<open>Removing a session\<close>

definition without_session :: "int \<Rightarrow> bool \<Rightarrow> db \<Rightarrow> db" where
  "without_session sid games d =
     \<lparr>t_session = filter (\<lambda>s. sessionId s \<noteq> sid) (t_session d),
      t_game = (if games then filter (\<lambda>r. row_sessionId r \<noteq> sid) (t_game d) else t_game d),
      t_attack = filter (\<lambda>a. att_sessionId a \<noteq> sid) (t_attack d),
      t_murmur = filter (\<lambda>m. mur_sessionId m \<noteq> sid) (t_murmur d)\<rparr>"

definition games_in_memory :: "int \<Rightarrow> world \<Rightarrow> bool" where
  "games_in_memory sid w \<longleftrightarrow>
     (\<forall>r \<in> set (t_game (db w)). row_sessionId r = sid \<longrightarrow> in_memory w (row_gameId r))"

lemma filter_session_games:
  assumes "distinct (map row_gameId rs)"
  shows "filter (\<lambda>r. row_gameId r \<notin> row_gameId ` {r \<in> set rs. row_sessionId r = sid}) rs
    = filter (\<lambda>r. row_sessionId r \<noteq> sid) rs"
  using assms by (intro filter_cong) (auto simp: distinct_map inj_on_def)

lemma db_ok_t_game: "db_ok d \<Longrightarrow> distinct (map row_gameId (t_game d))"
  "db_ok d \<Longrightarrow> distinct (map sessionId (t_session d))"
  by (simp_all add: db_ok_def)

lemma deleteSessionAttacks_run:
  "db_works w \<Longrightarrow> snd (deleteSessionAttacks s w) = w\<lparr>dbcount := Suc (dbcount w),
     db := (db w)\<lparr>t_attack := filter (\<lambda>a. att_sessionId a \<noteq> sessionId s) (t_attack (db w))\<rparr>\<rparr>"
  by (simp add: deleteSessionAttacks_def withDb_works delete_attacks_stmt_def)

lemma removeSession_run:
  assumes works: "db_works w" and ok: "db_ok (db w)" and readable: "rows_readable (db w)"
    and s: "s \<in> set (t_session (db w))"
  shows "fst (removeSession (sessionId s) w) = Inr s"
    and "db (snd (removeSession (sessionId s) w)) =
      without_session (sessionId s) (games_in_memory (sessionId s) w) (db w)"
proof -
  let ?w1 = "w\<lparr>dbcount := Suc (dbcount w)\<rparr>"
  let ?w2 = "snd (removeSessionGames s ?w1)"
  let ?w3 = "snd (deleteSessionAttacks s ?w2)"
  let ?w4 = "snd (removeSessionMurmur s ?w3)"
  have w1: "db_works ?w1" "rows_readable (db ?w1)" using works readable by simp_all
  have mem: "in_memory ?w1 = in_memory w" by (simp add: in_memory_def game_key_def fun_eq_iff)
  note games = removeSessionGames_db [OF w1, of s]
  have d2: "db ?w2 = (if games_in_memory (sessionId s) w
      then (db w)\<lparr>t_game := filter (\<lambda>r. row_sessionId r \<noteq> sessionId s) (t_game (db w))\<rparr> else db w)"
    using games(1) filter_session_games [OF db_ok_t_game(1) [OF ok]]
    by (auto simp: games_in_memory_def mem)
  have works2: "db_works ?w2" using games(2) works by (simp add: db_works_def)
  have ok2: "db_ok (db ?w2)" using keepsD [OF keeps_removeSessionGames, of ?w1 s] ok by simp
  have d3: "db ?w3 = (db ?w2)\<lparr>t_attack := filter (\<lambda>a. att_sessionId a \<noteq> sessionId s) (t_attack (db ?w2))\<rparr>"
    and works3: "db_works ?w3"
    using deleteSessionAttacks_run [OF works2] works2 by simp_all
  have ok3: "db_ok (db ?w3)" using keepsD [OF keeps_deletes(2) ok2] .
  note murmur = removeSessionMurmur_db [OF works3 ok3, of s]
  have works4: "db_works ?w4" using murmur(2) works3 by (simp add: db_works_def)
  obtain r where par: "parallel1 [coalesced (removeSessionGames s), coalesced (deleteSessionAttacks s),
      coalesced (removeSessionMurmur s)] ?w1 = (Inr r, ?w4)"
    using parallel_coalesced3 [of "removeSessionGames s" "deleteSessionAttacks s" "removeSessionMurmur s" ?w1]
    by (metis prod.collapse)
  have eq: "removeSession (sessionId s) w = deleteSession s ?w4"
    using par getSessionById_run [OF works db_ok_t_game(2) [OF ok] s]
    by (simp add: removeSession_def fchain_def del: parallel1.simps)
  show "fst (removeSession (sessionId s) w) = Inr s"
    and "db (snd (removeSession (sessionId s) w)) =
      without_session (sessionId s) (games_in_memory (sessionId s) w) (db w)"
    using works4 murmur(1) d3 d2 unfolding eq
    by (simp_all add: deleteSession_def withDb_works delete_session_stmt_def fmap_def without_session_def)
qed

subsection \<open>A session whose voice server is refused\<close>

text \<open>The id is not mentioned in any table but the sessions.\<close>

definition unreferenced :: "int \<Rightarrow> db \<Rightarrow> bool" where
  "unreferenced sid d \<longleftrightarrow>
     (\<forall>r \<in> set (t_game d). row_sessionId r \<noteq> sid) \<and> (\<forall>a \<in> set (t_attack d). att_sessionId a \<noteq> sid)
     \<and> (\<forall>m \<in> set (t_murmur d). mur_sessionId m \<noteq> sid)"

lemma insertSession_run:
  assumes "db_works w"
  shows "insertSession p w =
    (let i = next_rowid (map sessionId (t_session (db w))); w1 = w\<lparr>dbcount := Suc (dbcount w)\<rparr>
     in if unique_ok blueParticipant p (t_session (db w)) \<and> unique_ok redParticipant p (t_session (db w))
           \<and> unique_ok grpcPort p (t_session (db w)) \<and> unique_ok murmurPort p (t_session (db w))
        then (Inr (p\<lparr>sessionId := i\<rparr>),
              w1\<lparr>db := (db w)\<lparr>t_session := t_session (db w) @ [p\<lparr>sessionId := i\<rparr>]\<rparr>\<rparr>)
        else (Inl (PlainError sqlite_unique), w1))"
  using assms by (simp add: insertSession_def fmap_def withDb_works insert_session_stmt_def Let_def)

lemma insertMurmur_run:
  assumes "db_works w"
  shows "(insertMurmur m w = (Inr m, w\<lparr>dbcount := Suc (dbcount w),
            db := (db w)\<lparr>t_murmur := t_murmur (db w) @ [m]\<rparr>\<rparr>)) \<or>
    insertMurmur m w = (Inl (PlainError sqlite_unique), w\<lparr>dbcount := Suc (dbcount w)\<rparr>)"
  using assms by (simp add: insertMurmur_def fmap_def withDb_works insert_murmur_stmt_def Let_def)

text \<open>\<open>createMurmur\<close> changes the table \<open>murmur\<close> only, by one row of this session at most.\<close>

lemma createMurmur_db:
  assumes "db_works w"
  shows "db_works (snd (createMurmur a b sid w))"
    and "\<exists>m. mur_sessionId m = sid \<and>
      (db (snd (createMurmur a b sid w)) = db w \<or>
       db (snd (createMurmur a b sid w)) = (db w)\<lparr>t_murmur := t_murmur (db w) @ [m]\<rparr>)"
proof -
  let ?m = "resolveMurmur (recDirRoot w) a b sid"
  let ?mk = "\<lambda>m w. case createRecDir m False w of (r, w1) \<Rightarrow> e2f_err r w1"
  have eq: "snd (createMurmur a b sid w) = snd (fchain createContainer (fchain ?mk (insertMurmur ?m)) w)"
    by (simp add: createMurmur_def Let_def)
  have mk: "same_db w' (snd (?mk m w'))" for m w'
    using same_db_createRecDir by (simp add: case_prod_unfold)
  have "same_db (snd (insertMurmur ?m w)) (snd (createMurmur a b sid w))"
    unfolding eq
    using same_db_trans [OF same_db_after [OF mk] same_db_after [OF same_db_createContainer]] .
  then have "db_works (snd (createMurmur a b sid w)) \<and> db (snd (createMurmur a b sid w)) = db (snd (insertMurmur ?m w))"
    using insertMurmur_run [OF assms, of ?m] assms by (auto simp: same_db_def db_works_def)
  then show "db_works (snd (createMurmur a b sid w))"
    and "\<exists>m. mur_sessionId m = sid \<and>
      (db (snd (createMurmur a b sid w)) = db w \<or>
       db (snd (createMurmur a b sid w)) = (db w)\<lparr>t_murmur := t_murmur (db w) @ [m]\<rparr>)"
    using insertMurmur_run [OF assms, of ?m] by (auto simp: resolveMurmur_def intro!: exI [of _ ?m])
qed

lemma without_new_session:
  assumes "unreferenced i d" "\<forall>x \<in> set (t_session d). sessionId x \<noteq> i" "sessionId s = i" "mur_sessionId m = i"
  shows "without_session i g (d\<lparr>t_session := t_session d @ [s], t_murmur := t_murmur d @ [m]\<rparr>) = d"
    and "without_session i g (d\<lparr>t_session := t_session d @ [s]\<rparr>) = d"
  using assms by (auto simp: without_session_def unreferenced_def intro!: db.equality filter_True)

lemma createSession_rolls_back:
  assumes works: "db_works w" and ok: "db_ok (db w)" and readable: "rows_readable (db w)"
    and unref: "unreferenced (next_rowid (map sessionId (t_session (db w)))) (db w)"
    and fails: "fchain createSessionMurmur (insertSession p) w = (Inl e, w')"
  shows "fst (createSession p w) = Inl e \<and> db (snd (createSession p w)) = db w"
proof -
  let ?i = "next_rowid (map sessionId (t_session (db w)))"
  let ?s = "p\<lparr>sessionId := ?i\<rparr>"
  let ?w1 = "w\<lparr>dbcount := Suc (dbcount w), db := (db w)\<lparr>t_session := t_session (db w) @ [?s]\<rparr>\<rparr>"
  have "fchain initSession (fchain createSessionGames (fchain createSessionMurmur (insertSession p))) w = (Inl e, w')"
    using fails by (simp add: fchain_def)
  then have create: "createSession p w =
     (case e of SessionError s _ \<Rightarrow> fchain (\<lambda>_. reject e) (removeSession (sessionId s)) w' | _ \<Rightarrow> (Inl e, w'))"
    by (auto simp: createSession_def fchainRej_def split: err.split)
  show ?thesis
  proof (cases "insertSession p w = (Inr ?s, ?w1)")
    case False
    then have "insertSession p w = (Inl (PlainError sqlite_unique), w\<lparr>dbcount := Suc (dbcount w)\<rparr>)"
      using insertSession_run [OF works, of p] by (auto simp: Let_def split: if_splits)
    then show ?thesis using fails create by (auto simp: fchain_def)
  next
    case True
    have works1: "db_works ?w1" using works by simp
    have ok1: "db_ok (db ?w1)" using keepsD [OF keeps_insertSession, of w p] ok True by simp
    let ?mm = "createMurmur (grpcPort ?s) (murmurPort ?s) ?i ?w1"
    have m: "createSessionMurmur ?s ?w1 = (Inl e, w')" using fails True by (simp add: fchain_def)
    then have w': "w' = snd ?mm" and e: "\<exists>msg. e = SessionError ?s msg"
      by (auto simp: createSessionMurmur_def fmap_def fmapRej_def split: prod.splits sum.splits)
    note mm = createMurmur_db [OF works1, where a = "grpcPort ?s" and b = "murmurPort ?s" and sid = ?i]
    have works': "db_works w'" and ok': "db_ok (db w')"
      using mm(1) keepsD [OF keeps_createMurmur ok1] unfolding w' by simp_all
    have s: "?s \<in> set (t_session (db w'))" using mm(2) unfolding w' by auto
    have fresh: "\<forall>x \<in> set (t_session (db w)). sessionId x \<noteq> ?i"
      using next_rowid_fresh [of "map sessionId (t_session (db w))"] by force
    have readable': "rows_readable (db w')" using readable mm(2) unfolding w' by (auto simp: rows_readable_def)
    note rm = removeSession_run [OF works' ok' readable' s]
    have undone: "db (snd (removeSession ?i w')) = db w"
      using rm(2) mm(2) without_new_session [OF unref fresh] unfolding w' by auto
    have "fst (removeSession ?i w') = Inr ?s" using rm(1) by simp
    then show ?thesis using create e undone by (auto simp: fchain_def split: prod.split)
  qed
qed

subsection \<open>The current game\<close>

lemma filter_one_row:
  assumes "distinct (map row_gameId rs)" "r \<in> set rs" "row_gameId r = gid" "row_sessionId r = sid"
  shows "filter (\<lambda>r. row_gameId r = gid \<and> row_sessionId r = sid) rs = [r]"
  using assms
proof (induction rs)
  case Nil
  then show ?case by simp
next
  case (Cons x xs)
  show ?case
  proof (cases "x = r")
    case True
    then have "filter (\<lambda>r. row_gameId r = gid \<and> row_sessionId r = sid) xs = []"
      using Cons.prems by (auto simp: filter_empty_conv image_iff)
    then show ?thesis using True Cons.prems by simp
  next
    case False
    then have "r \<in> set xs" using Cons.prems by simp
    moreover have "row_gameId x \<noteq> gid"
      using Cons.prems(1,3) calculation by (auto simp: image_iff)
    ultimately show ?thesis using Cons by simp
  qed
qed

lemma set_current_unique:
  assumes "distinct (map row_gameId (t_game d))" "r \<in> set (t_game d)" "row_gameId r = gid" "row_sessionId r = sid"
    and "set_current_stmt sid gid d = Inr ((), d')"
  shows "map row_gameId (filter (\<lambda>r. row_sessionId r = sid \<and> row_isCurrent r) (t_game d')) = [gid]"
    and "filter (\<lambda>r. row_sessionId r \<noteq> sid) (t_game d') = filter (\<lambda>r. row_sessionId r \<noteq> sid) (t_game d)"
proof -
  let ?f = "\<lambda>r. if row_sessionId r = sid then r\<lparr>row_isCurrent := False\<rparr> else r"
  let ?h = "\<lambda>r. if row_gameId r = gid then r\<lparr>row_isCurrent := True\<rparr> else r"
  have d': "t_game d' = map (\<lambda>r. ?h (?f r)) (t_game d)" using assms(5) by (auto simp: set_current_stmt_def)
  have cur: "row_sessionId (?h (?f x)) = sid \<and> row_isCurrent (?h (?f x))
      \<longleftrightarrow> row_gameId x = gid \<and> row_sessionId x = sid" for x
    by auto
  have "map row_gameId (filter (\<lambda>r. row_sessionId r = sid \<and> row_isCurrent r) (map (\<lambda>r. ?h (?f r)) rs))
      = map row_gameId (filter (\<lambda>r. row_gameId r = gid \<and> row_sessionId r = sid) rs)" for rs
    by (induction rs) auto
  moreover have "map row_gameId (filter (\<lambda>r. row_gameId r = gid \<and> row_sessionId r = sid) (t_game d)) = [gid]"
    using filter_one_row [OF assms(1-4)] assms(3) by simp
  ultimately show "map row_gameId (filter (\<lambda>r. row_sessionId r = sid \<and> row_isCurrent r) (t_game d')) = [gid]"
    unfolding d' by (rule trans)
  have "filter (\<lambda>r. row_sessionId r \<noteq> sid) (map (\<lambda>r. ?h (?f r)) rs) = filter (\<lambda>r. row_sessionId r \<noteq> sid) rs"
    if "\<forall>x \<in> set rs. row_gameId x = gid \<longrightarrow> row_sessionId x = sid" for rs
    using that by (induction rs) auto
  moreover have "\<forall>x \<in> set (t_game d). row_gameId x = gid \<longrightarrow> row_sessionId x = sid"
    using assms(1-4) by (auto simp: distinct_map inj_on_def)
  ultimately show "filter (\<lambda>r. row_sessionId r \<noteq> sid) (t_game d') = filter (\<lambda>r. row_sessionId r \<noteq> sid) (t_game d)"
    unfolding d' by blast
qed

text \<open>When a chained game stops, the game after it is made current; the last one has no successor.\<close>

lemma chain_games_other: "i \<notin> set is \<Longrightarrow> objs (chain_games sid is w) ! i = objs w ! i"
proof (induction sid "is" w rule: chain_games.induct)
  case (1 sid i' j js w)
  then show ?case by (simp add: Let_def listen_def)
qed simp_all

lemma chain_games_length [simp]: "length (objs (chain_games sid is w)) = length (objs w)"
  by (induction sid "is" w rule: chain_games.induct) (simp_all add: Let_def)

lemma chain_games_gameId: "gameId (objs (chain_games sid is w) ! i) = gameId (objs w ! i)"
proof (induction sid "is" w rule: chain_games.induct)
  case (1 sid j k js w)
  then show ?case
    by (cases "i < length (objs w)"; cases "j = i") (simp_all add: Let_def listen_def list_update_beyond)
qed simp_all

lemma chain_games_subs:
  assumes "distinct is" "\<forall>i \<in> set is. i < length (objs w)" "k < length is"
  shows "subs (cbMap (objs (chain_games sid is w) ! (is ! k))) EvStop =
    subs (cbMap (objs w ! (is ! k))) EvStop
      @ (if Suc k < length is then [ChainListener sid (gameId (objs w ! (is ! Suc k)))] else [])"
  using assms
proof (induction sid "is" w arbitrary: k rule: chain_games.induct)
  case (1 sid i j js w)
  let ?w1 = "chain_games sid (j # js) w"
  show ?case
  proof (cases k)
    case 0
    have "objs ?w1 ! i = objs w ! i" using 1 by (intro chain_games_other) auto
    then show ?thesis using 0 1 by (simp add: Let_def listen_def ev.listeners_reg chain_games_gameId)
  next
    case (Suc m)
    then have "(i # j # js) ! k \<noteq> i" using 1 nth_mem [of m "j # js"] by auto
    then show ?thesis using 1(1) [of m] 1 Suc by (simp add: Let_def listen_def)
  qed
qed (simp_all add: less_Suc_eq)

lemma in_memory_iff: "in_memory w gid \<longleftrightarrow> gid \<in> game_key w ` set (memGames w)"
  by (force simp: in_memory_def)

text \<open>Removing from memory a game that is not there removes the game that was put there last.\<close>

lemma removing_absent_game:
  assumes "\<not> in_memory w (game_key w i)"
  shows "memGames (removeMemGame i w) = butlast (memGames w)"
  using assms mem_remove_absent [of "game_key w" i "memGames w"]
  by (simp add: removeMemGame_def in_memory_iff)

end
