(* ===== verification/Persist.thy ===== *)
theory Persist
  imports SessionProps
begin

text \<open>
  What the database holds of a game: the last state saved. Every event of a game saves its state; an
  answer is saved before it is recorded, so it reaches the database with the next event. What a
  restart makes of a stored game: a game that keeps its place and its players and has forgotten every
  answer.
\<close>

subsection \<open>The last state saved\<close>

fun last_saved :: "string \<Rightarrow> effect list \<Rightarrow> game_data option" where
  "last_saved gid [] = None"
| "last_saved gid (x # xs) =
     (case last_saved gid xs of
        Some gd \<Rightarrow> Some gd
      | None \<Rightarrow> (case x of SaveGame g gd \<Rightarrow> if g = gid then Some gd else None | _ \<Rightarrow> None))"

lemma last_saved_append:
  "last_saved gid (xs @ ys) = (case last_saved gid ys of Some gd \<Rightarrow> Some gd | None \<Rightarrow> last_saved gid xs)"
  by (induction xs) (auto split: option.split)

lemma last_saved_concat:
  assumes "\<And>x. x \<in> set xs \<Longrightarrow> last_saved gid (f x) \<in> {None, Some gd}"
    and "\<exists>x \<in> set xs. last_saved gid (f x) = Some gd"
  shows "last_saved gid (concat (map f xs)) = Some gd"
  using assms
proof (induction xs)
  case Nil
  then show ?case by simp
next
  case (Cons x xs)
  show ?case
  proof (cases "\<exists>y \<in> set xs. last_saved gid (f y) = Some gd")
    case True
    then show ?thesis using Cons by (simp add: last_saved_append)
  next
    case False
    then have "\<forall>y \<in> set xs. last_saved gid (f y) = None" using Cons.prems(1) by auto
    then have "last_saved gid (concat (map f xs)) = None"
      by (induction xs) (auto simp: last_saved_append)
    then show ?thesis using False Cons.prems by (auto simp: last_saved_append)
  qed
qed

lemma last_saved_leaf: "last_saved (gameId g) (leaf_out arg l g) \<in> {None, Some (state g)}"
  by (cases l) (auto split: event_arg.split)

text \<open>The listeners of the constructor that save are still there.\<close>

definition saving :: "game \<Rightarrow> bool" where
  "saving g \<longleftrightarrow> SaveState \<in> set (subs (cbMap g) EvState)
     \<and> (\<forall>ev \<in> {EvAnswer, EvStop, EvStart, EvRound}. TriggerState \<in> set (subs (cbMap g) ev))"

lemma saving_cong: "cbMap g = cbMap h \<Longrightarrow> saving g = saving h"
  by (simp add: saving_def)

lemma saving_new_Game [simp]: "saving (new_Game i gid ps rs cur st)"
  by (auto simp: saving_def subs_new_Game constructor_listeners_def)

lemma saving_on: "saving g \<Longrightarrow> saving (g\<lparr>cbMap := on ev l (cbMap g)\<rparr>)"
  by (auto simp: saving_def ev.listeners_reg)

lemma saving_updates [simp]:
  "saving (g\<lparr>players := ps\<rparr>) = saving g" "saving (g\<lparr>rounds := rs\<rparr>) = saving g"
  "saving (g\<lparr>currentRound := k\<rparr>) = saving g" "saving (g\<lparr>startTime := t\<rparr>) = saving g"
  "saving (g\<lparr>endTime := t\<rparr>) = saving g"
  by (simp_all add: saving_def)

lemma state_out_saved: "saving g \<Longrightarrow> last_saved (gameId g) (state_out g) = Some (state g)"
  unfolding state_out_def
  by (rule last_saved_concat) (use last_saved_leaf in \<open>auto simp: saving_def intro!: bexI [of _ SaveState]\<close>)

lemma event_out_saved:
  assumes "saving g" "ev \<in> {EvAnswer, EvStop, EvStart, EvRound}"
  shows "last_saved (gameId g) (event_out ev arg g) = Some (state g)"
  unfolding event_out_def
proof (rule last_saved_concat)
  show "\<exists>l \<in> set (subs (cbMap g) ev).
      last_saved (gameId g) (if l = TriggerState then state_out g else leaf_out arg l g) = Some (state g)"
    using assms by (auto simp: saving_def state_out_saved intro!: bexI [of _ TriggerState])
next
  fix l
  show "last_saved (gameId g) (if l = TriggerState then state_out g else leaf_out arg l g) \<in> {None, Some (state g)}"
    using state_out_saved [OF assms(1)] last_saved_leaf [of g arg l] by simp
qed

text \<open>Every operation but an answer ends with the state it leaves saved.\<close>

lemma clearTimeout_out [simp]: "out (clearTimeout t e) = out (e :: env)"
  by (simp add: clearTimeout_def split: option.split)

lemma scheduleTimer_out [simp]: "out (scheduleTimer gid act ms e) = out (e :: env)"
  by (simp add: scheduleTimer_eq Let_def)

lemma setTimeout_out [simp]: "out (snd (setTimeout act ms e)) = out (e :: env)"
  by (simp add: setTimeout_def)

definition saves_state :: "gst \<Rightarrow> bool" where
  "saves_state s \<longleftrightarrow> (let (g, e) = s in last_saved (gameId g) (out e) = Some (state g))"

lemma stop_fx_saves: "saving (fst s) \<Longrightarrow> saves_state (stop_fx s)"
  using event_out_saved [of "(fst s)\<lparr>endTime := Some (now (snd s))\<rparr>" EvStop]
  by (simp add: stop_fx_def saves_state_def Let_def case_prod_unfold last_saved_append)

lemma gotoRound_fx_saves: "saving (fst s) \<Longrightarrow> saves_state (gotoRound_fx k s)"
proof -
  assume sv: "saving (fst s)"
  obtain g e where s: "s = (g, e)" by fastforce
  show ?thesis
  proof (cases "js_nth (rounds g) k")
    case None
    then show ?thesis using sv stop_fx_saves [of "(g\<lparr>currentRound := k\<rparr>, e)"]
      by (simp add: s gotoRound_fx_def)
  next
    case (Some r)
    let ?g = "g\<lparr>currentRound := k, rounds := (rounds g)[nat k := r\<lparr>rstartTime := Some (now e)\<rparr>]\<rparr>"
    have "last_saved (gameId ?g) (event_out EvRound (RoundArg k) ?g) = Some (state ?g)"
      by (rule event_out_saved) (use sv s in simp_all)
    then show ?thesis using Some by (simp add: s gotoRound_fx_def saves_state_def Let_def last_saved_append)
  qed
qed

lemma playerReady_fx_saves: "saving (fst s) \<Longrightarrow> saves_state (playerReady_fx i b s)"
proof -
  assume sv: "saving (fst s)"
  let ?s = "playerReady_fx i b s"
  have "saving (fst ?s)" using sv saving_cong [of "fst ?s" "fst s"] by simp
  from state_out_saved [OF this] show ?thesis
    by (auto simp: saves_state_def playerReady_fx_def Let_def case_prod_unfold last_saved_append)
qed

text \<open>An answer: what is saved is the state before it.\<close>

lemma answer_fx_saves:
  "saving g \<Longrightarrow> last_saved (gameId g) (out (snd (answer_fx a (g, e)))) = Some (state g)"
  using event_out_saved [of g EvAnswer "AnswerArg a"]
  by (simp add: answer_fx_def Let_def last_saved_append)

text \<open>Reachable games save.\<close>

lemma step_cbMap:
  assumes "game_step s s'" "game_inv s"
  shows "cbMap (fst s') = cbMap (fst s) \<or> (\<exists>ev l. cbMap (fst s') = on ev l (cbMap (fst s)))"
  using assms
proof (induction rule: game_step.induct)
  case (client_answer a s res s')
  then show ?case using game_inv_wf [OF client_answer.prems]
    by (cases s) (auto simp: answer_cases split: option.splits if_splits)
next
  case (client_ready pid b s res s')
  then show ?case using game_inv_wf [OF client_ready.prems]
    by (cases s) (auto simp: method_eqs Let_def split: if_splits)
next
  case (timer i due act e g s')
  note pc = pending_cases [OF timer.prems timer.hyps(1)]
  show ?case using timer.hyps(3) pc(1) fire_eq [OF timer.prems pc(1)]
    by (auto split: if_splits)
qed auto

lemma reachable_saving: "reachable s \<Longrightarrow> saving (fst s)"
proof (induction rule: reachable.induct)
  case (resumed rs ps e cur i gid t res s)
  then show ?case
    by (auto simp: method_eqs dest!: arg_cong [of s _ "\<lambda>s. saving (fst s)"])
      (metis fx_cbMap saving_cong saving_new_Game fst_conv)
next
  case (step s s')
  then show ?case using step_cbMap [OF step.hyps(2) reachable_inv [OF step.hyps(1)]]
    by (auto simp: saving_def ev.listeners_reg)
qed simp

subsection \<open>Saved states arrive\<close>

definition row_of :: "string \<Rightarrow> db \<Rightarrow> db_game option" where
  "row_of gid d = List.find (\<lambda>r. row_gameId r = gid) (t_game d)"

lemma find_map_key:
  "(\<And>r. row_gameId (f r) = row_gameId r) \<Longrightarrow>
     List.find (\<lambda>r. row_gameId r = gid) (map f rs) = map_option f (List.find (\<lambda>r. row_gameId r = gid) rs)"
  by (induction rs) auto

lemma row_of_found: "row_of gid d = Some r \<Longrightarrow> row_gameId r = gid"
  by (auto simp: row_of_def find_Some_iff)

lemma save_row_data:
  assumes "db_works w"
  shows "map_option row_data (row_of gid (db (snd (save_row g gd w)))) =
    (if g = gid then map_option (\<lambda>_. GameText gd) (row_of gid (db w)) else map_option row_data (row_of gid (db w)))"
proof -
  let ?f = "\<lambda>r. if row_gameId r = g then r\<lparr>row_data := GameText gd\<rparr> else r"
  have "row_of gid (db (snd (save_row g gd w))) = map_option ?f (row_of gid (db w))"
    using assms find_map_key [of ?f gid "t_game (db w)"]
    by (simp add: save_row_def withDb_works update_game_stmt_def row_of_def)
  then show ?thesis using row_of_found [of gid "db w"] by (cases "row_of gid (db w)") auto
qed

lemma set_current_data:
  assumes "db_works w"
  shows "map_option row_data (row_of gid (db (snd (setCurrentGame sid g w)))) = map_option row_data (row_of gid (db w))"
proof -
  let ?f = "\<lambda>r. if row_sessionId r = sid then r\<lparr>row_isCurrent := False\<rparr> else r"
  let ?h = "\<lambda>r. if row_gameId r = g then r\<lparr>row_isCurrent := True\<rparr> else r"
  have "row_of gid (db (snd (setCurrentGame sid g w))) = map_option ?h (map_option ?f (row_of gid (db w)))"
    using assms find_map_key [of ?f gid "t_game (db w)"] find_map_key [of ?h gid "map ?f (t_game (db w))"]
    by (simp add: setCurrentGame_def withDb_works set_current_stmt_def row_of_def del: map_map)
  then show ?thesis by (cases "row_of gid (db w)") auto
qed

lemma run_effect_works: "db_works w \<Longrightarrow> db_works (run_effect x w)"
  by (cases x) (simp_all add: save_row_def setCurrentGame_def db_works_def)

lemma run_effects_saved:
  assumes "db_works w"
  shows "map_option row_data (row_of gid (db (run_effects xs w))) =
    (case last_saved gid xs of
       None \<Rightarrow> map_option row_data (row_of gid (db w))
     | Some gd \<Rightarrow> map_option (\<lambda>_. GameText gd) (row_of gid (db w)))"
  using assms
proof (induction xs arbitrary: w)
  case Nil
  then show ?case by (simp add: run_effects_def)
next
  case (Cons x xs)
  have one: "map_option row_data (row_of gid (db (run_effect x w))) =
      (case x of SaveGame g gd \<Rightarrow>
         (if g = gid then map_option (\<lambda>_. GameText gd) (row_of gid (db w)) else map_option row_data (row_of gid (db w)))
       | _ \<Rightarrow> map_option row_data (row_of gid (db w)))"
    using Cons.prems by (cases x) (simp_all add: save_row_data set_current_data)
  then have some: "(row_of gid (db (run_effect x w)) = None) = (row_of gid (db w) = None)"
    by (auto split: effect.splits if_splits)
  have "run_effects (x # xs) w = run_effects xs (run_effect x w)" by (simp add: run_effects_def)
  then show ?case using Cons.IH [OF run_effect_works [OF Cons.prems, of x]] one some
    by (auto split: option.splits effect.splits if_splits)
qed

subsection \<open>A restart\<close>

lemma restart_reachable:
  assumes "reachable (g, e)" and "list_all restorable (rounds g)" and e0: "idle_env e0"
  shows "\<exists>g' e'. deserializeGame i (state g) e0 = Inr (Inr g', e') \<and> reachable (g', e')"
proof -
  note inv = reachable_inv [OF assms(1)]
  have fr: "list_all fresh_round (map forget (rounds g))" "list_all single_round (map forget (rounds g))"
    using inv by (auto simp: list_all_iff game_inv_def game_base_def)
  have two: "2 \<le> length (players g)" and cur: "0 \<le> currentRound g" "currentRound g \<le> int (length (map forget (rounds g)))"
    using inv by (auto simp: game_inv_def game_base_def)
  show ?thesis
  proof (cases "startTime g")
    case None
    then have "currentRound g = 0" "\<not> both_ready (players g)"
      using game_inv_lobby [OF inv] by (auto simp: lobby_inv_def)
    then have "restored i g = new_Game i (gameId g) (players g) (map forget (rounds g)) None None"
      using None by (simp add: restored_def new_Game_def)
    then have "reachable (restored i g, e0)"
      using reachable.created [OF fr two _ e0] \<open>\<not> both_ready (players g)\<close> by simp
    then show ?thesis using deserialize_state [OF assms(2)] None by simp
  next
    case (Some t)
    let ?s = "gotoRound_fx (currentRound g) (restored i g, e0)"
    obtain res where "gotoRound trigger (currentRound g) (restored i g, e0) = Inr (res, ?s)"
      by (simp add: method_eqs)
    then have r: "reachable ?s"
      using reachable.resumed [OF fr two e0 cur, of i "gameId g" t] Some by (simp add: restored_def)
    obtain g1 e1 where "?s = (g1, e1)" by fastforce
    then show ?thesis using deserialize_state [OF assms(2), of i e0] Some r by simp
  qed
qed

text \<open>What the rebuilt game says of each round, and of its own times.\<close>

lemma gotoRound_fx_fields:
  "gameId (fst (gotoRound_fx k (g, e))) = gameId g" "players (fst (gotoRound_fx k (g, e))) = players g"
  "currentRound (fst (gotoRound_fx k (g, e))) = k" "startTime (fst (gotoRound_fx k (g, e))) = startTime g"
  "rounds (fst (gotoRound_fx k (g, e))) = (case js_nth (rounds g) k of None \<Rightarrow> rounds g
     | Some r \<Rightarrow> (rounds g)[nat k := r\<lparr>rstartTime := Some (now e)\<rparr>])"
  "endTime (fst (gotoRound_fx k (g, e))) = (if js_nth (rounds g) k = None then Some (now e) else endTime g)"
  by (auto simp: gotoRound_fx_def stop_fx_def Let_def split: option.split)

lemma restart_fields:
  assumes "list_all restorable (rounds g)" "startTime g = Some t"
    and run: "deserializeGame i (state g) e0 = Inr (Inr g', e')"
  shows "gameId g' = gameId g" "players g' = players g" "currentRound g' = currentRound g"
    "startTime g' = startTime g" "length (rounds g') = length (rounds g)"
    "\<forall>r \<in> set (rounds g'). ranswer r = None \<and> rendTime r = None"
    "endTime g' = (if js_nth (rounds g) (currentRound g) = None then Some (now e0) else None)"
    "saves_state (g', e')"
proof -
  let ?s = "gotoRound_fx (currentRound g) (restored i g, e0)"
  have s: "(g', e') = ?s" using run deserialize_state [OF assms(1), of i e0] assms(2)
    by (auto simp: Let_def case_prod_unfold prod_eq_iff)
  then have g': "g' = fst ?s" by (simp add: prod_eq_iff)
  have nth: "(js_nth (map forget (rounds g)) k = None) = (js_nth (rounds g) k = None)" for k
    by (simp add: js_nth_def)
  show "gameId g' = gameId g" "players g' = players g" "currentRound g' = currentRound g"
    "startTime g' = startTime g" "length (rounds g') = length (rounds g)"
    "endTime g' = (if js_nth (rounds g) (currentRound g) = None then Some (now e0) else None)"
    by (auto simp: g' gotoRound_fx_fields nth split: option.split)
  show "\<forall>r \<in> set (rounds g'). ranswer r = None \<and> rendTime r = None"
  proof (cases "js_nth (map forget (rounds g)) (currentRound g)")
    case None
    then show ?thesis by (auto simp: g' gotoRound_fx_fields forget_def)
  next
    case (Some r)
    then have "r \<in> set (map forget (rounds g))" by (auto simp: js_nth_Some_iff intro: nth_mem)
    then have "ranswer r = None \<and> rendTime r = None" by (auto simp: forget_def)
    then show ?thesis
      using Some by (auto simp: g' gotoRound_fx_fields forget_def dest!: subsetD [OF set_update_subset_insert])
  qed
  show "saves_state (g', e')"
    unfolding s by (rule gotoRound_fx_saves) (simp add: restored_def)
qed

end
