(* ===== verification/Views.thy ===== *)
theory Views
  imports Restore
begin

text \<open>
  Several games in one process share the event loop, the table of timers and the module variable
  \<open>gameTimers\<close>. The view of a game is the shared state with the timers of the other games left out.
  Running a method among other games, and then looking through the view, is running it on the view
  (a functional refinement), and the views of the other games do not change, provided no two games
  that can have timers share an id.
\<close>

fun act_oid :: "timer_act \<Rightarrow> nat" where
  "act_oid (AnswerTimeout i _) = i"
| "act_oid (GotoTimeout i _) = i"

definition view :: "nat \<Rightarrow> env \<Rightarrow> env" where
  "view i e = e\<lparr>pending := filter (\<lambda>(_, _, act). act_oid act = i) (pending e)\<rparr>"

definition viewed :: "gst \<Rightarrow> gst" where
  "viewed s = (fst s, view (oid (fst s)) (snd s))"

lemma viewed_pair: "viewed (g, e) = (g, view (oid g) e)"
  by (simp add: viewed_def)

lemma view_frame [simp]:
  "now (view i e) = now e" "nextTimer (view i e) = nextTimer e"
  "gameTimers (view i e) = gameTimers e" "out (view i e) = out e"
  by (simp_all add: view_def)

lemma pending_view: "pending (view i e) = filter (\<lambda>(_, _, act). act_oid act = i) (pending e)"
  by (simp add: view_def)

lemma view_updates [simp]:
  "view i (e\<lparr>now := t\<rparr>) = (view i e)\<lparr>now := t\<rparr>"
  "view i (e\<lparr>gameTimers := m\<rparr>) = (view i e)\<lparr>gameTimers := m\<rparr>"
  "view i (e\<lparr>pending := filter P (pending e)\<rparr>) = (view i e)\<lparr>pending := filter P (pending (view i e))\<rparr>"
  by (simp_all add: view_def conj_commute)

lemma clock_ok_view: "clock_ok e \<Longrightarrow> clock_ok (view i e)"
  by (auto simp: clock_ok_def view_def distinct_map_filter)

subsection \<open>A method seen through the view of its own game\<close>

lemma view_emit_all [simp]: "view i (emit_all xs e) = emit_all xs (view i e)"
  by (simp add: view_def emit_all_def)

lemma view_clearTimeout [simp]: "view i (clearTimeout t e) = clearTimeout t (view i e)"
  by (auto simp: clearTimeout_def split: option.split)

lemma view_setTimeout:
  "act_oid act = i \<Longrightarrow> view i (snd (setTimeout act ms e)) = snd (setTimeout act ms (view i e))"
  by (simp add: setTimeout_def view_def)

lemma view_scheduleTimer:
  "act_oid act = i \<Longrightarrow> view i (scheduleTimer gid act ms e) = scheduleTimer gid act ms (view i e)"
  by (simp add: scheduleTimer_eq Let_def pending_clearTimeout view_def clearTimeout_def conj_commute
      split: option.split)

lemma fx_oid [simp]:
  "oid (fst (stop_fx s)) = oid (fst s)" "oid (fst (gotoRound_fx k s)) = oid (fst s)"
  "oid (fst (start_fx s)) = oid (fst s)" "oid (fst (answer_fx a s)) = oid (fst s)"
  "oid (fst (playerReady_fx j b s)) = oid (fst s)"
  by (auto simp: stop_fx_def gotoRound_fx_def start_fx_def answer_fx_def playerReady_fx_def Let_def
      split: prod.splits option.splits if_splits)

lemma fx_gameId [simp]:
  "gameId (fst (stop_fx s)) = gameId (fst s)" "gameId (fst (gotoRound_fx k s)) = gameId (fst s)"
  "gameId (fst (start_fx s)) = gameId (fst s)" "gameId (fst (answer_fx a s)) = gameId (fst s)"
  "gameId (fst (playerReady_fx j b s)) = gameId (fst s)"
  by (auto simp: stop_fx_def gotoRound_fx_def start_fx_def answer_fx_def playerReady_fx_def Let_def
      split: prod.splits option.splits if_splits)

lemma viewed_stop: "stop_fx (viewed s) = viewed (stop_fx s)"
  by (simp add: stop_fx_def viewed_def Let_def case_prod_unfold)

lemma viewed_gotoRound: "gotoRound_fx k (viewed s) = viewed (gotoRound_fx k s)"
proof -
  obtain g e where s: "s = (g, e)" by fastforce
  show ?thesis
    using viewed_stop [of "(g\<lparr>currentRound := k\<rparr>, e)"]
    by (auto simp: s gotoRound_fx_def viewed_def Let_def view_scheduleTimer split: option.split)
qed

lemma viewed_start: "start_fx (viewed s) = viewed (start_fx s)"
proof -
  obtain g e where s: "s = (g, e)" by fastforce
  let ?s = "(g\<lparr>startTime := Some (now e)\<rparr>, e)"
  have "gotoRound_fx 0 (g\<lparr>startTime := Some (now e)\<rparr>, view (oid g) e) = viewed (gotoRound_fx 0 ?s)"
    using viewed_gotoRound [of 0 ?s] by (simp add: viewed_def)
  then show ?thesis
    by (simp add: s start_fx_def viewed_pair Let_def case_prod_unfold) (simp add: viewed_def)
qed

lemma viewed_playerReady: "playerReady_fx j b (viewed s) = viewed (playerReady_fx j b s)"
proof -
  obtain g e where s: "s = (g, e)" by fastforce
  let ?g = "g\<lparr>players := (players g)[j := (players g ! j)\<lparr>ready := b\<rparr>]\<rparr>"
  have "start_fx (?g, view (oid g) e) = viewed (start_fx (?g, e))"
    using viewed_start [of "(?g, e)"] by (simp add: viewed_def)
  then show ?thesis
    by (simp add: s playerReady_fx_def viewed_pair Let_def case_prod_unfold) (simp add: viewed_def)
qed

lemma viewed_answer: "answer_fx a (viewed s) = viewed (answer_fx a s)"
  by (simp add: answer_fx_def viewed_def Let_def case_prod_unfold view_setTimeout)

text \<open>The methods themselves.\<close>

lemma answer_viewed:
  assumes "wf_game (fst s)"
  shows "answer trigger a (viewed s) = mapR (\<lambda>(r, s'). (r, viewed s')) (answer trigger a s)"
proof -
  have v: "fst (viewed s) = fst s" "now (snd (viewed s)) = now (snd s)" by (simp_all add: viewed_def)
  show ?thesis using assms by (simp add: method_eqs v viewed_answer split: option.split)
qed

lemma playerReady_viewed:
  assumes "wf_game (fst s)" "2 \<le> length (players (fst s))"
  shows "playerReady trigger pid b (viewed s) = mapR (\<lambda>(r, s'). (r, viewed s')) (playerReady trigger pid b s)"
proof -
  have v: "fst (viewed s) = fst s" by (simp add: viewed_def)
  show ?thesis using assms by (simp add: method_eqs v Let_def viewed_playerReady)
qed

lemma gotoRound_viewed:
  assumes "wf_game (fst s)"
  shows "gotoRound trigger k (viewed s) = mapR (\<lambda>(r, s'). (r, viewed s')) (gotoRound trigger k s)"
proof -
  have v: "fst (viewed s) = fst s" by (simp add: viewed_def)
  show ?thesis using assms by (simp add: method_eqs v viewed_gotoRound)
qed

lemma fire_viewed: "wf_game (fst s) \<Longrightarrow> fire act (viewed s) = mapR viewed (fire act s)"
  by (cases act) (simp_all add: answer_viewed gotoRound_viewed mapR_def split: sum.split)


subsection \<open>What a method does to the timers of others\<close>

text \<open>
  The timer registered for a game id, while it is pending, belongs to the game \<open>i\<close>. Under this a
  method of that game touches no other timer: \<open>env_by\<close> says what it may do to the shared state.
\<close>

definition own_timer :: "nat \<Rightarrow> string \<Rightarrow> env \<Rightarrow> bool" where
  "own_timer i gid e \<longleftrightarrow>
     (\<forall>t due act. gameTimers e gid = Some t \<longrightarrow> (t, due, act) \<in> set (pending e) \<longrightarrow> act_oid act = i)"

definition env_by :: "nat \<Rightarrow> string \<Rightarrow> env \<Rightarrow> env \<Rightarrow> bool" where
  "env_by i gid e e' \<longleftrightarrow>
     (clock_ok e \<longrightarrow> own_timer i gid e \<longrightarrow>
        clock_ok e' \<and> own_timer i gid e' \<and> nextTimer e \<le> nextTimer e'
        \<and> (\<forall>j. j \<noteq> i \<longrightarrow> pending (view j e') = pending (view j e))
        \<and> (\<forall>gid'. gid' \<noteq> gid \<longrightarrow> gameTimers e' gid' = gameTimers e gid')
        \<and> (\<forall>p \<in> set (pending e'). p \<in> set (pending e) \<or> nextTimer e \<le> fst p))"

lemma env_by_trans: "env_by i gid e1 e2 \<Longrightarrow> env_by i gid e2 e3 \<Longrightarrow> env_by i gid e1 e3"
  unfolding env_by_def by (metis order_trans)

lemma env_by_calm:
  "env_by i gid e e' \<Longrightarrow> clock_ok e \<Longrightarrow> own_timer i gid e \<Longrightarrow> j \<noteq> i \<Longrightarrow>
     pending (view j e') = pending (view j e)"
  by (simp add: env_by_def)

lemma env_by_refl [simp]: "env_by i gid e e"
  by (simp add: env_by_def)

lemma env_by_emit_all [simp]: "env_by i gid e (emit_all xs e)"
  by (simp add: env_by_def own_timer_def)

lemma env_by_clearTimeout: "env_by i gid e (clearTimeout (gameTimers e gid) e)"
proof (cases "gameTimers e gid")
  case None
  then show ?thesis by (simp add: clearTimeout_def)
next
  case (Some t)
  have "pending (view j (clearTimeout (Some t) e)) = pending (view j e)" if "own_timer i gid e" "j \<noteq> i" for j
    using that Some
    by (auto simp: own_timer_def pending_view pending_clearTimeout intro!: filter_cong)
  then show ?thesis using Some
    by (auto simp: env_by_def tm.stop_ok own_timer_def pending_clearTimeout)
qed

lemma env_by_remove:
  assumes "(t, due, act) \<in> set (pending e)" "act_oid act = i" "clock_ok e"
  shows "env_by i gid e (e\<lparr>pending := filter (\<lambda>p. fst p \<noteq> t) (pending e)\<rparr>)"
proof -
  have "act_oid b = i" if "(t, d, b) \<in> set (pending e)" for d b
    using that assms by (metis clock_ok_def eq_key_imp_eq_value snd_conv)
  then have "pending (view j (e\<lparr>pending := filter (\<lambda>p. fst p \<noteq> t) (pending e)\<rparr>)) = pending (view j e)"
    if "j \<noteq> i" for j
    using that by (auto simp: pending_view intro!: filter_cong)
  moreover have "clock_ok (e\<lparr>pending := filter (\<lambda>p. fst p \<noteq> t) (pending e)\<rparr>)"
    using assms(3) by (auto simp: clock_ok_def distinct_map_filter)
  ultimately show ?thesis by (auto simp: env_by_def own_timer_def)
qed

lemma env_by_setTimeout:
  assumes "act_oid act = i"
  shows "env_by i gid e (snd (setTimeout act ms e))"
proof -
  have "gameTimers e gid \<noteq> Some (nextTimer e)" if "clock_ok e"
    using that by (auto simp: clock_ok_def)
  then have "own_timer i gid (snd (setTimeout act ms e))" if "clock_ok e" "own_timer i gid e"
    using that by (auto simp: own_timer_def setTimeout_def)
  then show ?thesis using assms
    unfolding env_by_def by (auto simp: tm.start_ok) (simp_all add: setTimeout_def pending_view)
qed

lemma env_by_register:
  assumes "act_oid act = i"
  shows "env_by i gid e ((snd (setTimeout act ms e))\<lparr>gameTimers := (gameTimers e)(gid := Some (nextTimer e))\<rparr>)"
    (is "env_by i gid e ?e")
  unfolding env_by_def
proof (intro impI conjI allI ballI)
  assume ok: "clock_ok e"
  then have old: "fst p < nextTimer e" if "p \<in> set (pending e)" for p
    using that by (simp add: clock_ok_def)
  have "clock_ok (snd (setTimeout act ms e))" using ok by (rule tm.start_ok)
  then show "clock_ok ?e" by (auto simp: clock_ok_def setTimeout_def)
  show "own_timer i gid ?e"
    unfolding own_timer_def
  proof (intro allI impI)
    fix t due b assume "gameTimers ?e gid = Some t" "(t, due, b) \<in> set (pending ?e)"
    then have "(nextTimer e, due, b) \<in> set (pending e) \<or> b = act" by (auto simp: setTimeout_def)
    then show "act_oid b = i" using old [of "(nextTimer e, due, b)"] assms by auto
  qed
  show "nextTimer e \<le> nextTimer ?e" by (simp add: setTimeout_def)
  show "pending (view j ?e) = pending (view j e)" if "j \<noteq> i" for j
    using that assms by (simp add: pending_view setTimeout_def)
  show "gameTimers ?e gid' = gameTimers e gid'" if "gid' \<noteq> gid" for gid'
    using that by simp
  show "p \<in> set (pending e) \<or> nextTimer e \<le> fst p" if "p \<in> set (pending ?e)" for p
    using that by (auto simp: setTimeout_def)
qed

lemma env_by_scheduleTimer:
  assumes "act_oid act = i"
  shows "env_by i gid e (scheduleTimer gid act ms e)"
proof -
  let ?e = "clearTimeout (gameTimers e gid) e"
  have "scheduleTimer gid act ms e =
      (snd (setTimeout act ms ?e))\<lparr>gameTimers := (gameTimers ?e)(gid := Some (nextTimer ?e))\<rparr>"
    by (simp add: scheduleTimer_eq Let_def setTimeout_def)
  then show ?thesis
    using env_by_trans [OF env_by_clearTimeout env_by_register [OF assms]] by simp
qed

text \<open>The methods, then.\<close>

lemma env_by_step: "env_by i gid e e1 \<Longrightarrow> env_by i gid e (emit_all xs e1)"
  using env_by_trans env_by_emit_all by blast

lemma env_by_fx:
  "env_by (oid (fst s)) (gameId (fst s)) (snd s) (snd (stop_fx s))"
  "env_by (oid (fst s)) (gameId (fst s)) (snd s) (snd (gotoRound_fx k s))"
  "env_by (oid (fst s)) (gameId (fst s)) (snd s) (snd (start_fx s))"
  "env_by (oid (fst s)) (gameId (fst s)) (snd s) (snd (answer_fx a s))"
  "env_by (oid (fst s)) (gameId (fst s)) (snd s) (snd (playerReady_fx j b s))"
proof -
  show stop: "env_by (oid (fst s)) (gameId (fst s)) (snd s) (snd (stop_fx s))" for s
    by (simp add: stop_fx_def Let_def case_prod_unfold)
  show goto: "env_by (oid (fst s)) (gameId (fst s)) (snd s) (snd (gotoRound_fx k s))" for k s
  proof (cases "js_nth (rounds (fst s)) k")
    case None
    then show ?thesis using stop [of "((fst s)\<lparr>currentRound := k\<rparr>, snd s)"]
      by (simp add: gotoRound_fx_def Let_def case_prod_unfold)
  next
    case (Some r)
    then show ?thesis
      using env_by_trans [OF env_by_emit_all env_by_scheduleTimer]
      by (simp add: gotoRound_fx_def Let_def case_prod_unfold)
  qed
  show start: "env_by (oid (fst s)) (gameId (fst s)) (snd s) (snd (start_fx s))" for s
    using goto [of "((fst s)\<lparr>startTime := Some (now (snd s))\<rparr>, snd s)" 0]
    by (simp add: start_fx_def Let_def case_prod_unfold env_by_step)
  show "env_by (oid (fst s)) (gameId (fst s)) (snd s) (snd (answer_fx a s))"
    using env_by_trans [OF env_by_step [OF env_by_clearTimeout] env_by_setTimeout]
    by (simp add: answer_fx_def Let_def case_prod_unfold)
  show "env_by (oid (fst s)) (gameId (fst s)) (snd s) (snd (playerReady_fx j b s))"
    using start [of "((fst s)\<lparr>players := (players (fst s))[j := (players (fst s) ! j)\<lparr>ready := b\<rparr>]\<rparr>, snd s)"]
    by (auto simp: playerReady_fx_def Let_def case_prod_unfold env_by_step)
qed


subsection \<open>All the games of a process\<close>

text \<open>
  \<open>os\<close> holds every game object built, \<open>ms\<close> the ones in memory. A game is live when it is in memory
  or has started: only then can it come to have a timer. Live games have different ids; every
  pending timer belongs to an object, and the one registered for an id to the object with that id.
\<close>

definition live :: "game list \<Rightarrow> nat list \<Rightarrow> nat set" where
  "live os ms = {i. i < length os \<and> (i \<in> set ms \<or> startTime (os ! i) \<noteq> None)}"

definition timers_owned :: "game list \<Rightarrow> env \<Rightarrow> bool" where
  "timers_owned os e \<longleftrightarrow>
     (\<forall>(t, due, act) \<in> set (pending e). act_oid act < length os
        \<and> (\<forall>gid. gameTimers e gid = Some t \<longrightarrow> gameId (os ! act_oid act) = gid))"

definition games_inv :: "game list \<Rightarrow> nat list \<Rightarrow> env \<Rightarrow> bool" where
  "games_inv os ms e \<longleftrightarrow>
     clock_ok e \<and> (\<forall>i < length os. oid (os ! i) = i \<and> game_inv (os ! i, view i e))
     \<and> distinct ms \<and> (\<forall>i \<in> set ms. i < length os)
     \<and> inj_on (\<lambda>i. gameId (os ! i)) (live os ms) \<and> timers_owned os e"

lemma games_inv_parts:
  assumes "games_inv os ms e"
  shows "clock_ok e" "distinct ms" "i \<in> set ms \<Longrightarrow> i < length os"
    "inj_on (\<lambda>i. gameId (os ! i)) (live os ms)" "timers_owned os e"
  using assms by (simp_all add: games_inv_def)

lemma game_inv_env:
  assumes "game_inv (g, e)" "pending e' = pending e" "clock_ok e'"
    and "startTime g \<noteq> None \<Longrightarrow> gameTimers e' (gameId g) = gameTimers e (gameId g)"
  shows "game_inv (g, e')"
  using assms by (cases "startTime g") (auto simp: inv_defs Let_def)

lemma games_invD:
  assumes "games_inv os ms e" "i < length os"
  shows "oid (os ! i) = i" "game_inv (os ! i, view i e)" "wf_game (os ! i)" "2 \<le> length (players (os ! i))"
proof -
  show "oid (os ! i) = i" and inv: "game_inv (os ! i, view i e)"
    using assms by (auto simp: games_inv_def)
  show "wf_game (os ! i)" "2 \<le> length (players (os ! i))" using game_inv_wf [OF inv] by simp_all
qed

lemma owner_live:
  assumes inv: "games_inv os ms e" and p: "(t, due, act) \<in> set (pending e)"
  shows "act_oid act < length os" "startTime (os ! act_oid act) \<noteq> None" "act_oid act \<in> live os ms"
proof -
  show len: "act_oid act < length os" using inv p by (auto simp: games_inv_def timers_owned_def)
  have "(t, due, act) \<in> set (pending (view (act_oid act) e))" using p by (simp add: pending_view)
  from pending_cases(2) [OF games_invD(2) [OF inv len] this]
  show "startTime (os ! act_oid act) \<noteq> None" .
  then show "act_oid act \<in> live os ms" using len by (simp add: live_def)
qed

lemma live_own_timer:
  assumes inv: "games_inv os ms e" and i: "i \<in> live os ms"
  shows "own_timer i (gameId (os ! i)) e"
  unfolding own_timer_def
proof (intro allI impI)
  fix t due act
  assume t: "gameTimers e (gameId (os ! i)) = Some t" and p: "(t, due, act) \<in> set (pending e)"
  have "gameId (os ! act_oid act) = gameId (os ! i)"
    using inv t p by (auto simp: games_inv_def timers_owned_def)
  then show "act_oid act = i"
    using inv i owner_live(3) [OF inv p] by (auto simp: games_inv_def dest: inj_onD)
qed

text \<open>The step all operations on a live game share.\<close>

lemma games_inv_step:
  assumes inv: "games_inv os ms e" and i: "i \<in> live os ms"
    and g: "game_inv (g', view i e')" "oid g' = i" "gameId g' = gameId (os ! i)"
    and e: "env_by i (gameId (os ! i)) e e'"
  shows "games_inv (os[i := g']) ms e'"
proof -
  let ?gid = "gameId (os ! i)" and ?os = "os[i := g']"
  have len: "i < length os" using i by (simp add: live_def)
  have ids: "gameId (?os ! j) = gameId (os ! j)" for j
    using g(3) len by (cases "j = i") auto
  note own = live_own_timer [OF inv i]
  have ok: "clock_ok e" using inv by (simp add: games_inv_def)
  have ok': "clock_ok e'" and own': "own_timer i ?gid e'"
    and others: "\<And>j. j \<noteq> i \<Longrightarrow> pending (view j e') = pending (view j e)"
    and tms: "\<And>gid. gid \<noteq> ?gid \<Longrightarrow> gameTimers e' gid = gameTimers e gid"
    and new: "\<And>p. p \<in> set (pending e') \<Longrightarrow> p \<in> set (pending e) \<or> nextTimer e \<le> fst p"
    using e ok own unfolding env_by_def by blast+
  have sub: "live ?os ms \<subseteq> live os ms" using i len by (auto simp: live_def nth_list_update split: if_splits)
  have "inj_on (\<lambda>i. gameId (?os ! i)) (live ?os ms)"
    unfolding ids by (rule inj_on_subset [OF _ sub]) (use inv in \<open>simp add: games_inv_def\<close>)
  moreover have "oid (?os ! j) = j \<and> game_inv (?os ! j, view j e')" if j: "j < length os" for j
  proof (cases "j = i")
    case True
    then show ?thesis using g len by simp
  next
    case False
    have "gameTimers e' (gameId (os ! j)) = gameTimers e (gameId (os ! j))" if "startTime (os ! j) \<noteq> None"
    proof (rule tms)
      have "j \<in> live os ms" using j that by (simp add: live_def)
      then show "gameId (os ! j) \<noteq> ?gid" using inv i False by (auto simp: games_inv_def dest: inj_onD)
    qed
    then have "game_inv (os ! j, view j e')"
      by (intro game_inv_env [OF games_invD(2) [OF inv j] others [OF False] clock_ok_view [OF ok']]) simp
    then show ?thesis using False games_invD(1) [OF inv j] by simp
  qed
  moreover have "timers_owned ?os e'"
    unfolding timers_owned_def
  proof (intro ballI, clarify)
    fix t due act assume p: "(t, due, act) \<in> set (pending e')"
    show "act_oid act < length ?os \<and> (\<forall>gid. gameTimers e' gid = Some t \<longrightarrow> gameId (?os ! act_oid act) = gid)"
    proof (cases "act_oid act = i")
      case True
      have "gid = ?gid" if "gameTimers e' gid = Some t" for gid
      proof (rule ccontr)
        assume ne: "gid \<noteq> ?gid"
        then have t: "gameTimers e gid = Some t" using that tms by simp
        then have "t < nextTimer e" using ok by (simp add: clock_ok_def)
        then have "(t, due, act) \<in> set (pending e)" using new [OF p] by auto
        then show False using inv t ne True by (auto simp: games_inv_def timers_owned_def)
      qed
      then show ?thesis using True len g(3) by auto
    next
      case False
      then have "(t, due, act) \<in> set (pending (view (act_oid act) e'))" using p by (simp add: pending_view)
      then have "(t, due, act) \<in> set (pending (view (act_oid act) e))" unfolding others [OF False] .
      then have old: "(t, due, act) \<in> set (pending e)" by (simp add: pending_view)
      have "gid \<noteq> ?gid" if "gameTimers e' gid = Some t" for gid
        using own' p that False by (auto simp: own_timer_def)
      then show ?thesis
        using inv old tms ids by (fastforce simp: games_inv_def timers_owned_def)
    qed
  qed
  ultimately show ?thesis using inv ok' by (simp add: games_inv_def)
qed


text \<open>A message for a live game, and a timer that runs.\<close>

lemma viewed_at:
  assumes "games_inv os ms e" "i < length os"
  shows "viewed (os ! i, e) = (os ! i, view i e)"
  using games_invD(1) [OF assms] by (simp add: viewed_def)

lemma answer_games_inv:
  assumes inv: "games_inv os ms e" and i: "i \<in> live os ms"
  shows "\<exists>res g' e'. answer trigger a (os ! i, e) = Inr (res, (g', e')) \<and> games_inv (os[i := g']) ms e'
    \<and> (\<forall>j. j \<noteq> i \<longrightarrow> pending (view j e') = pending (view j e))"
proof -
  have len: "i < length os" using i by (simp add: live_def)
  note own = games_invD [OF inv len] and at = viewed_at [OF inv len]
  obtain res g' e' where ans: "answer trigger a (os ! i, e) = Inr (res, (g', e'))"
    and fx: "(g', e') = (os ! i, e) \<or> (g', e') = answer_fx a (os ! i, e)"
    using answer_cases [OF own(3), of a e] by (auto split: option.splits if_splits) (metis surj_pair)+
  have g: "oid g' = i" "gameId g' = gameId (os ! i)"
    using fx own(1) fx_oid(4) [of a "(os ! i, e)"] fx_gameId(4) [of a "(os ! i, e)"] by (metis fst_conv)+
  have "answer trigger a (os ! i, view i e) = Inr (res, (g', view i e'))"
    using answer_viewed [of "(os ! i, e)" a] own(3) ans at by (simp add: viewed_pair g)
  from answer_inv [OF own(2) this] have gi: "game_inv (g', view i e')" .
  have by_e: "env_by i (gameId (os ! i)) e e'"
    using fx env_by_fx(4) [of "(os ! i, e)" a] own(1) by (metis env_by_refl fst_conv snd_conv)
  moreover have "clock_ok e" using inv by (simp add: games_inv_def)
  ultimately have "\<forall>j. j \<noteq> i \<longrightarrow> pending (view j e') = pending (view j e)"
    using env_by_calm [OF by_e _ live_own_timer [OF inv i]] by simp
  with ans games_inv_step [OF inv i gi g by_e] show ?thesis by blast
qed

lemma playerReady_games_inv:
  assumes inv: "games_inv os ms e" and i: "i \<in> live os ms"
  shows "\<exists>res g' e'. playerReady trigger pid b (os ! i, e) = Inr (res, (g', e')) \<and> games_inv (os[i := g']) ms e'
    \<and> (\<forall>j. j \<noteq> i \<longrightarrow> pending (view j e') = pending (view j e))"
proof -
  have len: "i < length os" using i by (simp add: live_def)
  note own = games_invD [OF inv len] and at = viewed_at [OF inv len]
  let ?k = "nat (find_index (\<lambda>p. playerId p = pid) (players (os ! i)))"
  obtain res g' e' where run: "playerReady trigger pid b (os ! i, e) = Inr (res, (g', e'))"
    and fx: "(g', e') = (os ! i, e) \<or> (g', e') = playerReady_fx ?k b (os ! i, e)"
    using own(3,4) that
    by (cases "playerReady_fx ?k b (os ! i, e)";
        cases "find_index (\<lambda>p. playerId p = pid) (players (os ! i)) = -1") (simp_all add: method_eqs Let_def)
  have g: "oid g' = i" "gameId g' = gameId (os ! i)"
    using fx own(1) fx_oid(5) [of ?k b "(os ! i, e)"] fx_gameId(5) [of ?k b "(os ! i, e)"]
    by (metis fst_conv)+
  have "playerReady trigger pid b (os ! i, view i e) = Inr (res, (g', view i e'))"
    using playerReady_viewed [of "(os ! i, e)" pid b] own(3,4) run at by (simp add: viewed_pair g)
  from playerReady_inv [OF own(2) this] have gi: "game_inv (g', view i e')" .
  have by_e: "env_by i (gameId (os ! i)) e e'"
    using fx env_by_fx(5) [of "(os ! i, e)" ?k b] own(1) by (metis env_by_refl fst_conv snd_conv)
  moreover have "clock_ok e" using inv by (simp add: games_inv_def)
  ultimately have "\<forall>j. j \<noteq> i \<longrightarrow> pending (view j e') = pending (view j e)"
    using env_by_calm [OF by_e _ live_own_timer [OF inv i]] by simp
  with run games_inv_step [OF inv i gi g by_e] show ?thesis by blast
qed

lemma fire_games_inv:
  assumes inv: "games_inv os ms e" and p: "(t, due, act) \<in> set (pending e)"
  defines "i \<equiv> act_oid act" and "e1 \<equiv> e\<lparr>pending := filter (\<lambda>p. fst p \<noteq> t) (pending e)\<rparr>"
  shows "\<exists>g' e'. fire act (os ! i, e1) = Inr (g', e') \<and> games_inv (os[i := g']) ms e'
    \<and> (\<forall>j. j \<noteq> i \<longrightarrow> pending (view j e') = pending (view j e))"
proof -
  have i: "i < length os" "i \<in> live os ms" using owner_live [OF inv p] by (simp_all add: i_def)
  note own = games_invD [OF inv i(1)]
  have ok: "clock_ok e" using inv by (simp add: games_inv_def)
  have pv: "(t, due, act) \<in> set (pending (view i e))" using p by (simp add: pending_view i_def)
  note pc = pending_cases [OF own(2) pv]
  have k: "0 \<le> currentRound (os ! i)" using own(2) by (simp add: game_inv_def game_base_def)
  have nth: "js_nth (rounds (os ! i)) (currentRound (os ! i)) = Some (rounds (os ! i) ! nat (currentRound (os ! i)))"
    using k pc(4) by (simp add: js_nth_def)
  let ?fx = "if rendTime (rounds (os ! i) ! nat (currentRound (os ! i))) = None
     then answer_fx \<lparr>a_round = currentRound (os ! i), a_value = None\<rparr> (os ! i, e1)
     else gotoRound_fx (currentRound (os ! i) + 1) (os ! i, e1)"
  have st: "rstartTime (rounds (os ! i) ! nat (currentRound (os ! i))) \<noteq> None"
    using pc(3) by (simp add: running_inv_def Let_def)
  have run: "fire act (os ! i, e1) = Inr ?fx"
    using pc(5) own(3) nth st by (auto simp: answer_cases open_round_def method_eqs)
  obtain g' e' where fx: "?fx = (g', e')" by fastforce
  have g: "oid g' = i" "gameId g' = gameId (os ! i)"
    using fx own(1) fx_oid(2,4) fx_gameId(2,4) by (metis fst_conv)+
  have v1: "view i e1 = (view i e)\<lparr>pending := []\<rparr>"
    using pc(1) by (simp add: e1_def)
  have "fire act (viewed (os ! i, e1)) = Inr (viewed (g', e'))"
    using fire_viewed [of "(os ! i, e1)" act] own(3) run fx by simp
  then have "fire act (os ! i, (view i e)\<lparr>pending := []\<rparr>) = Inr (g', view i e')"
    using own(1) g(1) v1 by (simp add: viewed_pair)
  from fire_inv [OF own(2) pc(1) this] have gi: "game_inv (g', view i e')" .
  have "env_by i (gameId (os ! i)) e1 e'"
    using fx own(1) env_by_fx(2) [of "(os ! i, e1)"] env_by_fx(4) [of "(os ! i, e1)"]
    by (metis fst_conv snd_conv)
  from env_by_trans [OF env_by_remove [OF p _ ok] this [unfolded e1_def]]
  have by_e: "env_by i (gameId (os ! i)) e e'" by (simp add: i_def)
  then have "\<forall>j. j \<noteq> i \<longrightarrow> pending (view j e') = pending (view j e)"
    using env_by_calm [OF by_e ok live_own_timer [OF inv i(2)]] by simp
  with run fx games_inv_step [OF inv i(2) gi g by_e] show ?thesis by auto
qed


subsection \<open>Games come and go\<close>

lemma games_inv_tick: "games_inv os ms e \<Longrightarrow> games_inv os ms (e\<lparr>now := t\<rparr>)"
  by (auto simp: games_inv_def timers_owned_def clock_ok_def game_inv_tick)

lemma games_inv_subscribe:
  assumes inv: "games_inv os ms e" and l: "leaf l" "ev \<noteq> EvPlayerReady" "i < length os"
  shows "games_inv (os[i := (os ! i)\<lparr>cbMap := on ev l (cbMap (os ! i))\<rparr>]) ms e" (is "games_inv ?os ms e")
proof -
  have same: "gameId (?os ! j) = gameId (os ! j)" "startTime (?os ! j) = startTime (os ! j)"
    "oid (?os ! j) = oid (os ! j)" for j
    using l(3) by (cases "j = i", simp_all)+
  have "live ?os ms = live os ms" by (simp add: live_def same)
  moreover have "game_inv (?os ! j, view j e)" if "j < length os" for j
    using games_invD(2) [OF inv that] game_inv_subscribe [OF _ l(1,2)] l(3) by (cases "j = i") auto
  ultimately show ?thesis using inv by (auto simp: games_inv_def timers_owned_def same)
qed

lemma games_inv_forget:
  assumes inv: "games_inv os ms e" and ms: "set ms' \<subseteq> set ms" "distinct ms'"
  shows "games_inv os ms' e"
proof -
  have "live os ms' \<subseteq> live os ms" using ms(1) by (auto simp: live_def)
  then have "inj_on (\<lambda>i. gameId (os ! i)) (live os ms')"
    using inv inj_on_subset by (auto simp: games_inv_def)
  then show ?thesis using inv ms by (auto simp: games_inv_def)
qed

lemma games_inv_alloc:
  assumes inv: "games_inv os ms e"
    and rs: "list_all fresh_round rs" "list_all single_round rs" "2 \<le> length ps" "\<not> both_ready ps"
  shows "games_inv (os @ [new_Game (length os) gid ps rs None None]) ms e" (is "games_inv ?os ms e")
proof -
  have ok: "clock_ok e" using inv by (simp add: games_inv_def)
  have none: "pending (view (length os) e) = []"
    using inv by (auto simp: games_inv_def timers_owned_def pending_view filter_empty_conv)
  then have "idle_env (view (length os) e)" using ok by (simp add: idle_env_def clock_ok_view)
  then have "game_inv (new_Game (length os) gid ps rs None None, view (length os) e)"
    by (intro created_inv rs)
  moreover have "oid (new_Game (length os) gid ps rs None None) = length os" by (simp add: new_Game_def)
  ultimately have "oid (?os ! i) = i \<and> game_inv (?os ! i, view i e)" if "i < length ?os" for i
    using inv that by (cases "i = length os") (auto simp: games_inv_def nth_append)
  moreover have "live ?os ms = live os ms"
    using inv by (auto simp: live_def nth_append games_inv_def new_Game_def)
  moreover have "inj_on (\<lambda>i. gameId (?os ! i)) (live os ms) = inj_on (\<lambda>i. gameId (os ! i)) (live os ms)"
    by (rule inj_on_cong) (simp add: live_def nth_append)
  moreover have "timers_owned ?os e"
    using inv by (fastforce simp: games_inv_def timers_owned_def nth_append)
  ultimately show ?thesis using inv by (auto simp: games_inv_def)
qed

lemma games_inv_remember:
  assumes inv: "games_inv os ms e" and i: "i < length os" "i \<notin> set ms"
    and new: "\<And>j. j \<in> live os ms \<Longrightarrow> gameId (os ! j) \<noteq> gameId (os ! i)"
  shows "games_inv os (ms @ [i]) e"
proof -
  have "live os (ms @ [i]) = insert i (live os ms)" using i by (auto simp: live_def)
  moreover have "inj_on (\<lambda>i. gameId (os ! i)) (insert i (live os ms))"
    unfolding inj_on_insert using new inv by (force simp: games_inv_def)
  ultimately show ?thesis using inv i by (auto simp: games_inv_def)
qed

text \<open>A stored game that can be restored: what \<open>state\<close> gives of a game that satisfies the invariant.\<close>

definition stored_ok :: "game_data \<Rightarrow> bool" where
  "stored_ok gd \<longleftrightarrow>
     2 \<le> length (gd_players gd) \<and> list_all (\<lambda>d. \<not> isl (createRound d)) (gd_rounds gd)
     \<and> (case gd_currentRound gd of
          None \<Rightarrow> True
        | Some k \<Rightarrow> 0 \<le> k \<and> k \<le> int (length (gd_rounds gd)) \<and> (gd_startTime gd = None \<longrightarrow> k = 0))
     \<and> (gd_startTime gd = None \<longrightarrow> \<not> both_ready (gd_players gd))"


lemma stored_rounds:
  assumes "stored_ok gd"
  obtains rs where "aoe2ea (map createRound (gd_rounds gd)) = Inr rs"
    "list_all fresh_round rs" "list_all single_round rs" "length rs = length (gd_rounds gd)"
proof -
  have "\<exists>r. createRound d = Inr r \<and> fresh_round r \<and> single_round r" if "d \<in> set (gd_rounds gd)" for d
  proof (cases "createRound d")
    case (Inl m)
    then show ?thesis using assms that by (auto simp: stored_ok_def list_all_iff)
  next
    case (Inr r)
    then show ?thesis using createRound_Inr(2,3) [OF Inr] by blast
  qed
  then obtain f where f: "\<forall>d \<in> set (gd_rounds gd). createRound d = Inr (f d) \<and> fresh_round (f d) \<and> single_round (f d)"
    by metis
  show thesis
  proof (rule that)
    have "map createRound (gd_rounds gd) = map (\<lambda>d. Inr (f d)) (gd_rounds gd)" using f by simp
    then show "aoe2ea (map createRound (gd_rounds gd)) = Inr (map f (gd_rounds gd))"
      by (simp only: aoe2ea_map_Inr)
  qed (use f in \<open>simp_all add: list_all_iff\<close>)
qed

lemma restored_before_round:
  assumes st: "stored_ok gd" "gd_startTime gd = Some t" and e: "clock_ok e" "pending e = []"
    and rs: "list_all fresh_round rs" "list_all single_round rs" "length rs = length (gd_rounds gd)"
  shows "before_round (case gd_currentRound gd of None \<Rightarrow> 0 | Some k \<Rightarrow> k)
    (new_Game i gid (gd_players gd) rs (gd_currentRound gd) (Some t), e)"
proof -
  have "\<not> open_round (rs ! j)" if "j < length rs" for j
    using rs(1) that fresh_not_open by (auto simp: list_all_length)
  moreover have "wf_game (new_Game i gid (gd_players gd) rs (gd_currentRound gd) (Some t))" by simp
  ultimately show ?thesis
    using st e rs
    by (cases "gd_currentRound gd") (auto simp: before_round_def stored_ok_def new_Game_def list_all_length)
qed

lemma games_inv_init:
  assumes inv: "games_inv os ms e" and st: "stored_ok gd"
    and new: "\<And>j. j \<in> live os ms \<Longrightarrow> gameId (os ! j) \<noteq> gd_gameId gd"
  shows "\<exists>g' e'. deserializeGame (length os) gd e = Inr (Inr g', e')
    \<and> games_inv (os @ [g']) (ms @ [length os]) e' \<and> gameId g' = gd_gameId gd
    \<and> players g' = gd_players gd
    \<and> (\<forall>j < length os. pending (view j e') = pending (view j e))"
proof -
  let ?i = "length os" and ?gid = "gd_gameId gd"
  obtain rs where rs: "aoe2ea (map createRound (gd_rounds gd)) = Inr rs"
    "list_all fresh_round rs" "list_all single_round rs" "length rs = length (gd_rounds gd)"
    using stored_rounds [OF st] .
  let ?g0 = "new_Game ?i ?gid (gd_players gd) rs (gd_currentRound gd) (gd_startTime gd)"
  have des: "deserializeGame ?i gd e = mapR (\<lambda>(g, e'). (Inr g, e')) (resumeGame (?g0, e))"
    using rs(1) by (simp add: deserializeGame_def)
  have added: "games_inv (os @ [new_Game ?i ?gid ps rs None None]) (ms @ [?i]) e"
    if "2 \<le> length ps" "\<not> both_ready ps" for ps
  proof (rule games_inv_remember)
    let ?os = "os @ [new_Game ?i ?gid ps rs None None]"
    show a: "games_inv ?os ms e" using inv rs(2,3) that by (rule games_inv_alloc)
    show "?i < length ?os" "?i \<notin> set ms" using inv by (auto simp: games_inv_def)
    show "gameId (?os ! j) \<noteq> gameId (?os ! ?i)" if "j \<in> live ?os ms" for j
    proof -
      have "j \<in> live os ms" using that inv by (auto simp: live_def nth_append new_Game_def games_inv_def split: if_splits)
      then show ?thesis using new [of j] by (simp add: live_def nth_append new_Game_def)
    qed
  qed
  show ?thesis
  proof (cases "gd_startTime gd")
    case None
    then have "?g0 = new_Game ?i ?gid (gd_players gd) rs None None"
      using st by (auto simp: stored_ok_def new_Game_def split: option.splits)
    then show ?thesis using None st des added [of "gd_players gd"]
      by (simp add: stored_ok_def resumeGame_def) (simp add: new_Game_def)
  next
    case (Some t)
    let ?k = "case gd_currentRound gd of None \<Rightarrow> 0 | Some k \<Rightarrow> k"
    let ?ps = "[\<lparr>playerId = [], ready = False\<rparr>, \<lparr>playerId = [], ready = False\<rparr>]"
    let ?os = "os @ [new_Game ?i ?gid ?ps rs None None]"
    have dummy: "games_inv ?os (ms @ [?i]) e" by (rule added) (simp_all add: both_ready_def)
    have live: "?i \<in> live ?os (ms @ [?i])" by (simp add: live_def)
    have ok: "clock_ok e" using inv by (simp add: games_inv_def)
    have none: "pending (view ?i e) = []"
      using inv by (auto simp: games_inv_def timers_owned_def pending_view filter_empty_conv)
    obtain g' e' where fx: "gotoRound_fx ?k (?g0, e) = (g', e')" by fastforce
    have o0: "oid ?g0 = ?i" "gameId ?g0 = ?gid" "players ?g0 = gd_players gd" by (simp_all add: new_Game_def)
    have g: "oid g' = ?i" "gameId g' = ?gid" "players g' = gd_players gd"
      using fx_oid(2) [of ?k "(?g0, e)"] fx_gameId(2) [of ?k "(?g0, e)"] gotoRound_fx_players [of ?k "(?g0, e)"]
      by (simp_all add: fx o0)
    have cur: "currentRound ?g0 = ?k" "startTime ?g0 = Some t" using Some by (simp_all add: new_Game_def)
    have run: "deserializeGame ?i gd e = Inr (Inr g', e')"
      using des fx cur by (simp add: resumeGame_def method_eqs)
    have "before_round ?k (?g0, view ?i e)"
      using restored_before_round [OF st Some clock_ok_view [OF ok] none rs(2-4)] Some by simp
    then have "game_inv (gotoRound_fx ?k (?g0, view ?i e))" by (rule gotoRound_fx_inv)
    moreover have "gotoRound_fx ?k (?g0, view ?i e) = (g', view ?i e')"
      using viewed_gotoRound [of ?k "(?g0, e)"] fx by (simp add: viewed_pair o0 g)
    ultimately have gi: "game_inv (g', view ?i e')" by simp
    have by_e: "env_by ?i (gameId (?os ! ?i)) e e'"
      using env_by_fx(2) [of "(?g0, e)" ?k] fx o0 by (simp add: new_Game_def)
    have "games_inv (?os[?i := g']) (ms @ [?i]) e'"
      by (rule games_inv_step [OF dummy live gi g(1) _ by_e]) (simp add: g new_Game_def)
    then have "games_inv (os @ [g']) (ms @ [?i]) e'" by simp
    moreover have "\<forall>j < ?i. pending (view j e') = pending (view j e)"
      using env_by_calm [OF by_e ok live_own_timer [OF dummy live]] by simp
    ultimately show ?thesis using run g by blast
  qed
qed

lemma state_stored_ok:
  assumes "game_inv (g, e)" "list_all restorable (rounds g)"
  shows "stored_ok (state g)"
proof -
  have "\<not> isl (createRound (round_state r))" if "r \<in> set (rounds g)" for r
    using createRound_state assms(2) that by (simp add: list_all_iff)
  then show ?thesis
    using game_inv_base [OF assms(1)] game_inv_lobby [OF assms(1)]
    by (auto simp: stored_ok_def state_def game_base_def lobby_inv_def list_all_iff)
qed

end
