(* ===== verification/Process.thy ===== *)
theory Process
  imports Persist Views
begin

text \<open>
  The invariant of the whole process: every game object seen through its view satisfies the
  invariant of a game, every state that is on its way to the database and every state in it can be
  restored, and no id that is still to be drawn is in use. What messages, timers and effects do to
  it; what creating, initialising and removing sessions does is in the theory Lifecycle.
\<close>

subsection \<open>States on their way to the database\<close>

definition saves :: "env \<Rightarrow> (string \<times> game_data) set" where
  "saves e = {(gid, gd). SaveGame gid gd \<in> set (out e)}"

lemma saves_frame [simp]:
  "saves (clearTimeout t e) = saves e" "saves (scheduleTimer gid act ms e) = saves e"
  "saves (snd (setTimeout act ms e)) = saves e" "saves (e\<lparr>pending := p\<rparr>) = saves e"
  "saves (e\<lparr>now := u\<rparr>) = saves e"
  by (simp_all add: saves_def)

lemma saves_emit_all: "saves (emit_all xs e) = {(gid, gd). SaveGame gid gd \<in> set xs} \<union> saves e"
  by (auto simp: saves_def)

lemma leaf_saves: "SaveGame gid gd \<in> set (leaf_out arg l g) \<Longrightarrow> gid = gameId g \<and> gd = state g"
  by (cases l) (auto split: event_arg.splits if_splits)

lemma state_saves: "SaveGame gid gd \<in> set (state_out g) \<Longrightarrow> gid = gameId g \<and> gd = state g"
  by (auto simp: state_out_def dest: leaf_saves)

lemma event_saves: "SaveGame gid gd \<in> set (event_out ev arg g) \<Longrightarrow> gid = gameId g \<and> gd = state g"
  by (auto simp: event_out_def dest: leaf_saves state_saves split: if_splits)

lemma saves_emit_state: "saves (emit_all (state_out g) e) \<subseteq> insert (gameId g, state g) (saves e)"
  by (auto simp: saves_emit_all dest: state_saves)

lemma saves_emit_event: "saves (emit_all (event_out ev arg g) e) \<subseteq> insert (gameId g, state g) (saves e)"
  by (auto simp: saves_emit_all dest: event_saves)

lemma saves_stop: "saves (snd (stop_fx s)) \<subseteq> insert (gameId (fst s), state (fst (stop_fx s))) (saves (snd s))"
  by (auto simp: stop_fx_def Let_def case_prod_unfold saves_emit_all dest: event_saves)

lemma saves_gotoRound:
  "saves (snd (gotoRound_fx k s)) \<subseteq> insert (gameId (fst s), state (fst (gotoRound_fx k s))) (saves (snd s))"
proof (cases "js_nth (rounds (fst s)) k")
  case None
  then show ?thesis using saves_stop [of "((fst s)\<lparr>currentRound := k\<rparr>, snd s)"]
    by (simp add: gotoRound_fx_def Let_def case_prod_unfold)
next
  case (Some r)
  then show ?thesis
    by (auto simp: gotoRound_fx_def Let_def case_prod_unfold saves_emit_all dest: event_saves)
qed

lemma saves_start:
  "saves (snd (start_fx s)) \<subseteq> insert (gameId (fst s), state (fst (start_fx s))) (saves (snd s))"
proof -
  let ?s = "((fst s)\<lparr>startTime := Some (now (snd s))\<rparr>, snd s)"
  obtain g1 e1 where s1: "gotoRound_fx 0 ?s = (g1, e1)" by fastforce
  have gid: "gameId g1 = gameId (fst s)" using fx_gameId(2) [of 0 ?s] s1 by simp
  have "saves e1 \<subseteq> insert (gameId (fst s), state g1) (saves (snd s))"
    using saves_gotoRound [of 0 ?s] s1 by simp
  then show ?thesis
    using s1 gid saves_emit_event [of EvStart GameArg g1 e1]
    by (auto simp: start_fx_def Let_def case_prod_unfold)
qed

lemma saves_playerReady:
  "saves (snd (playerReady_fx i b s)) \<subseteq>
     insert (gameId (fst s), state (fst (playerReady_fx i b s))) (saves (snd s))"
proof -
  let ?g = "(fst s)\<lparr>players := (players (fst s))[i := (players (fst s) ! i)\<lparr>ready := b\<rparr>]\<rparr>"
  let ?s1 = "if startTime ?g = None \<and> both_ready (players ?g) then start_fx (?g, snd s) else (?g, snd s)"
  obtain g1 e1 where s1: "?s1 = (g1, e1)" by fastforce
  have fx: "playerReady_fx i b s = (g1, emit_all (state_out g1) e1)"
    using s1 by (simp add: playerReady_fx_def Let_def case_prod_unfold)
  have "gameId g1 = gameId (fst s)"
    using fx_gameId(5) [of i b s] fx by simp
  moreover have "saves e1 \<subseteq> insert (gameId (fst s), state g1) (saves (snd s))"
    using s1 saves_start [of "(?g, snd s)"] by (auto split: if_splits)
  ultimately show ?thesis using saves_emit_state [of g1 e1] by (auto simp: fx)
qed

lemma saves_answer:
  "saves (snd (answer_fx a s)) \<subseteq> insert (gameId (fst s), state (fst s)) (saves (snd s))"
  using saves_emit_event [of EvAnswer "AnswerArg a" "fst s" "clearTimeout (gameTimers (snd s) (gameId (fst s))) (snd s)"]
  by (simp add: answer_fx_def Let_def case_prod_unfold)

subsection \<open>Rounds keep their kind and name\<close>

lemma restorable_updates [simp]:
  "restorable (r\<lparr>rstartTime := t\<rparr>) = restorable r"
  by (simp add: restorable_def single_round_def)

lemma restorable_onAnswer [simp]: "restorable (snd (onAnswer t a r)) = restorable r"
  by (simp add: restorable_def single_round_def onAnswer_frame)

lemma list_all_restorable_update:
  assumes "list_all restorable rs" "restorable (rs ! i) \<Longrightarrow> restorable r"
  shows "list_all restorable (rs[i := r])"
  using assms by (cases "i < length rs") (auto simp: list_all_length nth_list_update)

lemma fx_restorable:
  assumes "list_all restorable (rounds (fst s))"
  shows "list_all restorable (rounds (fst (gotoRound_fx k s)))"
    and "list_all restorable (rounds (fst (start_fx s)))"
    and "list_all restorable (rounds (fst (answer_fx a s)))"
    and "list_all restorable (rounds (fst (playerReady_fx i b s)))"
proof -
  have goto: "list_all restorable (rounds (fst (gotoRound_fx k s)))"
    if "list_all restorable (rounds (fst s))" for k s
  proof (cases "js_nth (rounds (fst s)) k")
    case None
    then show ?thesis using that by (simp add: gotoRound_fx_def stop_fx_def Let_def case_prod_unfold)
  next
    case (Some r)
    then have "r = rounds (fst s) ! nat k" by (simp add: js_nth_Some_iff)
    then show ?thesis using that Some
      by (auto simp: gotoRound_fx_def Let_def case_prod_unfold intro!: list_all_restorable_update)
  qed
  have start: "list_all restorable (rounds (fst (start_fx s)))" if "list_all restorable (rounds (fst s))" for s
    using goto [of "((fst s)\<lparr>startTime := Some (now (snd s))\<rparr>, snd s)" 0] that
    by (simp add: start_fx_def Let_def case_prod_unfold)
  show "list_all restorable (rounds (fst (gotoRound_fx k s)))"
    and "list_all restorable (rounds (fst (start_fx s)))" using assms by (rule goto, rule start)
  show "list_all restorable (rounds (fst (answer_fx a s)))"
    using assms by (auto simp: answer_fx_def Let_def case_prod_unfold intro!: list_all_restorable_update)
  show "list_all restorable (rounds (fst (playerReady_fx i b s)))"
    using assms start [of "((fst s)\<lparr>players := (players (fst s))[i := (players (fst s) ! i)\<lparr>ready := b\<rparr>]\<rparr>, snd s)"]
    by (simp add: playerReady_fx_def Let_def case_prod_unfold)
qed


subsection \<open>The invariant of the process\<close>

definition save_ok :: "string \<times> game_data \<Rightarrow> bool" where
  "save_ok x \<longleftrightarrow> stored_ok (snd x) \<and> gd_gameId (snd x) = fst x"

definition row_ok :: "db_game \<Rightarrow> bool" where
  "row_ok r \<longleftrightarrow> (\<exists>gd. row_data r = GameText gd \<and> save_ok (row_gameId r, gd))"

definition row_ids :: "world \<Rightarrow> string set" where
  "row_ids w = row_gameId ` set (t_game (db w))"

definition live_ids :: "world \<Rightarrow> string set" where
  "live_ids w = game_key w ` live (objs w) (memGames w)"

text \<open>\<open>crypto.randomUUID\<close> does not repeat itself: no id still to be drawn is in use.\<close>

definition ids_fresh :: "world \<Rightarrow> bool" where
  "ids_fresh w \<longleftrightarrow> inj (uuids w) \<and> (\<forall>n \<ge> uuid_count w. uuids w n \<notin> row_ids w \<union> live_ids w)"

definition world_inv :: "world \<Rightarrow> bool" where
  "world_inv w \<longleftrightarrow>
     games_inv (objs w) (memGames w) (genv w)
     \<and> (\<forall>g \<in> set (objs w). list_all restorable (rounds g))
     \<and> (\<forall>x \<in> saves (genv w). save_ok x) \<and> (\<forall>r \<in> set (t_game (db w)). row_ok r) \<and> ids_fresh w"

lemma world_invD:
  assumes "world_inv w"
  shows "games_inv (objs w) (memGames w) (genv w)" "ids_fresh w"
    "g \<in> set (objs w) \<Longrightarrow> list_all restorable (rounds g)"
    "x \<in> saves (genv w) \<Longrightarrow> save_ok x" "r \<in> set (t_game (db w)) \<Longrightarrow> row_ok r"
  using assms by (simp_all add: world_inv_def)

lemma game_save_ok:
  assumes "game_inv (g, e)" "list_all restorable (rounds g)" "gameId g = gid"
  shows "save_ok (gid, state g)"
  using state_stored_ok [OF assms(1,2)] assms(3) by (simp add: save_ok_def) (simp add: state_def)

text \<open>What an accepted message or a timer makes of a game, in one form for the three.\<close>

definition game_op :: "(gst \<Rightarrow> exn + 'r \<times> gst) \<Rightarrow> bool" where
  "game_op f \<longleftrightarrow> (\<forall>os ms e i. games_inv os ms e \<longrightarrow> i \<in> live os ms \<longrightarrow>
     (\<forall>g \<in> set os. list_all restorable (rounds g)) \<longrightarrow>
     (\<exists>res g' e'. f (os ! i, e) = Inr (res, (g', e')) \<and> games_inv (os[i := g']) ms e'
        \<and> (\<forall>j. j \<noteq> i \<longrightarrow> pending (view j e') = pending (view j e))
        \<and> gameId g' = gameId (os ! i) \<and> list_all restorable (rounds g')
        \<and> saves e' \<subseteq> {(gameId g', state (os ! i)), (gameId g', state g')} \<union> saves e))"

lemma game_op_answer: "game_op (answer trigger a)"
  unfolding game_op_def
proof (intro allI impI)
  fix os ms e i
  assume inv: "games_inv os ms e" and i: "i \<in> live os ms"
    and rs: "\<forall>g \<in> set os. list_all restorable (rounds g)"
  obtain res g' e' where run: "answer trigger a (os ! i, e) = Inr (res, (g', e'))"
    and keep: "games_inv (os[i := g']) ms e'" "\<forall>j. j \<noteq> i \<longrightarrow> pending (view j e') = pending (view j e)"
    using answer_games_inv [OF inv i] by blast
  have len: "i < length os" using i by (simp add: live_def)
  have fx: "(g', e') = (os ! i, e) \<or> (g', e') = answer_fx a (os ! i, e)"
    using run answer_cases [OF games_invD(3) [OF inv len], of a e] by (auto split: option.splits if_splits)
  moreover have "list_all restorable (rounds (os ! i))" using rs len by simp
  ultimately have "gameId g' = gameId (os ! i) \<and> list_all restorable (rounds g')
      \<and> saves e' \<subseteq> {(gameId g', state (os ! i)), (gameId g', state g')} \<union> saves e"
    using fx_gameId(4) [of a "(os ! i, e)"] fx_restorable(3) [of "(os ! i, e)" a] saves_answer [of a "(os ! i, e)"]
    by (auto simp: prod_eq_iff)
  then show "\<exists>res g' e'. answer trigger a (os ! i, e) = Inr (res, (g', e')) \<and> games_inv (os[i := g']) ms e'
        \<and> (\<forall>j. j \<noteq> i \<longrightarrow> pending (view j e') = pending (view j e))
        \<and> gameId g' = gameId (os ! i) \<and> list_all restorable (rounds g')
        \<and> saves e' \<subseteq> {(gameId g', state (os ! i)), (gameId g', state g')} \<union> saves e"
    using run keep by blast
qed

lemma game_op_playerReady: "game_op (playerReady trigger pid b)"
  unfolding game_op_def
proof (intro allI impI)
  fix os ms e i
  assume inv: "games_inv os ms e" and i: "i \<in> live os ms"
    and rs: "\<forall>g \<in> set os. list_all restorable (rounds g)"
  obtain res g' e' where run: "playerReady trigger pid b (os ! i, e) = Inr (res, (g', e'))"
    and keep: "games_inv (os[i := g']) ms e'" "\<forall>j. j \<noteq> i \<longrightarrow> pending (view j e') = pending (view j e)"
    using playerReady_games_inv [OF inv i] by blast
  have len: "i < length os" using i by (simp add: live_def)
  let ?k = "nat (find_index (\<lambda>p. playerId p = pid) (players (os ! i)))"
  have fx: "(g', e') = (os ! i, e) \<or> (g', e') = playerReady_fx ?k b (os ! i, e)"
    using run games_invD(3,4) [OF inv len] by (auto simp: method_eqs Let_def split: if_splits)
  moreover have "list_all restorable (rounds (os ! i))" using rs len by simp
  ultimately have "gameId g' = gameId (os ! i) \<and> list_all restorable (rounds g')
      \<and> saves e' \<subseteq> {(gameId g', state (os ! i)), (gameId g', state g')} \<union> saves e"
    using fx_gameId(5) [of ?k b "(os ! i, e)"] fx_restorable(4) [of "(os ! i, e)" ?k b]
      saves_playerReady [of ?k b "(os ! i, e)"]
    by (auto simp: prod_eq_iff)
  then show "\<exists>res g' e'. playerReady trigger pid b (os ! i, e) = Inr (res, (g', e')) \<and> games_inv (os[i := g']) ms e'
        \<and> (\<forall>j. j \<noteq> i \<longrightarrow> pending (view j e') = pending (view j e))
        \<and> gameId g' = gameId (os ! i) \<and> list_all restorable (rounds g')
        \<and> saves e' \<subseteq> {(gameId g', state (os ! i)), (gameId g', state g')} \<union> saves e"
    using run keep by blast
qed


lemma live_update_subset:
  "i \<in> live os ms \<Longrightarrow> live (os[i := g]) ms \<subseteq> live os ms"
  by (auto simp: live_def nth_list_update split: if_splits)

lemma world_inv_step:
  assumes inv: "world_inv w" and i: "i \<in> live (objs w) (memGames w)"
    and g: "games_inv ((objs w)[i := g']) (memGames w) e'" "gameId g' = gameId (objs w ! i)"
      "list_all restorable (rounds g')"
    and sv: "saves e' \<subseteq> {(gameId g', state (objs w ! i)), (gameId g', state g')} \<union> saves (genv w)"
  shows "world_inv (w\<lparr>objs := (objs w)[i := g'], genv := e'\<rparr>)" (is "world_inv ?w")
proof -
  have len: "i < length (objs w)" using i by (simp add: live_def)
  have old: "save_ok (gameId g', state (objs w ! i))"
    using inv len games_invD(2) [of "objs w" "memGames w" "genv w" i] g(2)
    by (intro game_save_ok) (auto simp: world_inv_def)
  have "game_inv (g', view i e')" using games_invD(2) [OF g(1), of i] len by simp
  then have new: "save_ok (gameId g', state g')" using g(3) by (rule game_save_ok) simp
  have key: "game_key ?w j = game_key w j" for j
    using g(2) len by (cases "j = i") (simp_all add: game_key_def)
  have "live_ids ?w \<subseteq> live_ids w"
    using live_update_subset [OF i, of g'] key by (auto simp: live_ids_def)
  then have "ids_fresh ?w" using inv by (auto simp: world_inv_def ids_fresh_def row_ids_def)
  moreover have "\<forall>x \<in> saves e'. save_ok x" using sv old new inv by (auto simp: world_inv_def)
  moreover have "\<forall>g \<in> set ((objs w)[i := g']). list_all restorable (rounds g)"
    using inv g(3) by (auto simp: world_inv_def dest!: subsetD [OF set_update_subset_insert])
  ultimately show ?thesis using inv g(1) by (simp add: world_inv_def)
qed

text \<open>What every operation on a live game leaves as it is.\<close>

definition same_games :: "world \<Rightarrow> world \<Rightarrow> bool" where
  "same_games w w' \<longleftrightarrow>
     db w' = db w \<and> memGames w' = memGames w \<and> dbfate w' = dbfate w \<and> dbcount w' = dbcount w
     \<and> uuids w' = uuids w \<and> uuid_count w' = uuid_count w \<and> crashed w' = crashed w
     \<and> length (objs w') = length (objs w) \<and> game_key w' = game_key w"

lemma same_games_refl [simp]: "same_games w w"
  by (simp add: same_games_def)

lemma game_key_update: "gameId g = gameId (objs w ! i) \<Longrightarrow> i < length (objs w) \<Longrightarrow>
  game_key (w\<lparr>objs := (objs w)[i := g], genv := e\<rparr>) = game_key w"
  by (auto simp: game_key_def nth_list_update)

lemma on_object_inv:
  assumes inv: "world_inv w" and i: "i \<in> live (objs w) (memGames w)" and f: "game_op f"
  shows "world_inv (snd (on_object i f w))" "same_games w (snd (on_object i f w))"
    "\<exists>r. fst (on_object i f w) = Some r"
    "j < length (objs w) \<Longrightarrow> j \<noteq> i \<Longrightarrow>
       (objs (snd (on_object i f w)) ! j, pending (view j (genv (snd (on_object i f w))))) =
       (objs w ! j, pending (view j (genv w)))"
proof -
  have len: "i < length (objs w)" using i by (simp add: live_def)
  obtain r g' e' where run: "f (objs w ! i, genv w) = Inr (r, (g', e'))"
    and g: "games_inv ((objs w)[i := g']) (memGames w) e'" "gameId g' = gameId (objs w ! i)"
      "list_all restorable (rounds g')"
      "saves e' \<subseteq> {(gameId g', state (objs w ! i)), (gameId g', state g')} \<union> saves (genv w)"
    and calm: "\<forall>j. j \<noteq> i \<longrightarrow> pending (view j e') = pending (view j (genv w))"
    using f inv i unfolding game_op_def world_inv_def by meson
  have eq: "on_object i f w = (Some r, w\<lparr>objs := (objs w)[i := g'], genv := e'\<rparr>)"
    using run by (simp add: on_object_def)
  show "world_inv (snd (on_object i f w))" using world_inv_step [OF inv i g] by (simp add: eq)
  show "same_games w (snd (on_object i f w))"
    using game_key_update [OF g(2) len] by (simp add: eq same_games_def)
  show "\<exists>r. fst (on_object i f w) = Some r" by (simp add: eq)
  show "j < length (objs w) \<Longrightarrow> j \<noteq> i \<Longrightarrow>
       (objs (snd (on_object i f w)) ! j, pending (view j (genv (snd (on_object i f w))))) =
       (objs w ! j, pending (view j (genv w)))"
    using calm by (simp add: eq)
qed

text \<open>The event loop runs a timer: it is off the table when its closure runs.\<close>

definition run_timer :: "nat \<Rightarrow> timer_act \<Rightarrow> world \<Rightarrow> world" where
  "run_timer t act w =
     snd (on_object (act_oid act) (\<lambda>s. mapR (\<lambda>s'. ((), s')) (fire act s))
       (w\<lparr>genv := (genv w)\<lparr>pending := filter (\<lambda>p. fst p \<noteq> t) (pending (genv w))\<rparr>\<rparr>))"

lemma run_timer_inv:
  assumes inv: "world_inv w" and p: "(t, due, act) \<in> set (pending (genv w))"
  shows "world_inv (run_timer t act w)" "same_games w (run_timer t act w)"
    "j < length (objs w) \<Longrightarrow> j \<noteq> act_oid act \<Longrightarrow>
       (objs (run_timer t act w) ! j, pending (view j (genv (run_timer t act w)))) =
       (objs w ! j, pending (view j (genv w)))"
proof -
  let ?i = "act_oid act" and ?os = "objs w" and ?ms = "memGames w" and ?e = "genv w"
  let ?e1 = "?e\<lparr>pending := filter (\<lambda>p. fst p \<noteq> t) (pending ?e)\<rparr>"
  have gi: "games_inv ?os ?ms ?e" using inv by (simp add: world_inv_def)
  note own = owner_live [OF gi p]
  note gd = games_invD [OF gi own(1)]
  obtain g' e' where run: "fire act (?os ! ?i, ?e1) = Inr (g', e')"
    and g: "games_inv (?os[?i := g']) ?ms e'"
    and calm: "\<forall>j. j \<noteq> ?i \<longrightarrow> pending (view j e') = pending (view j ?e)"
    using fire_games_inv [OF gi p] by blast
  have "(?os ! ?i, ?e1) = (g', e') \<or> (\<exists>a. answer_fx a (?os ! ?i, ?e1) = (g', e'))
      \<or> (\<exists>k. gotoRound_fx k (?os ! ?i, ?e1) = (g', e'))"
    using run gd(3)
    by (cases act) (auto simp: answer_cases method_eqs split: option.splits if_splits)
  moreover have r: "list_all restorable (rounds (?os ! ?i))" using inv own(1) by (simp add: world_inv_def)
  ultimately have k: "gameId g' = gameId (?os ! ?i)" "list_all restorable (rounds g')"
    "saves e' \<subseteq> {(gameId g', state (?os ! ?i)), (gameId g', state g')} \<union> saves ?e"
    using fx_gameId(2,4) [where s = "(?os ! ?i, ?e1)"] fx_restorable(1,3) [of "(?os ! ?i, ?e1)"]
      saves_answer [of _ "(?os ! ?i, ?e1)"] saves_gotoRound [of _ "(?os ! ?i, ?e1)"]
    by (fastforce simp: prod_eq_iff)+
  have eq: "run_timer t act w = w\<lparr>objs := ?os[?i := g'], genv := e'\<rparr>"
    using run by (simp add: run_timer_def on_object_def)
  show "world_inv (run_timer t act w)"
    unfolding eq by (rule world_inv_step [OF inv own(3) g k])
  show "same_games w (run_timer t act w)"
    using game_key_update [OF k(1) own(1)] by (simp add: eq same_games_def)
  show "j < length (objs w) \<Longrightarrow> j \<noteq> act_oid act \<Longrightarrow>
       (objs (run_timer t act w) ! j, pending (view j (genv (run_timer t act w)))) =
       (objs w ! j, pending (view j (genv w)))"
    using calm by (simp add: eq)
qed


subsection \<open>Time and listeners\<close>

definition pass_time :: "int \<Rightarrow> world \<Rightarrow> world" where
  "pass_time d w = w\<lparr>genv := (genv w)\<lparr>now := now (genv w) + d\<rparr>\<rparr>"

lemma world_inv_ids:
  assumes "row_ids w' \<subseteq> row_ids w" "live_ids w' \<subseteq> live_ids w" "uuids w' = uuids w"
    "uuid_count w \<le> uuid_count w'" "ids_fresh w"
  shows "ids_fresh w'"
  using assms unfolding ids_fresh_def by (metis (no_types, opaque_lifting) Un_iff le_trans subsetD)

lemma pass_time_inv: "world_inv w \<Longrightarrow> world_inv (pass_time d w)"
  by (auto simp: world_inv_def pass_time_def games_inv_tick ids_fresh_def row_ids_def live_ids_def game_key_def)

lemma pass_time_same: "same_games w (pass_time d w)"
  by (auto simp: same_games_def pass_time_def game_key_def fun_eq_iff)

lemma listen_same: "same_games w (listen i ev l w)"
  by (cases "i < length (objs w)")
     (auto simp: same_games_def listen_def game_key_def fun_eq_iff nth_list_update list_update_beyond)

lemma live_listen: "live (objs (listen i ev l w)) ms = live (objs w) ms"
  by (cases "i < length (objs w)")
     (auto simp: live_def listen_def nth_list_update list_update_beyond split: if_splits)

lemma live_ids_same:
  "same_games w w' \<Longrightarrow> live (objs w') (memGames w) \<subseteq> live (objs w) (memGames w) \<Longrightarrow> live_ids w' \<subseteq> live_ids w"
  by (auto simp: live_ids_def same_games_def)

lemma listen_inv:
  assumes inv: "world_inv w" and l: "leaf l" "ev \<noteq> EvPlayerReady"
  shows "world_inv (listen i ev l w)"
proof (cases "i < length (objs w)")
  case False
  then show ?thesis using inv by (simp add: listen_def list_update_beyond)
next
  case True
  have "games_inv (objs (listen i ev l w)) (memGames w) (genv w)"
    using inv games_inv_subscribe [OF _ l True] by (simp add: world_inv_def listen_def)
  moreover have "\<forall>g \<in> set (objs (listen i ev l w)). list_all restorable (rounds g)"
    using inv True by (auto simp: world_inv_def listen_def dest!: subsetD [OF set_update_subset_insert])
  moreover have "ids_fresh (listen i ev l w)"
  proof (rule world_inv_ids)
    show "live_ids (listen i ev l w) \<subseteq> live_ids w"
      by (rule live_ids_same [OF listen_same]) (simp add: live_listen)
  qed (use inv listen_same [of w i ev l] in \<open>auto simp: world_inv_def same_games_def row_ids_def\<close>)
  ultimately show ?thesis using inv by (simp add: world_inv_def)
qed

subsection \<open>The database\<close>

definition rows_kept :: "'a stmt \<Rightarrow> bool" where
  "rows_kept q \<longleftrightarrow> (\<forall>d a d'. q d = Inr (a, d') \<longrightarrow> (\<forall>r \<in> set (t_game d). row_ok r) \<longrightarrow>
     (\<forall>r \<in> set (t_game d'). row_ok r) \<and> row_gameId ` set (t_game d') \<subseteq> row_gameId ` set (t_game d))"

lemma world_inv_db:
  assumes inv: "world_inv w" and "\<forall>r \<in> set (t_game d). row_ok r" "row_gameId ` set (t_game d) \<subseteq> row_ids w"
  shows "world_inv (w\<lparr>dbcount := n, db := d\<rparr>)"
proof -
  have "ids_fresh (w\<lparr>dbcount := n, db := d\<rparr>)"
    by (rule world_inv_ids [of _ w])
       (use assms in \<open>auto simp: world_inv_def row_ids_def live_ids_def game_key_def\<close>)
  then show ?thesis using assms by (simp add: world_inv_def)
qed

lemma world_inv_frame [simp]:
  "world_inv (w\<lparr>dbcount := n\<rparr>) = world_inv w" "world_inv (w\<lparr>dirs := ds\<rparr>) = world_inv w"
  "world_inv (w\<lparr>docker_log := dl\<rparr>) = world_inv w" "world_inv (w\<lparr>crashed := c\<rparr>) = world_inv w"
  by (simp_all add: world_inv_def ids_fresh_def row_ids_def live_ids_def game_key_def)

lemma keeps_world_withDb: "rows_kept q \<Longrightarrow> keeps world_inv (withDb q)"
  unfolding keeps_def
proof (intro allI impI)
  fix w assume q: "rows_kept q" and inv: "world_inv w"
  have "world_inv (w\<lparr>dbcount := n, db := d\<rparr>)" if "q (db w) = Inr (a, d)" for a d n
    using world_inv_db [OF inv] q that inv unfolding rows_kept_def row_ids_def world_inv_def by blast
  then show "world_inv (snd (withDb q w))" using inv
    by (auto simp: withDb_def Let_def split: db_fate.split sum.split)
qed

lemma rows_kept_other: "(\<And>d a d'. q d = Inr (a, d') \<Longrightarrow> t_game d' = t_game d) \<Longrightarrow> rows_kept q"
  by (simp add: rows_kept_def)

lemma rows_kept_stmts [intro, simp]:
  "rows_kept (select_all t)" "rows_kept (insert_session_stmt s)" "rows_kept (delete_session_stmt sid)"
  "rows_kept (delete_attacks_stmt sid)" "rows_kept (insert_attack_stmt a)" "rows_kept (insert_murmur_stmt m)"
  "rows_kept (delete_murmur_stmt i)" "rows_kept (delete_game_stmt gid)"
  by (auto simp: rows_kept_def select_all_def insert_session_stmt_def delete_session_stmt_def Let_def
      delete_attacks_stmt_def insert_attack_stmt_def insert_murmur_stmt_def delete_murmur_stmt_def
      delete_game_stmt_def split: if_splits)

lemma rows_kept_update: "save_ok (gid, gd) \<Longrightarrow> rows_kept (update_game_stmt gid gd)"
  by (auto simp: rows_kept_def update_game_stmt_def row_ok_def image_image)

lemma rows_kept_set_current: "rows_kept (set_current_stmt sid gid)"
  by (auto simp: rows_kept_def set_current_stmt_def row_ok_def image_image)

text \<open>An effect of a game runs some time after it was started.\<close>

lemma run_effect_keeps:
  assumes inv: "world_inv w" and save: "\<And>gid gd. x = SaveGame gid gd \<Longrightarrow> save_ok (gid, gd)"
  shows "world_inv (run_effect x w)"
  using save keepsD [OF keeps_world_withDb [OF rows_kept_update] inv]
    keepsD [OF keeps_world_withDb [OF rows_kept_set_current] inv] inv
  by (cases x) (simp_all add: save_row_def setCurrentGame_def)

lemma started_save_ok: "world_inv w \<Longrightarrow> SaveGame gid gd \<in> set (out (genv w)) \<Longrightarrow> save_ok (gid, gd)"
  by (auto simp: world_inv_def saves_def)

lemma run_effect_frame:
  "objs (run_effect x w) = objs w" "memGames (run_effect x w) = memGames w" "genv (run_effect x w) = genv w"
  "uuids (run_effect x w) = uuids w" "uuid_count (run_effect x w) = uuid_count w"
  by (cases x; simp add: save_row_def setCurrentGame_def)+

end
