(* ===== verification/Sockets.thy ===== *)
theory Sockets
  imports Process
begin

text \<open>
  The socket handlers of \<open>server/src/socketio/client.ts\<close> and \<open>admin.ts\<close> on top of sessions and
  games, and \<open>main.ts\<close>. A handler is a function on the server: the world, the data of each socket
  and the messages sent so far. Payloads have the types the handlers declare (the code does not check
  them), and every request of an administrator asks for an acknowledgement; the parameters of
  \<open>create_session\<close> are also modelled as the untyped object that \<open>validateCreateSessionParams\<close> looks at. The
  \<open>_event\<close> definitions say what becomes of a payload that is missing: an uncaught exception.
\<close>

datatype message =
    ErrorMsg nat string
  | StateMsg nat game_data
  | InitMsg nat "game_data list"
  | JoinedGame string nat string   \<comment> \<open>to the room of a game, all sockets but one\<close>
  | LeftGame string nat string
  | AckError nat err
  | AckSession nat session
  | AckSessions nat "session list"
  | AckRecordings nat "(string \<times> string) list"
  | AckDone nat

record sock_data =
  sd_playerId :: "string option"
  sd_gameId :: "string option"
  sd_active :: bool   \<comment> \<open>the handlers of \<open>onPlayerConnect\<close> are registered\<close>

record server =
  sw :: world
  socks :: "nat \<Rightarrow> sock_data"
  sent :: "message list"

definition send :: "message \<Rightarrow> server \<Rightarrow> server" where
  "send m s = s\<lparr>sent := sent s @ [m]\<rparr>"

text \<open>Forking a future: one continuation for a rejection, one for a result.\<close>

definition fork_fut :: "'a fut \<Rightarrow> (err \<Rightarrow> server \<Rightarrow> server) \<Rightarrow> ('a \<Rightarrow> server \<Rightarrow> server) \<Rightarrow> server \<Rightarrow> server" where
  "fork_fut m rej res s =
     (case m (sw s) of
        (Inl e, w) \<Rightarrow> rej e (s\<lparr>sw := w\<rparr>)
      | (Inr a, w) \<Rightarrow> res a (s\<lparr>sw := w\<rparr>))"

subsection \<open>Players\<close>

definition getClientGameState :: "game \<Rightarrow> game_data" where
  "getClientGameState g = state g"

definition emitError :: "nat \<Rightarrow> string \<Rightarrow> server \<Rightarrow> server" where
  "emitError sk m s = send (ErrorMsg sk m) s"

text \<open>
  \<open>getGame(gameId).map(f).leftMap(emitError)\<close>: what the method returns is dropped, a refused answer
  included.
\<close>

definition with_game :: "nat \<Rightarrow> (gst \<Rightarrow> exn + 'r \<times> gst) \<Rightarrow> (string \<Rightarrow> server \<Rightarrow> server) \<Rightarrow> server \<Rightarrow> server" where
  "with_game sk f bad s =
     (case sd_gameId (socks s sk) of
        None \<Rightarrow> bad ''Game not found.'' s
      | Some gid \<Rightarrow>
          (case getGame gid (sw s) of
             Inl m \<Rightarrow> bad m s
           | Inr i \<Rightarrow> s\<lparr>sw := snd (on_object i f (sw s))\<rparr>))"

definition onAnswer_msg :: "nat \<Rightarrow> answer \<Rightarrow> server \<Rightarrow> server" where
  "onAnswer_msg sk ans s = with_game sk (answer trigger ans) (emitError sk) s"

definition onPlayerReady_msg :: "nat \<Rightarrow> bool \<Rightarrow> server \<Rightarrow> server" where
  "onPlayerReady_msg sk readyFlag s =
     (case sd_playerId (socks s sk) of
        None \<Rightarrow> s
      | Some pid \<Rightarrow> with_game sk (playerReady trigger pid readyFlag) (emitError sk) s)"

definition onDisconnect_msg :: "nat \<Rightarrow> server \<Rightarrow> server" where
  "onDisconnect_msg sk s =
     (case (sd_playerId (socks s sk), sd_gameId (socks s sk)) of
        (Some pid, Some gid) \<Rightarrow>
          (case getGame gid (sw s) of
             Inl _ \<Rightarrow> s
           | Inr i \<Rightarrow> send (LeftGame gid sk pid) (with_game sk (playerReady trigger pid False) (\<lambda>_ t. t) s))
      | _ \<Rightarrow> s)"

definition getHandshakeQuery :: "jsval \<Rightarrow> string either" where
  "getHandshakeQuery query =
     (case fld query ''playerId'' of
        JUndef \<Rightarrow> Inl ''player id missing from socket handshake query''
      | JStr pid \<Rightarrow> Inr pid
      | _ \<Rightarrow> Inl ''invalid playerId provided. Must be string.'')"

definition onPlayerConnect :: "nat \<Rightarrow> string \<Rightarrow> server \<Rightarrow> server" where
  "onPlayerConnect sk pid =
     fork_fut (fchain (\<lambda>session. getCurrentGame (sessionId session)) (getPlayerSession pid))
       (\<lambda>e. emitError sk (err_message e))
       (\<lambda>i s. let g = objs (sw s) ! i;
                  s1 = s\<lparr>socks := (socks s)(sk := (socks s sk)\<lparr>sd_gameId := Some (gameId g), sd_active := True\<rparr>),
                         sw := listen i EvState (ClientListener sk) (sw s)\<rparr>
              in send (StateMsg sk (getClientGameState g)) (send (JoinedGame (gameId g) sk pid) s1))"

definition onConnect :: "nat \<Rightarrow> jsval \<Rightarrow> server \<Rightarrow> server" where
  "onConnect sk query s =
     (case getHandshakeQuery query of
        Inl m \<Rightarrow> emitError sk m s
      | Inr pid \<Rightarrow>
          onPlayerConnect sk pid (s\<lparr>socks := (socks s)(sk := (socks s sk)\<lparr>sd_playerId := Some pid\<rparr>)\<rparr>))"

subsection \<open>The administrator\<close>

definition joinErrors :: "string list \<Rightarrow> string" where
  "joinErrors errs = join_with [char_of (10 :: nat)] errs"

definition validateCheckUndefined :: "(string \<times> jsval) list \<Rightarrow> string list" where
  "validateCheckUndefined entries =
     map (\<lambda>(key, _). key @ '' undefined'') (filter (\<lambda>(_, v). v = JUndef) entries)"

definition validateCreateSessionParams :: "(string \<times> jsval) list \<Rightarrow> (string \<times> jsval) list either" where
  "validateCreateSessionParams params =
     (let errors = validateCheckUndefined params
      in if errors \<noteq> [] then Inl (joinErrors errors) else Inr params)"

fun listen_all :: "nat list \<Rightarrow> nat \<Rightarrow> world \<Rightarrow> world" where
  "listen_all [] sk w = w"
| "listen_all (i # is) sk w = listen_all is sk (listen i EvState (AdminListener sk) w)"

definition admin_connect :: "nat \<Rightarrow> server \<Rightarrow> server" where
  "admin_connect sk s =
     (let games = getGames (sw s);
          s1 = send (InitMsg sk (map (\<lambda>i. state (objs (sw s) ! i)) games)) s
      in s1\<lparr>sw := listen_all games sk (sw s1)\<rparr>)"

text \<open>Parameters that pass the validation and have the declared types.\<close>

definition session_params :: "session \<Rightarrow> (string \<times> jsval) list" where
  "session_params p =
     [(''blueParticipant'', JStr (blueParticipant p)), (''redParticipant'', JStr (redParticipant p)),
      (''murmurPort'', JNum (murmurPort p)), (''grpcPort'', JNum (grpcPort p))]"

definition admin_create_session :: "nat \<Rightarrow> session \<Rightarrow> server \<Rightarrow> server" where
  "admin_create_session sk p =
     fork_fut (fchain (\<lambda>_. createSession p) (e2f_err (validateCreateSessionParams (session_params p))))
       (\<lambda>e. send (AckError sk e)) (\<lambda>x. send (AckSession sk x))"

definition admin_get_recordings :: "nat \<Rightarrow> int \<Rightarrow> server \<Rightarrow> server" where
  "admin_get_recordings sk sid =
     fork_fut (fchain getRecordings (getMurmurBySessionId sid))
       (\<lambda>e. send (AckError sk e)) (\<lambda>x. send (AckRecordings sk x))"

definition admin_get_sessions :: "nat \<Rightarrow> server \<Rightarrow> server" where
  "admin_get_sessions sk =
     fork_fut getSessions (\<lambda>e. send (AckError sk e)) (\<lambda>x. send (AckSessions sk x))"

definition admin_remove_session :: "nat \<Rightarrow> int \<Rightarrow> server \<Rightarrow> server" where
  "admin_remove_session sk sid =
     fork_fut (removeSession sid) (\<lambda>e. send (AckError sk e)) (\<lambda>_. send (AckDone sk))"

text \<open>
  The events as they come, with any value as payload or none. A handler reads properties of it outside of
  every future, so one that is \<open>undefined\<close> or \<open>null\<close> raises and nobody catches it; of the answer only once
  the game has been found. A payload that has other types than declared is not modelled: \<open>None\<close>.
\<close>

definition raising :: "server \<Rightarrow> server" where
  "raising s = s\<lparr>sw := (sw s)\<lparr>crashed := Some TypeError\<rparr>\<rparr>"

definition read_params :: "jsval \<Rightarrow> session option" where
  "read_params v =
     (case (fld v ''blueParticipant'', fld v ''redParticipant'', fld v ''murmurPort'', fld v ''grpcPort'') of
        (JStr blue, JStr red, JNum murmur, JNum grpc) \<Rightarrow>
          Some \<lparr>sessionId = 0, blueParticipant = blue, redParticipant = red, murmurPort = murmur, grpcPort = grpc\<rparr>
      | _ \<Rightarrow> None)"

definition create_session_event :: "nat \<Rightarrow> jsval \<Rightarrow> server \<Rightarrow> server option" where
  "create_session_event sk params s =
     (if nullish params then Some (raising s) else map_option (\<lambda>p. admin_create_session sk p s) (read_params params))"

definition by_id_event :: "(int \<Rightarrow> server \<Rightarrow> server) \<Rightarrow> jsval \<Rightarrow> server \<Rightarrow> server option" where
  "by_id_event handler params s =
     (if nullish params then Some (raising s)
      else case fld params ''sessionId'' of JNum sid \<Rightarrow> Some (handler sid s) | _ \<Rightarrow> None)"

definition answer_event :: "nat \<Rightarrow> jsval \<Rightarrow> server \<Rightarrow> server option" where
  "answer_event sk v s =
     (if nullish v
      then Some (case sd_gameId (socks s sk) of
                   None \<Rightarrow> emitError sk ''Game not found.'' s
                 | Some gid \<Rightarrow> (case getGame gid (sw s) of Inl m \<Rightarrow> emitError sk m s | Inr _ \<Rightarrow> raising s))
      else case fld v ''round'' of
             JNum k \<Rightarrow> Some (onAnswer_msg sk
               \<lparr>a_round = k, a_value = (if fld v ''value'' = JUndef then None else Some (fld v ''value''))\<rparr> s)
           | _ \<Rightarrow> None)"

text \<open>What the administrator's client sends is what the handlers above are for; a payload left out ends the process.\<close>

lemma typed_payloads:
  "create_session_event sk (JObj (session_params p)) s = Some (admin_create_session sk (p\<lparr>sessionId := 0\<rparr>) s)"
  "by_id_event handler (JObj [(''sessionId'', JNum sid)]) s = Some (handler sid s)"
  "answer_event sk (JObj [(''value'', v), (''round'', JNum k)]) s =
     Some (onAnswer_msg sk \<lparr>a_round = k, a_value = (if v = JUndef then None else Some v)\<rparr> s)"
  by (cases p) (simp_all add: create_session_event_def read_params_def session_params_def by_id_event_def answer_event_def)

lemma missing_payload_ends_process:
  "nullish v \<Longrightarrow> create_session_event sk v s = Some (raising s)" "nullish v \<Longrightarrow> by_id_event handler v s = Some (raising s)"
  "nullish v \<Longrightarrow> sd_gameId (socks s sk) = Some gid \<Longrightarrow> getGame gid (sw s) = Inr i \<Longrightarrow> answer_event sk v s = Some (raising s)"
  "crashed (sw (raising s)) = Some TypeError"
  by (simp_all add: create_session_event_def by_id_event_def answer_event_def raising_def)

text \<open>\<open>main\<close>: sockets are served after all sessions have been initialised.\<close>

definition main_listens :: "world \<Rightarrow> bool \<times> world" where
  "main_listens w = (case initSessions w of (Inl _, w1) \<Rightarrow> (False, w1) | (Inr _, w1) \<Rightarrow> (True, w1))"

subsection \<open>Messages\<close>

text \<open>
  One step of the event loop: a message, an effect of a game on the database (any that a game has
  started, at any time after), the passing of time, or a timer that is due.
\<close>

inductive server_step :: "server \<Rightarrow> server \<Rightarrow> bool" where
  connect: "server_step s (onConnect sk query s)"
| answer_msg: "sd_active (socks s sk) \<Longrightarrow> server_step s (onAnswer_msg sk a s)"
| ready_msg: "sd_active (socks s sk) \<Longrightarrow> server_step s (onPlayerReady_msg sk b s)"
| disconnect: "sd_active (socks s sk) \<Longrightarrow> server_step s (onDisconnect_msg sk s)"
| admin_conn: "server_step s (admin_connect sk s)"
| create: "server_step s (admin_create_session sk p s)"
| recordings: "server_step s (admin_get_recordings sk sid s)"
| sessions: "server_step s (admin_get_sessions sk s)"
| remove: "server_step s (admin_remove_session sk sid s)"
| effect: "x \<in> set (out (genv (sw s))) \<Longrightarrow> server_step s (s\<lparr>sw := run_effect x (sw s)\<rparr>)"
| time: "0 \<le> d \<Longrightarrow> server_step s (s\<lparr>sw := pass_time d (sw s)\<rparr>)"
| timer: "(t, due, act) \<in> set (pending (genv (sw s))) \<Longrightarrow> due \<le> now (genv (sw s)) \<Longrightarrow>
    server_step s (s\<lparr>sw := run_timer t act (sw s)\<rparr>)"

inductive_cases server_stepE: "server_step s s'"

definition server_ok :: "server \<Rightarrow> bool" where
  "server_ok s \<longleftrightarrow> db_ok (db (sw s))"

lemma fork_fut_keeps:
  assumes "keeps (\<lambda>w. db_ok (db w)) m" "server_ok s"
    and "\<And>e t. server_ok t \<Longrightarrow> server_ok (rej e t)"
    and "\<And>a t. server_ok t \<Longrightarrow> server_ok (res a t)"
  shows "server_ok (fork_fut m rej res s)"
proof -
  obtain r w where m: "m (sw s) = (r, w)" by fastforce
  then have "server_ok (s\<lparr>sw := w\<rparr>)"
    using keepsD [OF assms(1), of "sw s"] assms(2) by (simp add: server_ok_def)
  with assms(3,4) m show ?thesis by (cases r) (simp_all add: fork_fut_def)
qed

lemma send_frame [simp]: "sw (send m s) = sw s" "socks (send m s) = socks s"
  "sw (emitError sk x s) = sw s" "socks (emitError sk x s) = socks s"
  by (simp_all add: send_def emitError_def)

lemma on_object_db [simp]: "db (snd (on_object i f w)) = db w"
  by (auto simp: on_object_def split: sum.split)

lemma with_game_db:
  "(\<And>m t. db (sw (bad m t)) = db (sw t)) \<Longrightarrow> db (sw (with_game sk f bad s)) = db (sw s)"
  by (auto simp: with_game_def split: option.split sum.split)

lemma listen_all_db [simp]: "db (listen_all is sk w) = db w"
  by (induction "is" arbitrary: w) simp_all

lemma keeps_getPlayerSession [keeps_intros]: "keeps (\<lambda>w. db_ok (db w)) (getPlayerSession pid)"
  unfolding getPlayerSession_def by (intro keeps_intros) (auto split: option.split intro: keeps_intros)

lemma keeps_getCurrentGame [keeps_intros]: "keeps (\<lambda>w. db_ok (db w)) (getCurrentGame sid)"
  unfolding getCurrentGame_def by (intro keeps_fchain keeps_intros) (simp add: keeps_def)

lemma keeps_getRecordings [keeps_intros]: "keeps (\<lambda>w. db_ok (db w)) (getRecordings m)"
proof -
  have "keeps (\<lambda>w. db_ok (db w)) (readdirP d)" for d by (simp add: keeps_def readdirP_def)
  then show ?thesis unfolding getRecordings_def by (intro keeps_intros)
qed

lemma keeps_getMurmur [keeps_intros]: "keeps (\<lambda>w. db_ok (db w)) (getMurmurBySessionId sid)"
  unfolding getMurmurBySessionId_def
  by (intro keeps_intros select_all_ok) (auto split: list.split intro: keeps_intros)

lemma send_ok [simp]: "server_ok (send m s) = server_ok s" "server_ok (emitError sk x s) = server_ok s"
  by (simp_all add: server_ok_def)

lemma onConnect_ok: "server_ok s \<Longrightarrow> server_ok (onConnect sk query s)"
proof -
  have "server_ok t \<Longrightarrow> server_ok (onPlayerConnect sk pid t)" for pid t
    unfolding onPlayerConnect_def
    by (rule fork_fut_keeps, (intro keeps_intros)) (simp_all add: Let_def, simp add: server_ok_def)
  then show "server_ok s \<Longrightarrow> ?thesis"
    unfolding onConnect_def by (auto simp: server_ok_def split: sum.split)
qed

lemma server_step_ok: "server_step s s' \<Longrightarrow> server_ok s \<Longrightarrow> server_ok s'"
proof (induction rule: server_step.induct)
  case (connect s sk query)
  then show ?case by (rule onConnect_ok)
next
  case (answer_msg s sk a)
  then show ?case by (simp add: onAnswer_msg_def with_game_db server_ok_def)
next
  case (ready_msg s sk b)
  then show ?case by (simp add: onPlayerReady_msg_def with_game_db server_ok_def split: option.split)
next
  case (disconnect s sk)
  then show ?case by (simp add: onDisconnect_msg_def with_game_db server_ok_def split: option.split sum.split)
next
  case (create s sk p)
  show ?case unfolding admin_create_session_def
    by (rule fork_fut_keeps [OF keeps_fchain [OF keeps_e2f(2) keeps_createSession] create]) simp_all
next
  case (recordings s sk sid)
  show ?case unfolding admin_get_recordings_def
    by (rule fork_fut_keeps [OF keeps_fchain [OF keeps_getMurmur keeps_getRecordings] recordings]) simp_all
next
  case (sessions s sk)
  show ?case unfolding admin_get_sessions_def
    by (rule fork_fut_keeps [OF keeps_getSessions(1) sessions]) simp_all
next
  case (remove s sk sid)
  show ?case unfolding admin_remove_session_def
    by (rule fork_fut_keeps [OF keeps_removeSession remove]) simp_all
qed (simp_all add: admin_connect_def Let_def run_effect_ok server_ok_def pass_time_def run_timer_def)

lemma server_steps_ok: "server_step\<^sup>*\<^sup>* s s' \<Longrightarrow> server_ok s \<Longrightarrow> server_ok s'"
  by (induction rule: rtranclp_induct) (auto intro: server_step_ok)

end
