(* ===== verification/Lifecycle.thy ===== *)
theory Lifecycle
  imports Sockets
begin

text \<open>
  Creating, initialising and removing sessions keeps the invariant of the process, and keeps the games
  in memory and the rows of the table \<open>game\<close> the same set of games, when the database works.
\<close>

subsection \<open>Work that concerns no game\<close>

text \<open>
  What the table of games, the sessions and the memory are for the rest of the server; \<open>stable c\<close> is
  kept by all work that neither creates nor removes a game or a session.
\<close>

definition mem_ids :: "world \<Rightarrow> string set" where
  "mem_ids w = game_key w ` set (memGames w)"

type_synonym index = "nat list \<times> (string \<times> bool) list \<times> db_game list \<times> session list \<times> (nat \<Rightarrow> db_fate) \<times> (nat \<Rightarrow> string) \<times> nat"

definition index :: "world \<Rightarrow> index" where
  "index w = (memGames w, map (\<lambda>g. (gameId g, startTime g = None)) (objs w), t_game (db w), t_session (db w), dbfate w, uuids w, uuid_count w)"

definition stable :: "index \<Rightarrow> world \<Rightarrow> bool" where
  "stable c w \<longleftrightarrow> world_inv w \<and> index w = c"

lemma keeps_stable_withDb:
  assumes "\<And>d a d'. q d = Inr (a, d') \<Longrightarrow> t_game d' = t_game d \<and> t_session d' = t_session d"
  shows "keeps (stable c) (withDb q)"
proof -
  have "rows_kept q" using assms by (intro rows_kept_other) blast
  note k = keeps_world_withDb [OF this]
  have "index (snd (withDb q w)) = index w" for w
    using assms by (auto simp: index_def withDb_def Let_def split: db_fate.split sum.split)
  then show ?thesis using k by (simp add: keeps_def stable_def)
qed

lemma keeps_stable_stmts [keeps_intros]:
  "keeps (stable c) (withDb (select_all t))" "keeps (stable c) (withDb (delete_attacks_stmt sid))"
  "keeps (stable c) (withDb (insert_murmur_stmt m))" "keeps (stable c) (withDb (delete_murmur_stmt i))"
  by (rule keeps_stable_withDb; auto simp: select_all_def delete_attacks_stmt_def insert_murmur_stmt_def
      delete_murmur_stmt_def split: if_splits)+

lemma stable_frame [simp]:
  "stable c (w\<lparr>dbcount := n\<rparr>) = stable c w" "stable c (w\<lparr>dirs := ds\<rparr>) = stable c w"
  "stable c (w\<lparr>docker_log := dl\<rparr>) = stable c w" "stable c (w\<lparr>crashed := x\<rparr>) = stable c w"
  by (simp_all add: stable_def index_def)

lemma keeps_stable_docker [keeps_intros]:
  "keeps (stable c) (docker_start i)" "keeps (stable c) (docker_stop is)"
  "keeps (stable c) (docker_rm is)" "keeps (stable c) (docker_create nm cfg)"
proof -
  have req: "keeps (stable c) (dockerReq m ep q b)" for m ep q b
    by (auto simp: keeps_def dockerReq_def Let_def split: docker_res.split)
  then show "keeps (stable c) (docker_start i)" "keeps (stable c) (docker_stop is)"
    "keeps (stable c) (docker_rm is)" "keeps (stable c) (docker_create nm cfg)"
    by (auto simp: docker_defs intro!: keeps_intros)
qed

lemma stable_dirs [simp]:
  "stable c (snd (createRecDir m b w)) = stable c w" "stable c (snd (removeRecDir m w)) = stable c w"
  by (auto simp: createRecDir_def removeRecDir_def mkdirSync_def rmdirSync_def split: option.split)

lemma keeps_stable_murmur [keeps_intros]:
  "keeps (stable c) (createContainer m)" "keeps (stable c) (removeContainer m)"
  "keeps (stable c) (createMurmur a b sid)" "keeps (stable c) (removeMurmur m)" "keeps (stable c) (initMurmur m)"
  "keeps (stable c) (getMurmurBySessionId sid)"
proof -
  show con: "keeps (stable c) (createContainer m)" for m
    unfolding createContainer_def
    by (intro keeps_fchain keeps_intros) (auto simp: keeps_def split: sum.split)
  show rem: "keeps (stable c) (removeContainer m)"
    unfolding removeContainer_def by (intro keeps_intros) (auto split: list.split intro: keeps_intros)
  have "keeps (stable c) (fmapRej f (fchain createContainer
     (fchain (\<lambda>m w. case createRecDir m False w of (r, w1) \<Rightarrow> e2f_err r w1) (insertMurmur m))))" for f m
    unfolding insertMurmur_def
    by (intro keeps_fmapRej keeps_fchain keeps_fmap keeps_intros con)
       (simp add: keeps_def case_prod_unfold)
  then show "keeps (stable c) (createMurmur a b sid)" unfolding keeps_def createMurmur_def Let_def by blast
  have "keeps (stable c) (fchain (\<lambda>_. deleteMurmur m)
      (parallel1 [fmap (\<lambda>x. map_sum id (\<lambda>_. ()) x) (fcoalesce (removeContainer m)),
                       fcoalesce (e2f_err r)]))" for r
    unfolding deleteMurmur_def
    by (intro keeps_intros) (auto intro!: keeps_intros rem)
  then show "keeps (stable c) (removeMurmur m)"
    unfolding keeps_def removeMurmur_def Let_def by (auto simp: case_prod_unfold)
  have "keeps (stable c) (fmap (\<lambda>_. m) (fchain (\<lambda>_. docker_start (murmurId m)) (e2f_err r)))"
    for r :: "murmur either"
    by (intro keeps_intros)
  then show "keeps (stable c) (initMurmur m)"
    unfolding keeps_def by (auto simp: initMurmur_def case_prod_unfold)
  show "keeps (stable c) (getMurmurBySessionId sid)"
    unfolding getMurmurBySessionId_def by (intro keeps_intros) (auto split: list.split intro: keeps_intros)
qed

lemma keeps_stable_sessions [keeps_intros]:
  "keeps (stable c) getSessions" "keeps (stable c) getAttacks" "keeps (stable c) (getSessionById sid)"
  "keeps (stable c) (deleteSessionAttacks s)" "keeps (stable c) (removeSessionMurmur s)"
  "keeps (stable c) (createSessionMurmur s)" "keeps (stable c) (doMurmur s)"
  unfolding getSessions_def getAttacks_def getSessionById_def deleteSessionAttacks_def
    removeSessionMurmur_def createSessionMurmur_def doMurmur_def
  by (intro keeps_intros)+


lemma stable_listen: "stable c w \<Longrightarrow> leaf l \<Longrightarrow> ev \<noteq> EvPlayerReady \<Longrightarrow> stable c (listen i ev l w)"
proof -
  assume w: "stable c w" and l: "leaf l" "ev \<noteq> EvPlayerReady"
  have "map (\<lambda>g. (gameId g, startTime g = None)) (objs (listen i ev l w)) =
      map (\<lambda>g. (gameId g, startTime g = None)) (objs w)"
    by (cases "i < length (objs w)")
       (simp_all add: listen_def map_update list_update_beyond list_update_same_conv)
  then show "stable c (listen i ev l w)"
    using w listen_inv [OF _ l] listen_same [of w i ev l] by (auto simp: stable_def index_def same_games_def)
qed

lemma keeps_stable_scheduleAttack [keeps_intros]: "keeps (stable c) (scheduleAttack a)"
  unfolding scheduleAttack_def
  by (intro keeps_fchain keeps_intros) (auto simp: keeps_def stable_listen split: sum.split)

lemma keeps_stable_doAttacks [keeps_intros]: "keeps (stable c) (doAttacks s)"
  unfolding doAttacks_def by (intro keeps_intros) (auto intro: keeps_intros)

lemma stable_chain_games: "stable c w \<Longrightarrow> stable c (chain_games sid is w)"
  by (induction sid "is" w rule: chain_games.induct) (simp_all add: Let_def stable_listen)

lemma stable_listen_all: "stable c w \<Longrightarrow> stable c (listen_all is sk w)"
  by (induction "is" arbitrary: w) (simp_all add: stable_listen)

subsection \<open>The invariant of the server\<close>

text \<open>Every game row belongs to a session; the games in memory are the games of the table.\<close>

definition rows_referenced :: "db \<Rightarrow> bool" where
  "rows_referenced d \<longleftrightarrow> (\<forall>r \<in> set (t_game d). row_sessionId r \<in> sessionId ` set (t_session d))"

definition server_inv :: "world \<Rightarrow> bool" where
  "server_inv w \<longleftrightarrow> world_inv w \<and> db_works w \<and> db_ok (db w) \<and> rows_referenced (db w) \<and> mem_ids w = row_ids w"

lemma index_key:
  assumes "index w' = index w" "world_inv w"
  shows "mem_ids w' = mem_ids w" "row_ids w' = row_ids w" "db_works w' = db_works w"
    "rows_referenced (db w') = rows_referenced (db w)" "live_ids w' = live_ids w"
proof -
  have ids: "map (\<lambda>g. (gameId g, startTime g = None)) (objs w') = map (\<lambda>g. (gameId g, startTime g = None)) (objs w)"
    "memGames w' = memGames w"
    using assms(1) by (simp_all add: index_def)
  have len: "length (objs w') = length (objs w)" using map_eq_imp_length_eq [OF ids(1)] .
  have nth: "game_key w' i = game_key w i \<and> (startTime (objs w' ! i) = None) = (startTime (objs w ! i) = None)"
    if "i < length (objs w)" for i
    using arg_cong [OF ids(1), of "\<lambda>xs. xs ! i"] that len by (simp add: game_key_def)
  then show "mem_ids w' = mem_ids w"
    using ids(2) games_inv_parts(3) [OF world_invD(1) [OF assms(2)]]
    by (auto simp: mem_ids_def intro!: image_cong)
  have "live (objs w') (memGames w') = live (objs w) (memGames w)"
    by (simp add: live_def len ids(2) nth cong: conj_cong del: not_None_eq)
  then show "live_ids w' = live_ids w"
    using nth by (auto simp: live_ids_def live_def intro!: image_cong)
  show "row_ids w' = row_ids w" "db_works w' = db_works w" "rows_referenced (db w') = rows_referenced (db w)"
    using assms(1) by (simp_all add: index_def row_ids_def db_works_def rows_referenced_def)
qed

text \<open>Stable work keeps the invariant of the server, given that it keeps the schema.\<close>

lemma server_inv_stable:
  assumes "server_inv w" "stable (index w) w'" "db_ok (db w')"
  shows "server_inv w'"
  using assms index_key [of w' w] by (simp add: server_inv_def stable_def)

lemma keeps_server_stable:
  assumes "\<And>c. keeps (stable c) m" "keeps (\<lambda>w. db_ok (db w)) m" "server_inv w"
  shows "server_inv (snd (m w))"
proof (rule server_inv_stable [OF assms(3)])
  have "stable (index w) w" using assms(3) by (simp add: server_inv_def stable_def)
  then show "stable (index w) (snd (m w))" using keepsD [OF assms(1)] by blast
  show "db_ok (db (snd (m w)))" using keepsD [OF assms(2)] assms(3) by (simp add: server_inv_def)
qed

lemma world_readable: "world_inv w \<Longrightarrow> rows_readable (db w)"
  by (auto simp: world_inv_def rows_readable_def row_ok_def)

lemma world_mem_ok: "world_inv w \<Longrightarrow> mem_ok (game_key w) (memGames w)"
proof -
  assume inv: "world_inv w"
  note g = games_inv_parts [OF world_invD(1) [OF inv]]
  have "inj_on (game_key w) (live (objs w) (memGames w))" using g(4) by (simp add: inj_on_def game_key_def)
  moreover have "set (memGames w) \<subseteq> live (objs w) (memGames w)" using g(3) by (auto simp: live_def)
  ultimately show ?thesis using g(2) inj_on_subset by (auto simp: mem_ok_def distinct_map)
qed

lemma in_memory_ids: "in_memory w gid \<longleftrightarrow> gid \<in> mem_ids w"
  by (auto simp: in_memory_def mem_ids_def)

subsection \<open>Removal\<close>

lemma world_inv_forget:
  assumes inv: "world_inv w" and ms: "set ms \<subseteq> set (memGames w)" "distinct ms"
  shows "world_inv (w\<lparr>memGames := ms\<rparr>)"
proof -
  have "live_ids (w\<lparr>memGames := ms\<rparr>) \<subseteq> live_ids w" using ms(1) by (auto simp: live_ids_def live_def game_key_def)
  then have "ids_fresh (w\<lparr>memGames := ms\<rparr>)"
    by (rule world_inv_ids [rotated]) (simp_all add: row_ids_def world_invD(2) [OF inv])
  then show ?thesis using inv games_inv_forget [OF _ ms] by (simp add: world_inv_def)
qed

lemma removeMemGame_inv:
  assumes inv: "world_inv w" and i: "game_key w i \<in> mem_ids w"
  shows "world_inv (removeMemGame i w)" "mem_ids (removeMemGame i w) = mem_ids w - {game_key w i}"
proof -
  note ok = world_mem_ok [OF inv]
  let ?ms = "mem_remove (game_key w) i (memGames w)"
  have set: "set ?ms = {x \<in> set (memGames w). game_key w x \<noteq> game_key w i}"
    using set_mem_remove [OF ok] i by (simp add: mem_ids_def)
  have "distinct ?ms" using mem_remove_ok [OF ok, of i] by (simp add: mem_ok_def distinct_map)
  then show "world_inv (removeMemGame i w)"
    unfolding removeMemGame_def by (intro world_inv_forget [OF inv]) (auto simp: set)
  show "mem_ids (removeMemGame i w) = mem_ids w - {game_key w i}"
    using set by (auto simp: mem_ids_def removeMemGame_def game_key_def)
qed

lemma removeGames_mem:
  assumes "world_inv w" "db_works w" "distinct (map (game_key w) is)" "game_key w ` set is \<subseteq> mem_ids w"
  shows "\<exists>rs w'. parallel1 (map removeGame is) w = (Inr rs, w') \<and> world_inv w' \<and> db_works w'
    \<and> mem_ids w' = mem_ids w - game_key w ` set is
    \<and> t_session (db w') = t_session (db w)
    \<and> t_game (db w') = filter (\<lambda>r. row_gameId r \<notin> game_key w ` set is) (t_game (db w))"
  using assms
proof (induction "is" arbitrary: w)
  case Nil
  then show ?case by simp
next
  case (Cons i js)
  let ?d = "(db w)\<lparr>t_game := filter (\<lambda>r. row_gameId r \<noteq> game_key w i) (t_game (db w))\<rparr>"
  let ?w0 = "w\<lparr>dbcount := Suc (dbcount w), db := ?d\<rparr>"
  let ?w1 = "removeMemGame i ?w0"
  have run: "removeGame i w = (Inr i, ?w1)"
    using Cons.prems(2) by (simp add: removeGame_def fchain_def withDb_works delete_game_stmt_def)
  have "snd (withDb (delete_game_stmt (game_key w i)) w) = ?w0"
    using Cons.prems(2) by (simp add: withDb_works delete_game_stmt_def)
  then have inv0: "world_inv ?w0"
    using keepsD [OF keeps_world_withDb [OF rows_kept_stmts(8)] Cons.prems(1), of "game_key w i"] by simp
  have key: "game_key ?w0 = game_key w" "game_key ?w1 = game_key w" "mem_ids ?w0 = mem_ids w"
    by (auto simp: game_key_def fun_eq_iff mem_ids_def removeMemGame_def)
  have i: "game_key ?w0 i \<in> mem_ids ?w0" using Cons.prems(4) by (simp add: key)
  note rm = removeMemGame_inv [OF inv0 i]
  have works: "db_works ?w1" using Cons.prems(2) by (simp add: db_works_def removeMemGame_def)
  have "game_key w i \<notin> game_key w ` set js" using Cons.prems(3) by simp
  moreover have "game_key w ` set js \<subseteq> mem_ids w" using Cons.prems(4) by auto
  ultimately have "game_key ?w1 ` set js \<subseteq> mem_ids ?w1" unfolding key rm(2) by blast
  from Cons.IH [OF rm(1) works _ this] Cons.prems(3)
  obtain rs w' where IH: "parallel1 (map removeGame js) ?w1 = (Inr rs, w')" "world_inv w'" "db_works w'"
    "mem_ids w' = mem_ids ?w1 - game_key w ` set js" "t_session (db w') = t_session (db ?w1)"
    "t_game (db w') = filter (\<lambda>r. row_gameId r \<notin> game_key w ` set js) (t_game (db ?w1))"
    by (auto simp: key)
  have "parallel1 (map removeGame (i # js)) w = (Inr (i # rs), w')" using run IH(1) by simp
  moreover have "mem_ids w' = mem_ids w - game_key w ` set (i # js)" using IH(4) rm(2) by (auto simp: key)
  moreover have "t_game (db w') = filter (\<lambda>r. row_gameId r \<notin> game_key w ` set (i # js)) (t_game (db w))"
    using IH(6) by (simp add: conj_commute)
  ultimately show ?case using IH(2,3,5) by auto
qed


text \<open>\<open>removeSession\<close>: the session, its rows and its games in memory go together.\<close>

lemma distinct_session_rows:
  "db_ok d \<Longrightarrow> distinct (map row_gameId (filter P (t_game d)))"
  by (rule distinct_map_filter_key) (rule db_ok_t_game(1))

lemma removeSessionGames_mem:
  assumes inv: "world_inv w" "db_works w" "db_ok (db w)"
    and mem: "\<And>r. r \<in> set (t_game (db w)) \<Longrightarrow> row_sessionId r = sessionId s \<Longrightarrow> row_gameId r \<in> mem_ids w"
  defines "mine \<equiv> row_gameId ` {r \<in> set (t_game (db w)). row_sessionId r = sessionId s}"
    and "w' \<equiv> snd (removeSessionGames s w)"
  shows "world_inv w'" "db_works w'" "mem_ids w' = mem_ids w - mine"
    "t_session (db w') = t_session (db w)"
    "t_game (db w') = filter (\<lambda>r. row_gameId r \<notin> mine) (t_game (db w))"
proof -
  let ?w1 = "w\<lparr>dbcount := Suc (dbcount w)\<rparr>"
  let ?rs = "filter (\<lambda>r. row_sessionId r = sessionId s) (t_game (db w))"
  obtain rows where rows: "getSessionGames (sessionId s) w = (Inr rows, ?w1)" "map gr_gameId rows = map row_gameId ?rs"
    using getSessionGames_run [OF inv(2)] world_readable [OF inv(1)] unfolding rows_readable_def by metis
  have key: "game_key ?w1 = game_key w" "mem_ids ?w1 = mem_ids w" by (auto simp: game_key_def fun_eq_iff mem_ids_def)
  define f where "f gid = the (mem_get (game_key w) gid (memGames w))" for gid
  have f: "getGame gid ?w1 = Inr (f gid) \<and> game_key w (f gid) = gid" if "gid \<in> mem_ids w" for gid
    using that getGame_key [of gid ?w1] getGame_cases [of gid ?w1]
    by (simp add: in_memory_ids key f_def)
  define js where "js = map f (map row_gameId ?rs)"
  have "map (\<lambda>g. getGame (gr_gameId g) ?w1) rows = map (\<lambda>gid. getGame gid ?w1) (map row_gameId ?rs)"
    unfolding rows(2) [symmetric] by simp
  also have "\<dots> = map (\<lambda>gid. Inr (f gid)) (map row_gameId ?rs)" using f mem by auto
  finally have "aoe2ea (map (\<lambda>g. getGame (gr_gameId g) ?w1) rows) = Inr js" by (simp only: aoe2ea_map_Inr js_def)
  then have w': "w' = snd (parallel1 (map removeGame js) ?w1)"
    unfolding w'_def by (simp add: removeSessionGames_def fchain_def rows(1))
  have keys: "map (game_key w) js = map row_gameId ?rs" using f mem by (auto simp: js_def)
  then have mine: "game_key w ` set js = mine" unfolding mine_def by (metis list.set_map set_filter)
  have "distinct (map (game_key ?w1) js)" "game_key ?w1 ` set js \<subseteq> mem_ids ?w1" "world_inv ?w1" "db_works ?w1"
    using keys distinct_session_rows [OF inv(3)] mem inv(1,2) by (auto simp: key mine mine_def)
  from removeGames_mem [OF this(3,4,1,2)]
  obtain rs v where v: "parallel1 (map removeGame js) ?w1 = (Inr rs, v)" "world_inv v" "db_works v"
    "mem_ids v = mem_ids w - mine" "t_session (db v) = t_session (db w)"
    "t_game (db v) = filter (\<lambda>r. row_gameId r \<notin> mine) (t_game (db w))"
    by (auto simp: key mine)
  have "w' = v" using w' v(1) by simp
  with v(2-) show "world_inv w'" "db_works w'" "mem_ids w' = mem_ids w - mine"
    "t_session (db w') = t_session (db w)"
    "t_game (db w') = filter (\<lambda>r. row_gameId r \<notin> mine) (t_game (db w))" by simp_all
qed

lemma removeSession_gone:
  assumes "db_works w" "\<forall>s \<in> set (t_session (db w)). sessionId s \<noteq> sid"
  shows "\<exists>m. removeSession sid w = (Inl (PlainError m), w\<lparr>dbcount := Suc (dbcount w)\<rparr>)"
proof -
  obtain m where "find_e (\<lambda>s. sessionId s = sid) (t_session (db w)) = Inl m"
    using find_e_Inl_iff [of "\<lambda>s. sessionId s = sid" "t_session (db w)"] assms(2) by auto
  then show ?thesis using assms(1)
    by (simp add: removeSession_def getSessionById_def getSessions_def fchain_def select_run)
qed


lemma removeSession_inv:
  assumes inv: "server_inv w"
  shows "server_inv (snd (removeSession sid w))"
proof (cases "\<exists>s \<in> set (t_session (db w)). sessionId s = sid")
  case False
  have "db_works w" using inv by (simp add: server_inv_def)
  from removeSession_gone [OF this] False
  obtain m where "removeSession sid w = (Inl (PlainError m), w\<lparr>dbcount := Suc (dbcount w)\<rparr>)" by blast
  moreover have "server_inv (w\<lparr>dbcount := Suc (dbcount w)\<rparr>)"
    by (rule server_inv_stable [OF inv]) (use inv in \<open>simp_all add: server_inv_def stable_def index_def\<close>)
  ultimately show ?thesis by simp
next
  case True
  then obtain s where s: "s \<in> set (t_session (db w))" "sessionId s = sid" by blast
  have w: "world_inv w" "db_works w" "db_ok (db w)" "rows_referenced (db w)" "mem_ids w = row_ids w"
    using inv by (simp_all add: server_inv_def)
  let ?w1 = "w\<lparr>dbcount := Suc (dbcount w)\<rparr>"
  let ?w2 = "snd (removeSessionGames s ?w1)"
  let ?w3 = "snd (deleteSessionAttacks s ?w2)"
  let ?w4 = "snd (removeSessionMurmur s ?w3)"
  let ?mine = "row_gameId ` {r \<in> set (t_game (db w)). row_sessionId r = sessionId s}"
  have "row_gameId r \<in> mem_ids w" if "r \<in> set (t_game (db w))" for r
    using that w(5) by (simp add: row_ids_def)
  moreover have "mem_ids ?w1 = mem_ids w" by (simp add: mem_ids_def game_key_def)
  ultimately have w2: "world_inv ?w2" "db_works ?w2" "mem_ids ?w2 = mem_ids w - ?mine"
    "t_session (db ?w2) = t_session (db w)"
    "t_game (db ?w2) = filter (\<lambda>r. row_gameId r \<notin> ?mine) (t_game (db w))"
    using removeSessionGames_mem [of ?w1 s] w by simp_all
  have "stable (index ?w2) ?w2" using w2(1) by (simp add: stable_def)
  then have st: "stable (index ?w2) ?w4"
    by (intro keepsD [OF keeps_stable_sessions(5)] keepsD [OF keeps_stable_sessions(4)])
  note w4 = index_key [OF st [unfolded stable_def, THEN conjunct2] w2(1)]
  have d4: "t_session (db ?w4) = t_session (db w)" "t_game (db ?w4) = t_game (db ?w2)"
    using st w2(4) by (simp_all add: stable_def index_def)
  obtain r where par: "parallel1 [coalesced (removeSessionGames s), coalesced (deleteSessionAttacks s),
      coalesced (removeSessionMurmur s)] ?w1 = (Inr r, ?w4)"
    using parallel_coalesced3 [of "removeSessionGames s" "deleteSessionAttacks s" "removeSessionMurmur s" ?w1]
    by (metis prod.collapse)
  have "getSessionById sid w = (Inr s, ?w1)"
    using getSessionById_run [OF w(2) db_ok_t_game(2) [OF w(3)] s(1)] s(2) by simp
  then have eq: "removeSession sid w = deleteSession s ?w4"
    using par by (simp add: removeSession_def fchain_def del: parallel1.simps)
  let ?d = "(db ?w4)\<lparr>t_session := filter (\<lambda>x. sessionId x \<noteq> sid) (t_session (db w))\<rparr>"
  have works4: "db_works ?w4" using w4(3) w2(2) by simp
  then have run: "snd (removeSession sid w) = ?w4\<lparr>dbcount := Suc (dbcount ?w4), db := ?d\<rparr>" (is "_ = ?v")
    unfolding eq by (simp add: deleteSession_def withDb_works delete_session_stmt_def s(2) d4(1))
  have rows: "t_game ?d = filter (\<lambda>r. row_sessionId r \<noteq> sid) (t_game (db w))"
    using d4(2) w2(5) filter_session_games [OF db_ok_t_game(1) [OF w(3)], of sid] s(2) by simp
  have "world_inv ?w4" using st by (simp add: stable_def)
  then have "world_inv ?v" by (rule world_inv_db) (use world_invD(5) [OF \<open>world_inv ?w4\<close>] in \<open>auto simp: row_ids_def\<close>)
  moreover have "db_ok (db (snd (removeSession sid w)))" using keepsD [OF keeps_removeSession w(3)] .
  moreover have "rows_referenced ?d"
    unfolding rows_referenced_def rows using w(4) by (auto simp: rows_referenced_def)
  moreover have "mem_ids ?v = row_ids ?v"
  proof -
    have "mem_ids ?v = mem_ids ?w4" by (simp add: mem_ids_def game_key_def)
    also have "\<dots> = row_ids w - ?mine" using w4(1) w2(3) w(5) by simp
    also have "\<dots> = row_gameId ` set (t_game ?d)"
      unfolding rows using db_ok_t_game(1) [OF w(3)] s(2)
      by (auto simp: row_ids_def distinct_map inj_on_def image_iff)
    finally show ?thesis by (simp add: row_ids_def)
  qed
  ultimately show ?thesis using works4 by (simp add: server_inv_def run)
qed

end
