(* ===== verification/Creation.thy ===== *)
theory Creation
  imports Lifecycle
begin

text \<open>
  A new session: the four rows \<open>createSessionGames\<close> writes, the games \<open>initSession\<close> builds from the
  rows of a session, and what either leaves behind when it fails. Together with the theory Lifecycle
  this carries the invariant of the server through \<open>createSession\<close> and \<open>initSessions\<close>.
\<close>

subsection \<open>One game\<close>

definition created_row :: "int \<Rightarrow> int \<Rightarrow> bool \<Rightarrow> game \<Rightarrow> db_game" where
  "created_row sid ord cur g =
     \<lparr>row_gameId = gameId g, row_data = GameText (state g), row_isCurrent = cur,
      row_sessionId = sid, row_order = ord\<rparr>"

definition fresh_game :: "nat \<Rightarrow> string \<Rightarrow> string \<Rightarrow> string \<Rightarrow> game \<Rightarrow> bool" where
  "fresh_game i gid blue red g \<longleftrightarrow>
     (\<exists>rs. g = new_Game i gid [\<lparr>playerId = blue, ready = False\<rparr>, \<lparr>playerId = red, ready = False\<rparr>] rs None None
        \<and> list_all fresh_round rs \<and> list_all restorable rs)"

text \<open>What \<open>createGame\<close> does to the world: an object nobody keeps, a row, and some attacks.\<close>

definition adds_game :: "string \<Rightarrow> string \<Rightarrow> string \<Rightarrow> int \<Rightarrow> int \<Rightarrow> bool \<Rightarrow> world \<Rightarrow> world \<Rightarrow> bool" where
  "adds_game gid blue red sid ord cur w w' \<longleftrightarrow>
     (\<exists>g as n. fresh_game (length (objs w)) gid blue red g \<and> (\<forall>a \<in> set as. att_sessionId a = sid)
        \<and> w' = w\<lparr>objs := objs w @ [g], dbcount := n,
                  db := (db w)\<lparr>t_game := t_game (db w) @ [created_row sid ord cur g],
                               t_attack := t_attack (db w) @ as\<rparr>\<rparr>)"

lemma attacks_run:
  assumes "db_works w" "map playerId (gd_players (gr_data row)) = [b, r]"
    and "\<forall>m \<in> set ms. \<exists>a i. m = createAttack row a i"
  shows "\<exists>xs as n. parallel1 ms w =
    (Inr xs, w\<lparr>dbcount := n, db := (db w)\<lparr>t_attack := t_attack (db w) @ as\<rparr>\<rparr>)
    \<and> (\<forall>a \<in> set as. att_sessionId a = gr_sessionId row)"
  using assms
proof (induction ms arbitrary: w)
  case Nil
  have "w\<lparr>dbcount := dbcount w, db := (db w)\<lparr>t_attack := t_attack (db w) @ []\<rparr>\<rparr> = w" by simp
  then show ?case by (intro exI [of _ "[]"] exI [of _ "dbcount w"]) simp
next
  case (Cons m ms)
  obtain a i where "m = createAttack row a i" using Cons.prems(3) by auto
  then obtain x y n where m: "m w = (Inr x, w\<lparr>dbcount := n, db := (db w)\<lparr>t_attack := t_attack (db w) @ [y]\<rparr>\<rparr>)"
    and y: "att_sessionId y = gr_sessionId row"
    using Cons.prems(1,2)
    by (auto simp: createAttack_def insertAttack_def fmap_def withDb_works insert_attack_stmt_def Let_def
        split: list.splits)
  let ?w1 = "w\<lparr>dbcount := n, db := (db w)\<lparr>t_attack := t_attack (db w) @ [y]\<rparr>\<rparr>"
  have "db_works ?w1" using Cons.prems(1) by simp
  from Cons.IH [OF this Cons.prems(2)] Cons.prems(3)
  obtain xs as n' where "parallel1 ms ?w1 =
      (Inr xs, ?w1\<lparr>dbcount := n', db := (db ?w1)\<lparr>t_attack := t_attack (db ?w1) @ as\<rparr>\<rparr>)"
    and as: "\<forall>a \<in> set as. att_sessionId a = gr_sessionId row" by auto
  then have "parallel1 (m # ms) w =
      (Inr (x # xs), w\<lparr>dbcount := n', db := (db w)\<lparr>t_attack := t_attack (db w) @ (y # as)\<rparr>\<rparr>)"
    using m by simp
  moreover have "\<forall>a \<in> set (y # as). att_sessionId a = gr_sessionId row" using y as by simp
  ultimately show ?case by blast
qed

lemma createRounds_fresh:
  assumes "aoe2ea (map createRound sch) = Inr rs"
  shows "list_all fresh_round rs" "list_all single_round rs" "list_all restorable rs"
proof -
  have "\<exists>d. createRound d = Inr r" if "r \<in> set rs" for r
    using aoe2ea_Inr [OF assms] that by (metis (no_types) image_eqI imageE list.set_map)
  then show "list_all fresh_round rs" "list_all single_round rs" "list_all restorable rs"
    using createRound_Inr(2,3) createRound_restorable by (fastforce simp: list_all_iff)+
qed

lemma createGame_run:
  assumes works: "db_works w" and rs: "aoe2ea (map createRound sch) = Inr rs"
    and fresh: "uuids w0 (uuid_count w0) \<notin> row_ids w"
  shows "\<exists>row w'. fst (createGame blue red sid ord sch cur w0) w = (Inr row, w')
    \<and> adds_game (uuids w0 (uuid_count w0)) blue red sid ord cur w w'"
proof -
  let ?gid = "uuids w0 (uuid_count w0)"
  let ?g = "new_Game (length (objs w)) ?gid [\<lparr>playerId = blue, ready = False\<rparr>, \<lparr>playerId = red, ready = False\<rparr>] rs None None"
  let ?row = "\<lparr>gr_gameId = ?gid, gr_sessionId = sid, gr_data = state ?g, gr_isCurrent = cur, gr_order = ord\<rparr>"
  have gid: "gameId ?g = ?gid" "map playerId (gd_players (state ?g)) = [blue, red]"
    by (simp_all add: new_Game_def state_def)
  let ?w1 = "w\<lparr>objs := objs w @ [?g], dbcount := Suc (dbcount w),
      db := (db w)\<lparr>t_game := t_game (db w) @ [created_row sid ord cur ?g]\<rparr>\<rparr>"
  have ins: "insertGame ?row (w\<lparr>objs := objs w @ [?g]\<rparr>) = (Inr ?row, ?w1)"
    using works fresh
    by (simp add: insertGame_def fmap_def withDb_works insert_game_stmt_def unique_ok_def row_ids_def created_row_def gid)
  have "\<exists>xs as n. parallel1 (concat (map (\<lambda>(roundIndex, roundData).
            case rd_attack roundData of
              None \<Rightarrow> []
            | Some attack \<Rightarrow> [createAttack ?row attack (int roundIndex)])
          (enumerate 0 sch))) ?w1 = (Inr xs, ?w1\<lparr>dbcount := n, db := (db ?w1)\<lparr>t_attack := t_attack (db ?w1) @ as\<rparr>\<rparr>)
          \<and> (\<forall>a \<in> set as. att_sessionId a = gr_sessionId ?row)"
  proof (rule attacks_run [where row = ?row and b = blue and r = red])
    show "db_works ?w1" using works by simp
    show "map playerId (gd_players (gr_data ?row)) = [blue, red]" using gid(2) by simp
  qed (auto split: option.splits)
  then obtain xs as n where "createGameAttacks sch ?row ?w1 =
      (Inr ?row, ?w1\<lparr>dbcount := n, db := (db ?w1)\<lparr>t_attack := t_attack (db ?w1) @ as\<rparr>\<rparr>)"
    and as: "\<forall>a \<in> set as. att_sessionId a = sid"
    by (auto simp: createGameAttacks_def fmap_def)
  then have "fst (createGame blue red sid ord sch cur w0) w =
      (Inr ?row, w\<lparr>objs := objs w @ [?g], dbcount := n,
                  db := (db w)\<lparr>t_game := t_game (db w) @ [created_row sid ord cur ?g],
                               t_attack := t_attack (db w) @ as\<rparr>\<rparr>)"
    using ins rs by (simp add: createGame_def fchain_def alloc_game_def Let_def)
  moreover have "fresh_game (length (objs w)) ?gid blue red ?g"
    using createRounds_fresh [OF rs] by (auto simp: fresh_game_def)
  ultimately show ?thesis unfolding adds_game_def using as by blast
qed

text \<open>The object a future of \<open>createGame\<close> leaves behind is dead, and its row can be restored.\<close>

lemma fresh_game_inv:
  assumes "fresh_game i gid blue red g" "idle_env e"
  shows "game_inv (g, e)" "list_all restorable (rounds g)" "gameId g = gid" "oid g = i" "startTime g = None"
proof -
  obtain rs where g: "g = new_Game i gid [\<lparr>playerId = blue, ready = False\<rparr>, \<lparr>playerId = red, ready = False\<rparr>] rs None None"
    and rs: "list_all fresh_round rs" "list_all restorable rs"
    using assms(1) by (auto simp: fresh_game_def)
  have "list_all single_round rs" using rs(2) by (auto simp: list_all_iff restorable_def)
  then show "game_inv (g, e)" unfolding g using rs assms(2) by (intro created_inv) (simp_all add: both_ready_def)
  show "list_all restorable (rounds g)" "gameId g = gid" "oid g = i" "startTime g = None"
    using rs by (simp_all add: g new_Game_def)
qed

lemma adds_game_inv:
  assumes add: "adds_game gid blue red sid ord cur w w'" and inv: "world_inv w"
    and gid: "\<And>n. uuid_count w \<le> n \<Longrightarrow> uuids w n \<noteq> gid"
  shows "world_inv w'" "db_works w' = db_works w" "row_ids w' = insert gid (row_ids w)"
    "live_ids w' = live_ids w" "memGames w' = memGames w" "t_session (db w') = t_session (db w)"
    "uuids w' = uuids w" "uuid_count w' = uuid_count w" "genv w' = genv w" "mem_ids w' = mem_ids w"
    "\<exists>r. t_game (db w') = t_game (db w) @ [r] \<and> row_gameId r = gid \<and> row_sessionId r = sid
        \<and> row_order r = ord \<and> row_isCurrent r = cur"
    "t_murmur (db w') = t_murmur (db w)"
    "filter (\<lambda>a. att_sessionId a \<noteq> sid) (t_attack (db w')) = filter (\<lambda>a. att_sessionId a \<noteq> sid) (t_attack (db w))"
proof -
  obtain g as n where g: "fresh_game (length (objs w)) gid blue red g" and as: "\<forall>a \<in> set as. att_sessionId a = sid"
    and w': "w' = w\<lparr>objs := objs w @ [g], dbcount := n,
                  db := (db w)\<lparr>t_game := t_game (db w) @ [created_row sid ord cur g],
                               t_attack := t_attack (db w) @ as\<rparr>\<rparr>"
    using add by (auto simp: adds_game_def)
  have "idle_env (\<lparr>now = 0, pending = [], nextTimer = 0, gameTimers = (\<lambda>_. None), out = []\<rparr>)"
    by (simp add: idle_env_def clock_ok_def)
  note fg = fresh_game_inv [OF g this]
  note gi = games_inv_parts [OF world_invD(1) [OF inv]]
  have live: "live (objs w @ [g]) (memGames w) = live (objs w) (memGames w)"
    using gi(3) fg(5) by (auto simp: live_def nth_append)
  have key: "game_key w' i = game_key w i" if "i < length (objs w)" for i
    using that by (simp add: w' game_key_def nth_append)
  show lids: "live_ids w' = live_ids w"
    using live key by (auto simp: live_ids_def w' live_def intro!: image_cong)
  show "mem_ids w' = mem_ids w"
    using gi(3) key by (auto simp: mem_ids_def w' intro!: image_cong)
  show rids: "row_ids w' = insert gid (row_ids w)" using fg(3) by (auto simp: w' row_ids_def created_row_def)
  have "games_inv (objs w @ [g]) (memGames w) (genv w)"
    using g world_invD(1) [OF inv] games_inv_alloc
    by (auto simp: fresh_game_def both_ready_def list_all_iff restorable_def)
  moreover have "save_ok (gid, state g)" by (rule game_save_ok [OF fg(1,2,3)])
  then have "row_ok (created_row sid ord cur g)" by (simp add: row_ok_def created_row_def fg(3))
  moreover have "ids_fresh w'"
    using world_invD(2) [OF inv] gid unfolding ids_fresh_def rids lids by (auto simp: w')
  ultimately show "world_inv w'"
    using inv fg(2) by (auto simp: world_inv_def w')
  show "db_works w' = db_works w" "memGames w' = memGames w" "t_session (db w') = t_session (db w)"
    "uuids w' = uuids w" "uuid_count w' = uuid_count w" "genv w' = genv w"
    by (simp_all add: w' db_works_def)
  show "\<exists>r. t_game (db w') = t_game (db w) @ [r] \<and> row_gameId r = gid \<and> row_sessionId r = sid
        \<and> row_order r = ord \<and> row_isCurrent r = cur"
    using fg(3) by (simp add: w' created_row_def)
  show "t_murmur (db w') = t_murmur (db w)"
    "filter (\<lambda>a. att_sessionId a \<noteq> sid) (t_attack (db w')) = filter (\<lambda>a. att_sessionId a \<noteq> sid) (t_attack (db w))"
    using as by (simp_all add: w')
qed


subsection \<open>The four games of a session\<close>

lemma shipped_rounds:
  "\<exists>rs. aoe2ea (map createRound (tutorialSchedules ! 0)) = Inr rs"
  "\<exists>rs. aoe2ea (map createRound (tutorialSchedules ! 1)) = Inr rs"
  "\<exists>rs. aoe2ea (map createRound (gameSchedules ! 0)) = Inr rs"
  "\<exists>rs. aoe2ea (map createRound (gameSchedules ! 1)) = Inr rs"
proof -
  have created: "\<exists>rs. aoe2ea (map createRound sch) = Inr rs" if "sch \<in> set shipped" for sch
  proof -
    have "\<forall>d \<in> set sch. \<exists>r. createRound d = Inr r" using shipped_created [OF that] by blast
    then obtain f where "\<forall>d \<in> set sch. createRound d = Inr (f d)" by metis
    then have "map createRound sch = map (\<lambda>d. Inr (f d)) sch" by simp
    then show ?thesis by (metis aoe2ea_map_Inr)
  qed
  show "\<exists>rs. aoe2ea (map createRound (tutorialSchedules ! 0)) = Inr rs"
    "\<exists>rs. aoe2ea (map createRound (tutorialSchedules ! 1)) = Inr rs"
    "\<exists>rs. aoe2ea (map createRound (gameSchedules ! 0)) = Inr rs"
    "\<exists>rs. aoe2ea (map createRound (gameSchedules ! 1)) = Inr rs"
    by (rule created; simp add: shipped_def tutorialSchedules_def gameSchedules_def)+
qed

definition adds_rows :: "int \<Rightarrow> db_game list \<Rightarrow> world \<Rightarrow> world \<Rightarrow> bool" where
  "adds_rows sid rows w w' \<longleftrightarrow>
     world_inv w' \<and> db_works w' \<and> t_game (db w') = t_game (db w) @ rows
     \<and> (\<forall>r \<in> set rows. row_sessionId r = sid) \<and> live_ids w' = live_ids w \<and> mem_ids w' = mem_ids w
     \<and> memGames w' = memGames w \<and> t_session (db w') = t_session (db w) \<and> genv w' = genv w
     \<and> uuids w' = uuids w \<and> uuid_count w' = uuid_count w \<and> t_murmur (db w') = t_murmur (db w)
     \<and> filter (\<lambda>a. att_sessionId a \<noteq> sid) (t_attack (db w')) = filter (\<lambda>a. att_sessionId a \<noteq> sid) (t_attack (db w))"

lemma adds_rows_refl: "world_inv w \<Longrightarrow> db_works w \<Longrightarrow> adds_rows sid [] w w"
  by (simp add: adds_rows_def)

text \<open>One more game, with the id drawn for it.\<close>

lemma adds_rows_step:
  assumes old: "adds_rows sid rows w v" and rs: "\<exists>rs. aoe2ea (map createRound sch) = Inr rs"
    and w0: "uuids w0 = uuids w" "uuid_count w0 = k" "k < uuid_count w"
    and new: "uuids w k \<notin> row_ids w" "uuids w k \<notin> row_gameId ` set rows" and inj: "inj (uuids w)"
  shows "\<exists>row r v'. fst (createGame blue red sid ord sch cur w0) v = (Inr row, v')
    \<and> adds_rows sid (rows @ [r]) w v' \<and> row_gameId r = uuids w k \<and> row_order r = ord \<and> row_isCurrent r = cur"
proof -
  have inv: "world_inv v" "db_works v" using old by (simp_all add: adds_rows_def)
  have ids: "row_ids v = row_ids w \<union> row_gameId ` set rows" using old by (auto simp: adds_rows_def row_ids_def)
  have gid: "uuids w0 (uuid_count w0) = uuids w k" using w0 by simp
  have "uuids w0 (uuid_count w0) \<notin> row_ids v" using new gid ids by simp
  from createGame_run [OF inv(2) _ this] rs
  obtain row v' where run: "fst (createGame blue red sid ord sch cur w0) v = (Inr row, v')"
    and add: "adds_game (uuids w k) blue red sid ord cur v v'"
    unfolding gid by blast
  have "uuids v n \<noteq> uuids w k" if "uuid_count v \<le> n" for n
    using that w0(3) old inj by (auto simp: adds_rows_def dest: injD)
  note res = adds_game_inv [OF add inv(1) this]
  obtain r where r: "t_game (db v') = t_game (db v) @ [r]" "row_gameId r = uuids w k"
    "row_sessionId r = sid" "row_order r = ord" "row_isCurrent r = cur"
    using res(11) by blast
  have "adds_rows sid (rows @ [r]) w v'" using old res inv r by (auto simp: adds_rows_def)
  then show ?thesis using run r by blast
qed

lemma createGame_world: "snd (createGame blue red sid ord sch cur w) = w\<lparr>uuid_count := Suc (uuid_count w)\<rparr>"
  by (simp add: createGame_def Let_def)

lemma uuid_count_inv: "world_inv w \<Longrightarrow> uuid_count w \<le> n \<Longrightarrow> world_inv (w\<lparr>uuid_count := n\<rparr>)"
  by (auto simp: world_inv_def ids_fresh_def row_ids_def live_ids_def game_key_def)

lemma createSessionGames_run:
  assumes inv: "world_inv w" and works: "db_works w"
  defines "n \<equiv> uuid_count w"
  shows "\<exists>rows w'. createSessionGames s w = (Inr s, w')
    \<and> adds_rows (sessionId s) rows (w\<lparr>uuid_count := n + 4\<rparr>) w'
    \<and> map row_gameId rows = map (uuids w) [n, n + 1, n + 2, n + 3]
    \<and> map row_order rows = [0, 1, 2, 3] \<and> map row_isCurrent rows = [True, False, False, False]"
proof -
  let ?v = "w\<lparr>uuid_count := n + 4\<rparr>" and ?sid = "sessionId s"
  let ?b = "blueParticipant s" and ?r = "redParticipant s"
  let ?w1 = "w\<lparr>uuid_count := n + 1\<rparr>" and ?w2 = "w\<lparr>uuid_count := n + 2\<rparr>" and ?w3 = "w\<lparr>uuid_count := n + 3\<rparr>"
  have inj: "inj (uuids ?v)" and fresh: "uuids w k \<notin> row_ids ?v" if "n \<le> k" for k
    using world_invD(2) [OF inv] that by (auto simp: ids_fresh_def n_def row_ids_def)
  have ne: "uuids w i = uuids w j \<longleftrightarrow> i = j" for i j
    using world_invD(2) [OF inv] by (auto simp: ids_fresh_def dest: injD)
  have "adds_rows ?sid [] ?v ?v"
    using uuid_count_inv [OF inv] works by (intro adds_rows_refl) (simp_all add: n_def db_works_def)
  then have base: "adds_rows ?sid [] ?v ?v" .
  have step: "\<exists>row r v'. fst (createGame b c ?sid ord sch cur (w\<lparr>uuid_count := n + k\<rparr>)) v = (Inr row, v')
      \<and> adds_rows ?sid (rows @ [r]) ?v v' \<and> row_gameId r = uuids w (n + k) \<and> row_order r = ord \<and> row_isCurrent r = cur"
    if "adds_rows ?sid rows ?v v" "\<exists>rs. aoe2ea (map createRound sch) = Inr rs"
      "k < 4" "uuids w (n + k) \<notin> row_gameId ` set rows" for rows v sch k b c ord cur
    using adds_rows_step [OF that(1,2), of "w\<lparr>uuid_count := n + k\<rparr>" "n + k" b c ord cur] that(3,4)
      inj [of n] fresh [of "n + k"] by simp
  from step [OF base shipped_rounds(1), of 0 ?b ?r 0 True]
  obtain x0 r0 v0 where g0: "fst (createGame ?b ?r ?sid 0 (tutorialSchedules ! 0) True (w\<lparr>uuid_count := n + 0\<rparr>)) ?v = (Inr x0, v0)"
    "adds_rows ?sid [r0] ?v v0" "row_gameId r0 = uuids w (n + 0)" "row_order r0 = 0" "row_isCurrent r0 = True"
    by (auto simp: ne)
  from step [OF g0(2) shipped_rounds(2), of 1 ?r ?b 1 False] g0(3)
  obtain x1 r1 v1 where g1: "fst (createGame ?r ?b ?sid 1 (tutorialSchedules ! 1) False (w\<lparr>uuid_count := n + 1\<rparr>)) v0 = (Inr x1, v1)"
    "adds_rows ?sid [r0, r1] ?v v1" "row_gameId r1 = uuids w (n + 1)" "row_order r1 = 1" "row_isCurrent r1 = False"
    by (auto simp: ne)
  from step [OF g1(2) shipped_rounds(3), of 2 ?b ?r 2 False] g0(3) g1(3)
  obtain x2 r2 v2 where g2: "fst (createGame ?b ?r ?sid 2 (gameSchedules ! 0) False (w\<lparr>uuid_count := n + 2\<rparr>)) v1 = (Inr x2, v2)"
    "adds_rows ?sid [r0, r1, r2] ?v v2" "row_gameId r2 = uuids w (n + 2)" "row_order r2 = 2" "row_isCurrent r2 = False"
    by (auto simp: ne)
  from step [OF g2(2) shipped_rounds(4), of 3 ?r ?b 3 False] g0(3) g1(3) g2(3)
  obtain x3 r3 v3 where g3: "fst (createGame ?r ?b ?sid 3 (gameSchedules ! 1) False (w\<lparr>uuid_count := n + 3\<rparr>)) v2 = (Inr x3, v3)"
    "adds_rows ?sid [r0, r1, r2, r3] ?v v3" "row_gameId r3 = uuids w (n + 3)" "row_order r3 = 3" "row_isCurrent r3 = False"
    by (auto simp: ne)
  have w1: "snd (createGame ?b ?r ?sid 0 (tutorialSchedules ! 0) True w) = ?w1"
    and w2: "snd (createGame ?r ?b ?sid 1 (tutorialSchedules ! 1) False ?w1) = ?w2"
    and w3: "snd (createGame ?b ?r ?sid 2 (gameSchedules ! 0) False ?w2) = ?w3"
    and w4: "snd (createGame ?r ?b ?sid 3 (gameSchedules ! 1) False ?w3) = ?v"
    by (simp_all add: createGame_world n_def numeral_eq_Suc)
  have "createSessionGames s w = (Inr s, v3)"
    unfolding createSessionGames_def Let_def case_prod_unfold w1 w2 w3 w4
    using g0(1) g1(1) g2(1) g3(1) by (simp add: fmapRej_def fmap_def n_def)
  moreover have "map row_gameId [r0, r1, r2, r3] = map (uuids w) [n, n + 1, n + 2, n + 3]"
    "map row_order [r0, r1, r2, r3] = [0, 1, 2, 3]" "map row_isCurrent [r0, r1, r2, r3] = [True, False, False, False]"
    using g0(3-) g1(3-) g2(3-) g3(3-) by simp_all
  ultimately show ?thesis using g3(2)
    by (intro exI [of _ "[r0, r1, r2, r3]"] exI [of _ v3] conjI)
qed


subsection \<open>The games of a session come into memory\<close>

lemma deserialize_fx:
  assumes "deserializeGame i gd e = Inr (Inr g', e')"
  shows "list_all restorable (rounds g') \<and> saves e' \<subseteq> insert (gd_gameId gd, state g') (saves e)"
proof -
  obtain rs where rs: "aoe2ea (map createRound (gd_rounds gd)) = Inr rs"
    using assms by (auto simp: deserializeGame_def split: sum.splits)
  let ?g = "new_Game i (gd_gameId gd) (gd_players gd) rs (gd_currentRound gd) (gd_startTime gd)"
  have "(?g, e) = (g', e') \<or> (\<exists>k. gotoRound_fx k (?g, e) = (g', e'))"
    using assms rs by (auto simp: deserializeGame_def resumeGame_def method_eqs split: if_splits prod.splits)
  moreover have "list_all restorable (rounds ?g)" "gameId ?g = gd_gameId gd"
    using createRounds_fresh(3) [OF rs] by (simp_all add: new_Game_def)
  ultimately show ?thesis
    using fx_restorable(1) [of "(?g, e)"] saves_gotoRound [of _ "(?g, e)"] by (fastforce simp: prod_eq_iff)
qed

text \<open>What initialising games changes, and what it leaves.\<close>

definition remembers :: "string set \<Rightarrow> world \<Rightarrow> world \<Rightarrow> bool" where
  "remembers gids w w' \<longleftrightarrow>
     world_inv w' \<and> live_ids w' = live_ids w \<union> gids \<and> mem_ids w' = mem_ids w \<union> gids
     \<and> db w' = db w \<and> dbfate w' = dbfate w \<and> uuids w' = uuids w \<and> uuid_count w' = uuid_count w
     \<and> length (objs w) \<le> length (objs w') \<and> (\<forall>i < length (objs w). game_key w' i = game_key w i)"

lemma remembers_refl: "world_inv w \<Longrightarrow> remembers {} w w"
  by (simp add: remembers_def)

lemma remembers_trans: "remembers A w1 w2 \<Longrightarrow> remembers B w2 w3 \<Longrightarrow> remembers (A \<union> B) w1 w3"
  by (auto simp: remembers_def)

lemma initGame_inv:
  assumes inv: "world_inv w" and gd: "save_ok (gid, gd)" and new: "gid \<notin> live_ids w"
    and drawn: "\<And>n. uuid_count w \<le> n \<Longrightarrow> uuids w n \<noteq> gid"
  shows "\<exists>w'. initGame gd w = (Inr (length (objs w)), w') \<and> remembers {gid} w w'
    \<and> memGames w' = memGames w @ [length (objs w)] \<and> length (objs w') = Suc (length (objs w))
    \<and> game_key w' (length (objs w)) = gid"
proof -
  let ?i = "length (objs w)"
  have st: "stored_ok gd" and id: "gd_gameId gd = gid" using gd by (simp_all add: save_ok_def)
  have "gameId (objs w ! j) \<noteq> gd_gameId gd" if "j \<in> live (objs w) (memGames w)" for j
    using new that id by (auto simp: live_ids_def game_key_def image_iff)
  from games_inv_init [OF world_invD(1) [OF inv] st this]
  obtain g' e' where run: "deserializeGame ?i gd (genv w) = Inr (Inr g', e')"
    and gi: "games_inv (objs w @ [g']) (memGames w @ [?i]) e'" and g': "gameId g' = gid"
    unfolding id by blast
  let ?w = "w\<lparr>objs := objs w @ [g'], genv := e'\<rparr>" and ?ms = "memGames w @ [?i]"
  note gp = games_inv_parts [OF world_invD(1) [OF inv]]
  have key: "game_key ?w j = game_key w j" if "j < ?i" for j using that by (simp add: game_key_def nth_append)
  have new_key: "game_key ?w ?i = gid" using g' by (simp add: game_key_def)
  have mem: "set (memGames w) \<subseteq> live (objs w) (memGames w)" using gp(3) by (auto simp: live_def)
  have "gid \<notin> game_key ?w ` set (memGames w)" using new mem gp(3) key by (auto simp: live_ids_def)
  then have put: "setMemGame ?i ?w = ?w\<lparr>memGames := ?ms\<rparr>"
    using new_key mem_set_absent [of "game_key ?w" ?i "memGames w"] by (simp add: setMemGame_def)
  let ?v = "?w\<lparr>memGames := ?ms\<rparr>"
  have eq: "initGame gd w = (Inr ?i, ?v)"
    using run put by (simp add: initGame_def Let_def)
  have keyv: "game_key ?v = game_key ?w" by (simp add: game_key_def fun_eq_iff)
  have lv: "live (objs ?v) ?ms = insert ?i (live (objs w) (memGames w))"
    by (auto simp: live_def nth_append)
  have lids: "live_ids ?v = live_ids w \<union> {gid}"
    unfolding live_ids_def using lv key new_key by (auto simp: keyv live_def intro!: image_eqI)
  have mids: "mem_ids ?v = mem_ids w \<union> {gid}"
    unfolding mem_ids_def using key new_key gp(3) by (auto simp: keyv intro!: image_eqI)
  have fx: "list_all restorable (rounds g')" "saves e' \<subseteq> insert (gid, state g') (saves (genv w))"
    using deserialize_fx [OF run] id by simp_all
  have "game_inv (g', view ?i e')" using games_invD(2) [OF gi, of ?i] by simp
  then have "save_ok (gid, state g')" using fx(1) g' by (rule game_save_ok)
  then have "\<forall>x \<in> saves e'. save_ok x" using fx(2) world_invD(4) [OF inv] by auto
  moreover have "ids_fresh ?v"
    using world_invD(2) [OF inv] drawn unfolding ids_fresh_def lids by (auto simp: row_ids_def)
  ultimately have "world_inv ?v" using gi fx(1) inv by (auto simp: world_inv_def)
  then have "remembers {gid} w ?v" using lids mids key by (simp add: remembers_def keyv)
  then show ?thesis using eq new_key by (simp add: keyv)
qed

lemma init_games_inv:
  assumes "world_inv w" "list_all (\<lambda>gd. save_ok (gd_gameId gd, gd)) gds" "distinct (map gd_gameId gds)"
    and "gd_gameId ` set gds \<inter> live_ids w = {}"
    and "\<And>n. uuid_count w \<le> n \<Longrightarrow> uuids w n \<notin> gd_gameId ` set gds"
  shows "\<exists>is w'. init_games gds w = (map Inr is, w') \<and> remembers (gd_gameId ` set gds) w w'
    \<and> memGames w' = memGames w @ is \<and> map (game_key w') is = map gd_gameId gds"
  using assms
proof (induction gds arbitrary: w)
  case Nil
  then show ?case by (simp add: remembers_def)
next
  case (Cons gd gds)
  obtain w1 where w1: "initGame gd w = (Inr (length (objs w)), w1)" "remembers {gd_gameId gd} w w1"
    "memGames w1 = memGames w @ [length (objs w)]" "length (objs w1) = Suc (length (objs w))"
    "game_key w1 (length (objs w)) = gd_gameId gd"
    using initGame_inv [OF Cons.prems(1), of "gd_gameId gd" gd] Cons.prems(2,4,5) by auto
  have r: "world_inv w1" "live_ids w1 = live_ids w \<union> {gd_gameId gd}" "uuids w1 = uuids w" "uuid_count w1 = uuid_count w"
    using w1(2) by (simp_all add: remembers_def)
  have "gd_gameId ` set gds \<inter> live_ids w1 = {}" using Cons.prems(3,4) r(2) by auto
  moreover have "list_all (\<lambda>gd. save_ok (gd_gameId gd, gd)) gds" "distinct (map gd_gameId gds)"
    using Cons.prems(2,3) by simp_all
  moreover have "uuids w1 n \<notin> gd_gameId ` set gds" if "uuid_count w1 \<le> n" for n
    using Cons.prems(5) [of n] that r by auto
  ultimately obtain js w2 where w2: "init_games gds w1 = (map Inr js, w2)" "remembers (gd_gameId ` set gds) w1 w2"
    "memGames w2 = memGames w1 @ js" "map (game_key w2) js = map gd_gameId gds"
    using Cons.IH [OF r(1)] by blast
  have "game_key w2 (length (objs w)) = gd_gameId gd"
    using w2(2) w1(4,5) by (simp add: remembers_def)
  moreover have "remembers (gd_gameId ` set (gd # gds)) w w2"
    using remembers_trans [OF w1(2) w2(2)] by simp
  ultimately show ?case using w1(1,3) w2(1,3,4) by simp
qed


subsection \<open>Initialising a session\<close>

lemma normalized_rows:
  assumes "map normalizeGameRow rs = map Inr rows" "\<And>r. r \<in> set rs \<Longrightarrow> row_ok r"
  shows "map (\<lambda>g. gd_gameId (gr_data g)) rows = map row_gameId rs
    \<and> list_all (\<lambda>g. save_ok (gd_gameId (gr_data g), gr_data g)) rows
    \<and> map gr_order rows = map row_order rs \<and> map gr_gameId rows = map row_gameId rs"
  using assms
proof (induction rs arbitrary: rows)
  case Nil
  then show ?case by simp
next
  case (Cons r rs)
  then obtain g gs where rows: "rows = g # gs" "normalizeGameRow r = Inr g" "map normalizeGameRow rs = map Inr gs"
    by (cases rows) auto
  obtain gd where gd: "row_data r = GameText gd" "save_ok (row_gameId r, gd)"
    using Cons.prems(2) [of r] by (auto simp: row_ok_def)
  then have "g = \<lparr>gr_gameId = row_gameId r, gr_sessionId = row_sessionId r, gr_data = gd,
      gr_isCurrent = row_isCurrent r, gr_order = row_order r\<rparr>" "gd_gameId gd = row_gameId r"
    using rows(2) by (simp_all add: normalizeGameRow_def parseJSON_def save_ok_def)
  then show ?case using Cons.IH [OF rows(3)] Cons.prems(2) gd by (simp add: rows(1))
qed

definition session_row_ids :: "int \<Rightarrow> world \<Rightarrow> string set" where
  "session_row_ids sid w = row_gameId ` {r \<in> set (t_game (db w)). row_sessionId r = sid}"

lemma session_row_ids_subset: "session_row_ids sid w \<subseteq> row_ids w"
  by (auto simp: session_row_ids_def row_ids_def)

lemma doGames_inv:
  assumes inv: "world_inv w" and works: "db_works w" and ok: "db_ok (db w)"
    and new: "session_row_ids (sessionId s) w \<inter> live_ids w = {}"
  shows "\<exists>r w'. doGames s w = (Inr r, w') \<and> world_inv w' \<and> db w' = db w \<and> dbfate w' = dbfate w
    \<and> live_ids w' = live_ids w \<union> session_row_ids (sessionId s) w
    \<and> mem_ids w' = mem_ids w \<union> session_row_ids (sessionId s) w
    \<and> uuids w' = uuids w \<and> uuid_count w' = uuid_count w"
proof -
  let ?sid = "sessionId s" and ?w1 = "w\<lparr>dbcount := Suc (dbcount w)\<rparr>"
  let ?rs = "filter (\<lambda>r. row_sessionId r = ?sid) (t_game (db w))"
  obtain rows where rows: "getSessionGames ?sid w = (Inr rows, ?w1)" "map normalizeGameRow ?rs = map Inr rows"
    using getSessionGames_run [OF works, of ?sid] world_readable [OF inv] unfolding rows_readable_def by metis
  have "row_ok r" if "r \<in> set ?rs" for r using that world_invD(5) [OF inv] by simp
  note nr = normalized_rows [OF rows(2) this]
  let ?gds = "map gr_data (sort_key gr_order rows)"
  have ids: "gd_gameId ` set ?gds = session_row_ids ?sid w"
  proof -
    have "gd_gameId ` set ?gds = set (map (\<lambda>g. gd_gameId (gr_data g)) rows)" by (simp add: image_image)
    also have "\<dots> = set (map row_gameId ?rs)" using nr by (simp only:)
    finally show ?thesis by (simp add: session_row_ids_def)
  qed
  have frame: "live_ids ?w1 = live_ids w" "mem_ids ?w1 = mem_ids w"
    by (simp_all add: live_ids_def mem_ids_def game_key_def)
  have "distinct (map (\<lambda>g. gd_gameId (gr_data g)) rows)"
    using nr distinct_session_rows [OF ok] by (simp only:)
  then have dis: "distinct (map gd_gameId ?gds)"
    by (simp only: distinct_map distinct_sort set_sort map_map o_def simp_thms)
  have sv: "list_all (\<lambda>gd. save_ok (gd_gameId gd, gd)) ?gds" using nr by (simp add: list_all_iff)
  have "uuids ?w1 n \<notin> gd_gameId ` set ?gds" if "uuid_count ?w1 \<le> n" for n
    using world_invD(2) [OF inv] that session_row_ids_subset [of ?sid w] unfolding ids by (auto simp: ids_fresh_def)
  from init_games_inv [OF _ sv dis _ this] new inv
  obtain "is" w2 where w2: "init_games ?gds ?w1 = (map Inr is, w2)" "remembers (session_row_ids ?sid w) ?w1 w2"
    unfolding ids frame by auto
  have "aoe2ea (map Inr is) = Inr is" using aoe2ea_map_Inr [of "\<lambda>x. x" "is"] by simp
  then have "initGameRows rows ?w1 = (Inr is, w2)" using w2(1) by (simp add: initGameRows_def)
  then have run: "doGames s w = (Inr (fst (chainGames s is w2)), snd (chainGames s is w2))"
    using rows(1) by (simp add: doGames_def fchain_def case_prod_unfold)
  have inv2: "world_inv w2" using w2(2) by (simp add: remembers_def)
  then have st: "stable (index w2) (snd (chainGames s is w2))"
    by (auto simp: chainGames_def stable_chain_games stable_def split: list.split)
      (metis stable_chain_games stable_def)+
  note ix = index_key [OF st [unfolded stable_def, THEN conjunct2] inv2]
  have dbs: "db (snd (chainGames s is w2)) = db w2" by (simp add: chainGames_def split: list.split)
  show ?thesis
    using run st ix(1,5) w2(2) dbs frame
    by (intro exI [of _ "fst (chainGames s is w2)"] exI [of _ "snd (chainGames s is w2)"] conjI)
       (simp_all add: stable_def index_def remembers_def)
qed


text \<open>
  Whatever happens to its attacks and its voice server, initialising a session brings its games into
  memory.
\<close>

lemma initSession_inv:
  assumes inv: "world_inv w" and works: "db_works w" and ok: "db_ok (db w)"
    and new: "session_row_ids (sessionId s) w \<inter> live_ids w = {}"
  defines "w' \<equiv> snd (initSession s w)"
  shows "world_inv w'" "db_works w'" "db_ok (db w')" "t_game (db w') = t_game (db w)" "t_session (db w') = t_session (db w)"
    "live_ids w' = live_ids w \<union> session_row_ids (sessionId s) w"
    "mem_ids w' = mem_ids w \<union> session_row_ids (sessionId s) w"
    "uuids w' = uuids w" "uuid_count w' = uuid_count w"
proof -
  obtain r w1 where g: "doGames s w = (Inr r, w1)" "world_inv w1" "db w1 = db w" "dbfate w1 = dbfate w"
    "live_ids w1 = live_ids w \<union> session_row_ids (sessionId s) w"
    "mem_ids w1 = mem_ids w \<union> session_row_ids (sessionId s) w" "uuids w1 = uuids w" "uuid_count w1 = uuid_count w"
    using doGames_inv [OF inv works ok new] by blast
  let ?rest = "fmapRej (\<lambda>e. SessionError s (err_message e)) (fchain (\<lambda>_. doMurmur s) (doAttacks s))"
  have w': "w' = snd (?rest w1)"
    using g(1) unfolding w'_def initSession_def by (simp add: fchain_def)
  have "keeps (stable c) ?rest" for c by (intro keeps_intros)
  then have st: "stable (index w1) w'" unfolding w' using g(2) by (auto simp: keeps_def stable_def)
  note ix = index_key [OF st [unfolded stable_def, THEN conjunct2] g(2)]
  show "world_inv w'" "t_game (db w') = t_game (db w)" "t_session (db w') = t_session (db w)"
    "uuids w' = uuids w" "uuid_count w' = uuid_count w"
    using st g by (simp_all add: stable_def index_def)
  show "db_works w'" using ix(3) g(4) works by (simp add: db_works_def)
  show "live_ids w' = live_ids w \<union> session_row_ids (sessionId s) w"
    "mem_ids w' = mem_ids w \<union> session_row_ids (sessionId s) w" using ix(1,5) g(5,6) by simp_all
  show "db_ok (db w')" unfolding w'_def by (rule keepsD [OF keeps_initSession ok])
qed

subsection \<open>Creating a session\<close>

text \<open>Whichever way creating a session ends, the games in memory are the games of the table.\<close>

text \<open>Initialising a session only reads the database.\<close>

lemma keeps_db_reads [keeps_intros]:
  "keeps (\<lambda>w. db w = d) (withDb (select_all t))" "keeps (\<lambda>w. db w = d) (dockerReq m ep q b)"
  by (auto simp: keeps_def withDb_def Let_def select_all_def split: db_fate.split)

lemma keeps_db_scheduleAttack [keeps_intros]: "keeps (\<lambda>w. db w = d) (scheduleAttack a)"
  unfolding scheduleAttack_def getSessions_def
  by (intro keeps_fchain keeps_intros) (auto simp: keeps_def split: sum.split)

lemma keeps_db_initSession: "keeps (\<lambda>w. db w = d) (initSession s)"
proof -
  have rows: "keeps (\<lambda>w. db w = d) (getSessionGames sid)" for sid
    unfolding getSessionGames_def fchain_fmap by (intro keeps_intros) (auto intro: keeps_intros)
  have init: "keeps (\<lambda>w. db w = d) (\<lambda>w. case initGameRows gs w of (r, w1) \<Rightarrow> e2f_err r w1)" for gs
    by (auto simp: keeps_def initGameRows_def case_prod_unfold Let_def)
  have chain: "keeps (\<lambda>w. db w = d) (\<lambda>w. case chainGames s gs w of (r, w1) \<Rightarrow> (Inr r, w1))" for gs
    by (auto simp: keeps_def chainGames_def split: list.split)
  have games: "keeps (\<lambda>w. db w = d) (doGames s)"
    unfolding doGames_def by (intro keeps_fchain rows init chain)
  have mur: "keeps (\<lambda>w. db w = d) (initMurmur m)" for m
    by (auto simp: keeps_def initMurmur_def docker_start_def fchain_def fmap_def case_prod_unfold split: sum.split)
  have get: "keeps (\<lambda>w. db w = d) (getMurmurBySessionId sid)" for sid
    unfolding getMurmurBySessionId_def by (intro keeps_intros) (auto split: list.split intro: keeps_intros)
  show ?thesis unfolding initSession_def doAttacks_def doMurmur_def getAttacks_def
    by (intro keeps_intros games mur get) (auto intro: keeps_intros)
qed

lemma no_session_rows:
  assumes "rows_referenced d" "sid \<notin> sessionId ` set (t_session d)"
  shows "{r \<in> set (t_game d). row_sessionId r = sid} = {}"
  using assms by (auto simp: rows_referenced_def)

lemma createSession_inserted:
  assumes inv: "server_inv w" and s: "s = p\<lparr>sessionId := next_rowid (map sessionId (t_session (db w)))\<rparr>"
    and ins: "insertSession p w = (Inr s, w1)"
  shows "world_inv w1" "db_works w1" "db_ok (db w1)" "t_game (db w1) = t_game (db w)"
    "t_session (db w1) = t_session (db w) @ [s]" "mem_ids w1 = mem_ids w" "live_ids w1 = live_ids w"
    "uuids w1 = uuids w" "uuid_count w1 = uuid_count w" "server_inv w1"
proof -
  have w: "world_inv w" "db_works w" "db_ok (db w)" "rows_referenced (db w)" "mem_ids w = row_ids w"
    using inv by (simp_all add: server_inv_def)
  have w1: "w1 = w\<lparr>dbcount := Suc (dbcount w), db := (db w)\<lparr>t_session := t_session (db w) @ [s]\<rparr>\<rparr>"
    using insertSession_run [OF w(2), of p] ins by (auto simp: Let_def s split: if_splits)
  show "world_inv w1" unfolding w1
    by (rule world_inv_db [OF w(1)]) (use world_invD(5) [OF w(1)] in \<open>auto simp: row_ids_def\<close>)
  moreover show "db_works w1" "t_game (db w1) = t_game (db w)" "t_session (db w1) = t_session (db w) @ [s]"
    "mem_ids w1 = mem_ids w" "live_ids w1 = live_ids w" "uuids w1 = uuids w" "uuid_count w1 = uuid_count w"
    using w(2) by (simp_all add: w1 mem_ids_def live_ids_def game_key_def)
  moreover show "db_ok (db w1)" using keepsD [OF keeps_insertSession w(3), of p] ins by simp
  ultimately show "server_inv w1" using w(4,5) by (auto simp: server_inv_def rows_referenced_def row_ids_def)
qed

lemma session_games_inv:
  assumes inv: "server_inv w" and s: "s \<in> set (t_session (db w))"
    and none: "{r \<in> set (t_game (db w)). row_sessionId r = sessionId s} = {}"
    and run: "createSessionGames s w = (x, w1)"
  shows "x = Inr s" "server_inv (snd (initSession s w1))"
proof -
  have w: "world_inv w" "db_works w" "db_ok (db w)" "rows_referenced (db w)" "mem_ids w = row_ids w"
    using inv by (simp_all add: server_inv_def)
  let ?n = "uuid_count w" and ?v = "w\<lparr>uuid_count := uuid_count w + 4\<rparr>"
  obtain rows where x: "x = Inr s" and add: "adds_rows (sessionId s) rows ?v w1"
    and ids: "map row_gameId rows = map (uuids w) [?n, ?n + 1, ?n + 2, ?n + 3]"
    using createSessionGames_run [OF w(1,2), of s] run by auto
  show "x = Inr s" by (rule x)
  have frame: "live_ids ?v = live_ids w" "mem_ids ?v = mem_ids w" "t_game (db ?v) = t_game (db w)"
    by (simp_all add: live_ids_def mem_ids_def game_key_def)
  have w1: "world_inv w1" "db_works w1" "t_game (db w1) = t_game (db w) @ rows" "live_ids w1 = live_ids w"
    "mem_ids w1 = mem_ids w" "t_session (db w1) = t_session (db w)" "\<forall>r \<in> set rows. row_sessionId r = sessionId s"
    using add by (simp_all add: adds_rows_def frame)
  have ok1: "db_ok (db w1)" using keepsD [OF keeps_createSessionGames w(3), of s] run by simp
  have mine: "session_row_ids (sessionId s) w1 = row_gameId ` set rows"
    using none w1(3,7) by (auto simp: session_row_ids_def)
  have "row_gameId ` set rows = set (map (uuids w) [?n, ?n + 1, ?n + 2, ?n + 3])"
    unfolding ids [symmetric] by simp
  then have "row_gameId ` set rows \<inter> live_ids w = {}"
    using world_invD(2) [OF w(1)] by (auto simp: ids_fresh_def)
  then have "session_row_ids (sessionId s) w1 \<inter> live_ids w1 = {}" unfolding mine w1(4) .
  note i = initSession_inv [OF w1(1,2) ok1 this]
  have "row_ids (snd (initSession s w1)) = row_ids w \<union> row_gameId ` set rows"
    using i(4) w1(3) by (auto simp: row_ids_def)
  moreover have "rows_referenced (db (snd (initSession s w1)))"
    using w(4) s i(4,5) w1(3,6,7) by (auto simp: rows_referenced_def)
  ultimately show "server_inv (snd (initSession s w1))"
    using i(1,2,3,7) w1(5) w(5) mine by (simp add: server_inv_def)
qed

lemma fchain_reject_snd: "snd (fchain (\<lambda>_. reject e) m w) = snd (m w)"
  by (simp add: fchain_def split: prod.split sum.split)

lemma createSession_inv:
  assumes inv: "server_inv w"
  shows "server_inv (snd (createSession p w))"
proof -
  let ?m = "fchain initSession (fchain createSessionGames (fchain createSessionMurmur (insertSession p)))"
  let ?s = "p\<lparr>sessionId := next_rowid (map sessionId (t_session (db w)))\<rparr>"
  have w: "world_inv w" "db_works w" "db_ok (db w)" "rows_referenced (db w)" "mem_ids w = row_ids w"
    using inv by (simp_all add: server_inv_def)
  have fresh: "sessionId ?s \<notin> sessionId ` set (t_session (db w))"
    using next_rowid_fresh [of "map sessionId (t_session (db w))"] by simp
  have m: "server_inv (snd (?m w))"
  proof (cases "insertSession p w")
    case (Pair r w1)
    show ?thesis
    proof (cases r)
      case (Inl e)
      have "w1 = w\<lparr>dbcount := Suc (dbcount w)\<rparr>"
        using Pair Inl insertSession_run [OF w(2), of p] by (auto simp: Let_def split: if_splits)
      moreover have "server_inv (w\<lparr>dbcount := Suc (dbcount w)\<rparr>)"
        by (rule server_inv_stable [OF inv]) (use w in \<open>simp_all add: stable_def index_def\<close>)
      ultimately show ?thesis using Pair Inl by (simp add: fchain_def)
    next
      case (Inr s)
      then have s: "s = ?s" "insertSession p w = (Inr ?s, w1)"
        using Pair insertSession_run [OF w(2), of p] by (auto simp: Let_def split: if_splits)
      note w1 = createSession_inserted [OF inv refl s(2)]
      obtain r2 w2 where mur: "createSessionMurmur ?s w1 = (r2, w2)" by fastforce
      have inv2: "server_inv w2"
        using keeps_server_stable [OF keeps_stable_sessions(6) keeps_createSessionMurmur w1(10), of ?s] mur by simp
      have "stable (index w1) w2" using keepsD [OF keeps_stable_sessions(6), of _ w1 ?s] w1(1) mur
        by (auto simp: stable_def)
      then have d2: "t_game (db w2) = t_game (db w)" "?s \<in> set (t_session (db w2))"
        using w1(4,5) by (simp_all add: stable_def index_def)
      show ?thesis
      proof (cases r2)
        case (Inl e)
        then show ?thesis using s mur inv2 by (simp add: fchain_def)
      next
        case (Inr s2)
        have s2: "s2 = ?s" using mur Inr
          by (auto simp: createSessionMurmur_def fmapRej_def fmap_def split: prod.splits sum.splits)
        obtain x w3 where games: "createSessionGames ?s w2 = (x, w3)" by fastforce
        have "{r \<in> set (t_game (db w2)). row_sessionId r = sessionId ?s} = {}"
          using no_session_rows [OF w(4) fresh] d2(1) by simp
        from session_games_inv [OF inv2 d2(2) this games]
        show ?thesis using s mur Inr s2 games by (simp add: fchain_def)
      qed
    qed
  qed
  obtain r w' where run: "?m w = (r, w')" by fastforce
  have rm: "server_inv (snd (fchain (\<lambda>_. reject e) (removeSession sid) w'))" for e :: err and sid
    using removeSession_inv [of w' sid] m run by (simp add: fchain_reject_snd)
  show ?thesis
    using m run rm by (auto simp: createSession_def fchainRej_def split: sum.split err.split)
qed

text \<open>The session's row and its voice server are there: what the rest of \<open>createSession\<close> starts from.\<close>

lemma createSession_prepared:
  assumes inv: "server_inv w" and run: "fchain createSessionMurmur (insertSession p) w = (Inr s, w2)"
  defines "s0 \<equiv> p\<lparr>sessionId := next_rowid (map sessionId (t_session (db w)))\<rparr>"
  shows "s = s0" "server_inv w2" "t_session (db w2) = t_session (db w) @ [s0]" "t_game (db w2) = t_game (db w)"
    "t_attack (db w2) = t_attack (db w)" "uuids w2 = uuids w" "uuid_count w2 = uuid_count w"
    "\<exists>ms. t_murmur (db w2) = t_murmur (db w) @ ms \<and> (\<forall>m \<in> set ms. mur_sessionId m = sessionId s0)"
proof -
  have works: "db_works w" using inv by (simp add: server_inv_def)
  obtain s1 w1 where ins: "insertSession p w = (Inr s1, w1)" and mur: "createSessionMurmur s1 w1 = (Inr s, w2)"
    using run by (auto simp: fchain_def split: prod.splits sum.splits)
  have s1: "s1 = s0" and d1: "db w1 = (db w)\<lparr>t_session := t_session (db w) @ [s0]\<rparr>"
    using ins insertSession_run [OF works, of p] by (auto simp: s0_def Let_def split: if_splits)
  note w1 = createSession_inserted [OF inv s0_def [THEN meta_eq_to_obj_eq] ins [unfolded s1]]
  show "s = s0" using mur s1
    by (auto simp: createSessionMurmur_def fmapRej_def fmap_def split: prod.splits sum.splits)
  have w2: "w2 = snd (createSessionMurmur s1 w1)" using mur by simp
  show "server_inv w2" unfolding w2
    by (rule keeps_server_stable [OF keeps_stable_sessions(6) keeps_createSessionMurmur w1(10)])
  have "stable (index w1) w2" unfolding w2
    by (rule keepsD [OF keeps_stable_sessions(6)]) (simp add: stable_def w1(1))
  then show "t_session (db w2) = t_session (db w) @ [s0]" "t_game (db w2) = t_game (db w)"
    "uuids w2 = uuids w" "uuid_count w2 = uuid_count w"
    using w1(4,5,8,9) by (simp_all add: stable_def index_def)
  have "w2 = snd (createMurmur (grpcPort s1) (murmurPort s1) (sessionId s1) w1)"
    unfolding w2 by (auto simp: createSessionMurmur_def fmapRej_snd fmap_snd)
  then obtain m where m: "mur_sessionId m = sessionId s0"
    "db w2 = db w1 \<or> db w2 = (db w1)\<lparr>t_murmur := t_murmur (db w1) @ [m]\<rparr>"
    using createMurmur_db(2) [OF w1(2), where a = "grpcPort s1" and b = "murmurPort s1" and sid = "sessionId s1"] s1
    by auto
  then show "t_attack (db w2) = t_attack (db w)" using d1 by auto
  show "\<exists>ms. t_murmur (db w2) = t_murmur (db w) @ ms \<and> (\<forall>m \<in> set ms. mur_sessionId m = sessionId s0)"
    using m d1 by (elim disjE) (intro exI [of _ "[]"], simp, intro exI [of _ "[m]"], simp)
qed

text \<open>A creation that is undone leaves no trace of the new session.\<close>

lemma without_created_session:
  assumes "unreferenced i d" "\<forall>x \<in> set (t_session d). sessionId x \<noteq> i" "sessionId s = i"
    and "t_session d' = t_session d @ [s]" "t_game d' = t_game d @ rows" "\<forall>r \<in> set rows. row_sessionId r = i"
    and "t_murmur d' = t_murmur d @ ms" "\<forall>m \<in> set ms. mur_sessionId m = i"
    and "filter (\<lambda>a. att_sessionId a \<noteq> i) (t_attack d') = filter (\<lambda>a. att_sessionId a \<noteq> i) (t_attack d)"
  shows "without_session i True d' = d"
proof -
  have "filter (\<lambda>a. att_sessionId a \<noteq> i) (t_attack d) = t_attack d"
    using assms(1) by (simp add: unreferenced_def filter_id_conv)
  then show ?thesis using assms
    by (auto simp: without_session_def unreferenced_def filter_empty_conv intro!: db.equality filter_True)
qed

lemma server_inv_getGame:
  assumes "server_inv w"
  shows "(\<exists>i. getGame gid w = Inr i) \<longleftrightarrow> gid \<in> row_ids w"
  using assms by (simp add: getGame_cases in_memory_ids server_inv_def)

text \<open>
  All or nothing: what \<open>createSession\<close> has written when it succeeds, and that it has written nothing
  when it fails.
\<close>

definition session_created :: "session \<Rightarrow> world \<Rightarrow> world \<Rightarrow> bool" where
  "session_created s w w' \<longleftrightarrow>
     t_session (db w') = t_session (db w) @ [s]
     \<and> (\<exists>rows. t_game (db w') = t_game (db w) @ rows \<and> map row_order rows = [0, 1, 2, 3]
          \<and> map row_isCurrent rows = [True, False, False, False]
          \<and> (\<forall>r \<in> set rows. row_sessionId r = sessionId s \<and> (\<exists>i. getGame (row_gameId r) w' = Inr i)))"

lemma createSession_outcome:
  assumes inv: "server_inv w"
    and unref: "unreferenced (next_rowid (map sessionId (t_session (db w)))) (db w)"
    and run: "createSession p w = (r, w')"
  shows "case r of Inl _ \<Rightarrow> db w' = db w
    | Inr s \<Rightarrow> s = p\<lparr>sessionId := next_rowid (map sessionId (t_session (db w)))\<rparr> \<and> session_created s w w'"
proof -
  let ?s = "p\<lparr>sessionId := next_rowid (map sessionId (t_session (db w)))\<rparr>"
  have w: "world_inv w" "db_works w" "db_ok (db w)" "rows_referenced (db w)"
    using inv by (simp_all add: server_inv_def)
  obtain x w2 where prep: "fchain createSessionMurmur (insertSession p) w = (x, w2)" by fastforce
  show ?thesis
  proof (cases x)
    case (Inl e)
    then show ?thesis
      using createSession_rolls_back [OF w(2,3) world_readable [OF w(1)] unref prep [unfolded Inl]] run by simp
  next
    case (Inr s2)
    note pr = createSession_prepared [OF inv prep [unfolded Inr]]
    have fresh: "\<forall>x \<in> set (t_session (db w)). sessionId x \<noteq> sessionId ?s"
      using next_rowid_fresh [of "map sessionId (t_session (db w))"] by force
    have w2: "world_inv w2" "db_works w2" using pr(2) by (simp_all add: server_inv_def)
    obtain rows w3 where games: "createSessionGames ?s w2 = (Inr ?s, w3)"
      and add: "adds_rows (sessionId ?s) rows (w2\<lparr>uuid_count := uuid_count w2 + 4\<rparr>) w3"
      and rows: "map row_order rows = [0, 1, 2, 3]" "map row_isCurrent rows = [True, False, False, False]"
      using createSessionGames_run [OF w2, of ?s] by (elim exE conjE) (rule that)
    obtain y w4 where init: "initSession ?s w3 = (y, w4)" by fastforce
    have "{r \<in> set (t_game (db w2)). row_sessionId r = sessionId ?s} = {}"
      using no_session_rows [OF w(4)] next_rowid_fresh [of "map sessionId (t_session (db w))"] pr(4) by simp
    from session_games_inv(2) [OF pr(2) _ this games] have inv4: "server_inv w4"
      using pr(3) init by simp
    have d4: "db w4 = db w3" using keepsD [OF keeps_db_initSession [of "db w3" ?s], of w3] init by simp
    have mine: "t_game (db w4) = t_game (db w) @ rows" "\<forall>r \<in> set rows. row_sessionId r = sessionId ?s"
      "t_session (db w4) = t_session (db w) @ [?s]"
      using add pr(3,4) by (simp_all add: adds_rows_def d4)
    have eq: "createSession p w = (case y of
         Inl (SessionError s' m) \<Rightarrow> fchain (\<lambda>_. reject (SessionError s' m)) (removeSession (sessionId s')) w4
       | _ \<Rightarrow> (y, w4))"
      using prep Inr pr(1) games init
      by (auto simp: createSession_def fchainRej_def fchain_def split: sum.split err.split)
    show ?thesis
    proof (cases y)
      case (Inl e)
      then obtain m where e: "e = SessionError ?s m"
        using init by (auto simp: initSession_def fmapRej_def fmap_def split: prod.splits sum.splits)
      have inv4': "db_works w4" "db_ok (db w4)" "rows_readable (db w4)"
        using inv4 world_readable by (auto simp: server_inv_def)
      have s4: "?s \<in> set (t_session (db w4))" using mine(3) by simp
      have mem4: "games_in_memory (sessionId ?s) w4"
        using inv4 by (auto simp: games_in_memory_def in_memory_ids server_inv_def row_ids_def)
      obtain ms where ms: "t_murmur (db w2) = t_murmur (db w) @ ms" "\<forall>m \<in> set ms. mur_sessionId m = sessionId ?s"
        using pr(8) by blast
      have gone: "without_session (sessionId ?s) True (db w4) = db w"
        by (rule without_created_session [where rows = rows and ms = ms and s = ?s])
           (use unref fresh mine ms add pr(5) in \<open>simp_all add: adds_rows_def d4\<close>)
      note rm = removeSession_run [OF inv4' s4]
      show ?thesis using run Inl e rm gone mem4 by (auto simp: eq fchain_def split: prod.splits)
    next
      case (Inr s')
      then have "s' = ?s"
        using init by (auto simp: initSession_def fmapRej_def fmap_def split: prod.splits sum.splits)
      moreover have "\<exists>i. getGame (row_gameId r) w4 = Inr i" if "r \<in> set rows" for r
        using server_inv_getGame [OF inv4] that mine(1) by (simp add: row_ids_def)
      then have "session_created ?s w w4"
        unfolding session_created_def using mine rows by (intro conjI exI [of _ rows] ballI) simp_all
      ultimately show ?thesis using run Inr by (auto simp: eq)
    qed
  qed
qed

subsection \<open>Start-up\<close>

text \<open>A process that starts: no game objects, no timers, and a database that holds what it saved.\<close>

definition booting :: "world \<Rightarrow> bool" where
  "booting w \<longleftrightarrow>
     objs w = [] \<and> memGames w = [] \<and> idle_env (genv w) \<and> out (genv w) = [] \<and> db_works w \<and> db_ok (db w)
     \<and> rows_referenced (db w) \<and> (\<forall>r \<in> set (t_game (db w)). row_ok r)
     \<and> inj (uuids w) \<and> (\<forall>n \<ge> uuid_count w. uuids w n \<notin> row_ids w)"

lemma booting_inv:
  assumes "booting w"
  shows "world_inv w" "live_ids w = {}" "mem_ids w = {}"
proof -
  show ids: "live_ids w = {}" "mem_ids w = {}" using assms by (auto simp: booting_def live_ids_def live_def mem_ids_def)
  show "world_inv w"
    using assms ids
    by (auto simp: booting_def world_inv_def games_inv_def timers_owned_def idle_env_def ids_fresh_def saves_def live_def)
qed

lemma session_rows_disjoint:
  assumes "db_ok (db w)" "sid \<noteq> sid'"
  shows "session_row_ids sid w \<inter> session_row_ids sid' w = {}"
  using db_ok_t_game(1) [OF assms(1)] assms(2)
  by (auto simp: session_row_ids_def distinct_map inj_on_def)

lemma init_sessions_inv:
  assumes "world_inv w" "db_works w" "db_ok (db w)" "distinct (map sessionId ss)"
    and "\<And>s. s \<in> set ss \<Longrightarrow> session_row_ids (sessionId s) w \<inter> live_ids w = {}"
  shows "\<exists>rs w'. parallel1 (map (\<lambda>s. fcoalesce (initSession s)) ss) w = ((Inr rs, w') :: (err + _) \<times> _)
    \<and> length rs = length ss \<and> world_inv w' \<and> db_works w' \<and> db_ok (db w') \<and> t_game (db w') = t_game (db w) \<and> t_session (db w') = t_session (db w)
    \<and> mem_ids w' = mem_ids w \<union> (\<Union>s \<in> set ss. session_row_ids (sessionId s) w)"
  using assms
proof (induction ss arbitrary: w)
  case Nil
  then show ?case by simp
next
  case (Cons s ss)
  obtain r w1 where run: "initSession s w = (r, w1)" by fastforce
  have "session_row_ids (sessionId s) w \<inter> live_ids w = {}" using Cons.prems(5) by simp
  note i = initSession_inv [OF Cons.prems(1,2,3) this, unfolded run snd_conv]
  have rows: "session_row_ids sid w1 = session_row_ids sid w" for sid using i(4) by (simp add: session_row_ids_def)
  have "session_row_ids (sessionId s') w1 \<inter> live_ids w1 = {}" if "s' \<in> set ss" for s'
  proof -
    have "sessionId s' \<noteq> sessionId s" using Cons.prems(4) that by (force simp: image_iff)
    from session_rows_disjoint [OF Cons.prems(3) this] show ?thesis
      using Cons.prems(5) [of s'] that unfolding rows i(6) by auto
  qed
  moreover have "distinct (map sessionId ss)" using Cons.prems(4) by simp
  ultimately obtain rs w2 where IH: "parallel1 (map (\<lambda>s. fcoalesce (initSession s)) ss) w1 = ((Inr rs, w2) :: (err + _) \<times> _)"
    "length rs = length ss" "world_inv w2" "db_works w2" "db_ok (db w2)" "t_game (db w2) = t_game (db w1)" "t_session (db w2) = t_session (db w1)"
    "mem_ids w2 = mem_ids w1 \<union> (\<Union>s \<in> set ss. session_row_ids (sessionId s) w1)"
    using Cons.IH [OF i(1,2,3)] by blast
  have "parallel1 (map (\<lambda>s. fcoalesce (initSession s)) (s # ss)) w = ((Inr (r # rs), w2) :: (err + _) \<times> _)"
    using IH(1) run by (simp add: fcoalesce_def)
  moreover have "mem_ids w2 = mem_ids w \<union> (\<Union>s \<in> set (s # ss). session_row_ids (sessionId s) w)"
    using IH(8) i(7) rows by auto
  ultimately show ?case using IH(2-7) i(4,5) by simp
qed

text \<open>Once the server listens, the games in memory are the games of the table.\<close>

lemma main_listens_inv:
  assumes boot: "booting w"
  shows "fst (main_listens w)" "server_inv (snd (main_listens w))"
    "t_game (db (snd (main_listens w))) = t_game (db w)"
proof -
  note b = booting_inv [OF boot]
  have w: "db_works w" "db_ok (db w)" "rows_referenced (db w)" using boot by (simp_all add: booting_def)
  let ?w1 = "w\<lparr>dbcount := Suc (dbcount w)\<rparr>"
  have frame: "live_ids ?w1 = {}" "mem_ids ?w1 = {}" "session_row_ids sid ?w1 = session_row_ids sid w" for sid
    using b(2,3) by (simp_all add: live_ids_def mem_ids_def game_key_def session_row_ids_def)
  have dis: "distinct (map sessionId (t_session (db w)))" using db_ok_t_game(2) [OF w(2)] .
  obtain rs w' where run: "parallel1 (map (\<lambda>s. fcoalesce (initSession s)) (t_session (db w))) ?w1 = ((Inr rs, w') :: (err + _) \<times> _)"
    and inv: "world_inv w'" "db_works w'" "db_ok (db w')" "t_game (db w') = t_game (db w)" "t_session (db w') = t_session (db w)"
    and mem: "mem_ids w' = (\<Union>s \<in> set (t_session (db w)). session_row_ids (sessionId s) w)"
    using init_sessions_inv [of ?w1 "t_session (db w)"] b(1) w(1,2) dis by (auto simp: frame)
  have "initSessions w = (Inr rs, w')"
    using run w(1) by (simp add: initSessions_def getSessions_def fchain_def select_run)
  then have "main_listens w = (True, w')" by (simp add: main_listens_def)
  moreover have "mem_ids w' = row_ids w'"
    using w(3) inv(4) by (fastforce simp: mem row_ids_def session_row_ids_def rows_referenced_def)
  ultimately show "fst (main_listens w)" "server_inv (snd (main_listens w))"
    "t_game (db (snd (main_listens w))) = t_game (db w)"
    using inv w(3) by (simp_all add: server_inv_def rows_referenced_def)
qed

lemma main_listens_db: "db (snd (main_listens w)) = db w"
proof -
  have "keeps (\<lambda>v. db v = db w) initSessions"
    unfolding initSessions_def getSessions_def
    by (intro keeps_intros) (auto intro: keeps_intros keeps_db_initSession)
  from keepsD [OF this, of w] show ?thesis by (auto simp: main_listens_def split: prod.splits sum.splits)
qed

end
