(* ===== verification/ServerProps.thy ===== *)
theory ServerProps
  imports Creation
begin

text \<open>
  The invariant of the server under everything it handles: connections and messages of players and
  administrators, effects of games on the database, the passing of time and timers. Every state it can
  reach after start-up satisfies it.
\<close>

subsection \<open>Each kind of step\<close>

lemma server_invD:
  assumes "server_inv w"
  shows "world_inv w" "games_inv (objs w) (memGames w) (genv w)" "db_works w" "db_ok (db w)"
    "rows_referenced (db w)" "mem_ids w = row_ids w"
  using assms by (simp_all add: server_inv_def world_inv_def)

lemma server_inv_same_games:
  assumes "server_inv w" "world_inv w'" "same_games w w'"
  shows "server_inv w'"
  using assms by (simp add: server_inv_def same_games_def mem_ids_def row_ids_def db_works_def)

lemma getGame_live:
  assumes "world_inv w" "getGame gid w = Inr i"
  shows "i \<in> live (objs w) (memGames w)" "i < length (objs w)" "i \<in> set (memGames w)"
proof -
  show i: "i \<in> set (memGames w)" using getGame_key [OF assms(2)] by simp
  then show "i < length (objs w)" using games_inv_parts(3) [OF world_invD(1) [OF assms(1)]] by simp
  then show "i \<in> live (objs w) (memGames w)" using i by (simp add: live_def)
qed

lemma with_game_inv:
  assumes "server_inv (sw s)" "game_op f" "\<And>m t. sw (bad m t) = sw t"
  shows "server_inv (sw (with_game sk f bad s))"
proof -
  have "server_inv (snd (on_object i f (sw s)))" if "getGame gid (sw s) = Inr i" for gid i
    using assms(1) server_inv_same_games [OF assms(1)] that
      on_object_inv(1,2) [OF _ getGame_live(1) assms(2)] by (auto simp: server_inv_def)
  then show ?thesis using assms(1,3) by (auto simp: with_game_def split: option.split sum.split)
qed

lemma keeps_stable_connect [keeps_intros]:
  "keeps (stable c) (getPlayerSession pid)" "keeps (stable c) (getSessionGames sid)"
  "keeps (stable c) (getCurrentGame sid)" "keeps (stable c) (getRecordings m)"
proof -
  show "keeps (stable c) (getPlayerSession pid)"
    unfolding getPlayerSession_def by (intro keeps_intros) (auto split: option.split intro: keeps_intros)
  show games: "keeps (stable c) (getSessionGames sid)"
    unfolding getSessionGames_def fchain_fmap by (intro keeps_intros) (auto intro: keeps_intros)
  show "keeps (stable c) (getCurrentGame sid)"
    unfolding getCurrentGame_def by (intro keeps_fchain keeps_intros games) (simp add: keeps_def)
  have "keeps (stable c) (readdirP d)" for d by (simp add: keeps_def readdirP_def)
  then show "keeps (stable c) (getRecordings m)" unfolding getRecordings_def by (intro keeps_intros)
qed

lemma server_inv_listen: "server_inv w \<Longrightarrow> leaf l \<Longrightarrow> ev \<noteq> EvPlayerReady \<Longrightarrow> server_inv (listen i ev l w)"
  using server_inv_same_games [OF _ listen_inv listen_same] by (simp add: server_inv_def)

lemma fork_fut_inv:
  assumes "server_inv (snd (m (sw s)))"
    and "\<And>e t. server_inv (sw t) \<Longrightarrow> server_inv (sw (rej e t))"
    and "\<And>a t. server_inv (sw t) \<Longrightarrow> server_inv (sw (res a t))"
  shows "server_inv (sw (fork_fut m rej res s))"
proof -
  obtain r w where "m (sw s) = (r, w)" by fastforce
  then show ?thesis using assms by (cases r) (simp_all add: fork_fut_def)
qed

lemma onConnect_inv: "server_inv (sw s) \<Longrightarrow> server_inv (sw (onConnect sk query s))"
proof -
  have player: "server_inv (sw (onPlayerConnect sk pid t))" if "server_inv (sw t)" for pid t
    unfolding onPlayerConnect_def
  proof (rule fork_fut_inv)
    show "server_inv (snd (fchain (\<lambda>session. getCurrentGame (sessionId session)) (getPlayerSession pid) (sw t)))"
      using that by (rule keeps_server_stable [rotated 2]) (intro keeps_intros)+
  qed (simp_all add: Let_def server_inv_listen)
  then show "server_inv (sw s) \<Longrightarrow> ?thesis" by (auto simp: onConnect_def split: sum.split)
qed

lemma server_inv_listen_all: "server_inv w \<Longrightarrow> server_inv (listen_all is sk w)"
  by (induction "is" arbitrary: w) (simp_all add: server_inv_listen)

lemma run_effect_server_inv:
  assumes inv: "server_inv w" and save: "\<And>gid gd. x = SaveGame gid gd \<Longrightarrow> save_ok (gid, gd)"
  shows "server_inv (run_effect x w)"
proof -
  have works: "db_works w" using inv by (simp add: server_inv_def)
  have sel: "row_gameId (if b then r else r') = (if b then row_gameId r else row_gameId r')"
    "row_sessionId (if b then r else r') = (if b then row_sessionId r else row_sessionId r')" for b r r'
    by simp_all
  have "set (map row_gameId (t_game (db (run_effect x w)))) = set (map row_gameId (t_game (db w)))
    \<and> set (map row_sessionId (t_game (db (run_effect x w)))) = set (map row_sessionId (t_game (db w)))
    \<and> t_session (db (run_effect x w)) = t_session (db w)"
  proof (cases x)
    case (SaveGame gid gd)
    show ?thesis unfolding SaveGame run_effect.simps save_row_def
      by (simp add: withDb_works [OF works] update_game_stmt_def image_image sel cong: if_cong)
  next
    case (SetCurrentGame sid gid)
    show ?thesis unfolding SetCurrentGame run_effect.simps setCurrentGame_def
      by (simp add: withDb_works [OF works] set_current_stmt_def image_image sel cong: if_cong)
  qed simp_all
  then have rows: "row_gameId ` set (t_game (db (run_effect x w))) = row_gameId ` set (t_game (db w))"
    "row_sessionId ` set (t_game (db (run_effect x w))) = row_sessionId ` set (t_game (db w))"
    "t_session (db (run_effect x w)) = t_session (db w)" by simp_all
  have refd: "rows_referenced d \<longleftrightarrow> row_sessionId ` set (t_game d) \<subseteq> sessionId ` set (t_session d)" for d
    by (auto simp: rows_referenced_def)
  have "row_ids (run_effect x w) = row_ids w" "rows_referenced (db (run_effect x w)) = rows_referenced (db w)"
    by (simp_all only: row_ids_def refd rows)
  moreover have "db_works (run_effect x w)" using run_effect_works [OF works] .
  moreover have "mem_ids (run_effect x w) = mem_ids w"
    by (simp add: mem_ids_def run_effect_frame game_key_def)
  ultimately show ?thesis
    using inv run_effect_keeps [OF _ save] run_effect_ok by (simp add: server_inv_def)
qed

lemma server_step_inv: "server_step s s' \<Longrightarrow> server_inv (sw s) \<Longrightarrow> server_inv (sw s')"
proof (induction rule: server_step.induct)
  case (connect s sk query)
  then show ?case by (rule onConnect_inv)
next
  case (answer_msg s sk a)
  then show ?case unfolding onAnswer_msg_def by (intro with_game_inv game_op_answer) simp_all
next
  case (ready_msg s sk b)
  then show ?case
    by (auto simp: onPlayerReady_msg_def split: option.split intro!: with_game_inv game_op_playerReady)
next
  case (disconnect s sk)
  then show ?case
    by (auto simp: onDisconnect_msg_def split: option.split sum.split intro!: with_game_inv game_op_playerReady)
next
  case (admin_conn s sk)
  then show ?case by (simp add: admin_connect_def Let_def server_inv_listen_all)
next
  case (create s sk p)
  have "e2f_err (validateCreateSessionParams (session_params p)) (sw s) = (Inr (session_params p), sw s)"
    by (simp add: validateCreateSessionParams_def validateCheckUndefined_def session_params_def)
  then have "snd (fchain (\<lambda>_. createSession p) (e2f_err (validateCreateSessionParams (session_params p))) (sw s))
      = snd (createSession p (sw s))" by (simp add: fchain_def)
  then show ?case unfolding admin_create_session_def
    using createSession_inv [OF create] by (intro fork_fut_inv) simp_all
next
  case (recordings s sk sid)
  have "server_inv (snd (fchain getRecordings (getMurmurBySessionId sid) (sw s)))"
    using recordings by (rule keeps_server_stable [rotated 2]) (intro keeps_intros)+
  then show ?case unfolding admin_get_recordings_def by (intro fork_fut_inv) simp_all
next
  case (sessions s sk)
  have "server_inv (snd (getSessions (sw s)))"
    using sessions by (rule keeps_server_stable [rotated 2]) (intro keeps_intros)+
  then show ?case unfolding admin_get_sessions_def by (intro fork_fut_inv) simp_all
next
  case (remove s sk sid)
  then show ?case unfolding admin_remove_session_def
    using removeSession_inv [OF remove] by (intro fork_fut_inv) simp_all
next
  case (effect x s)
  then show ?case using started_save_ok server_invD(1) by (auto intro!: run_effect_server_inv)
next
  case (time d s)
  then show ?case using server_inv_same_games [OF time(2) pass_time_inv pass_time_same]
    by (simp add: server_inv_def)
next
  case (timer t due act s)
  then show ?case using server_inv_same_games [OF timer(3) run_timer_inv(1,2)]
    by (simp add: server_inv_def)
qed

lemma server_steps_inv: "server_step\<^sup>*\<^sup>* s s' \<Longrightarrow> server_inv (sw s) \<Longrightarrow> server_inv (sw s')"
  by (induction rule: rtranclp_induct) (auto intro: server_step_inv)

text \<open>The states of a server since it started to listen.\<close>

definition server_reaches :: "world \<Rightarrow> server \<Rightarrow> bool" where
  "server_reaches w s \<longleftrightarrow>
     booting w \<and> (\<exists>s0. sw s0 = snd (main_listens w) \<and> server_step\<^sup>*\<^sup>* s0 s)"

lemma server_reaches_start: "booting w \<Longrightarrow> sw s = snd (main_listens w) \<Longrightarrow> server_reaches w s"
  unfolding server_reaches_def by blast

lemma server_reaches_inv: "server_reaches w s \<Longrightarrow> server_inv (sw s)"
  unfolding server_reaches_def using main_listens_inv(2) server_steps_inv by metis

subsection \<open>A message to one game among others\<close>

text \<open>
  On a live object a method does what it does on the view of that object alone, and the other
  objects, with the timers they own, are as before.
\<close>

lemma on_object_alone:
  assumes inv: "world_inv w" and i: "i \<in> live (objs w) (memGames w)" and f: "game_op f"
    and v: "f (viewed (objs w ! i, genv w)) = mapR (\<lambda>(r, s'). (r, viewed s')) (f (objs w ! i, genv w))"
  defines "w' \<equiv> snd (on_object i f w)"
  shows "\<exists>r. f (objs w ! i, view i (genv w)) = Inr (r, (objs w' ! i, view i (genv w')))"
    and "\<forall>j < length (objs w). j \<noteq> i \<longrightarrow>
      objs w' ! j = objs w ! j \<and> pending (view j (genv w')) = pending (view j (genv w))"
proof -
  note gi = world_invD(1) [OF inv]
  have len: "i < length (objs w)" using i by (simp add: live_def)
  obtain r g' e' where run: "f (objs w ! i, genv w) = Inr (r, (g', e'))"
    and g: "games_inv ((objs w)[i := g']) (memGames w) e'"
    using f gi i inv unfolding game_op_def world_inv_def by meson
  have w': "objs w' = (objs w)[i := g']" "genv w' = e'"
    using run by (simp_all add: w'_def on_object_def)
  have oid: "oid (objs w ! i) = i" "oid g' = i"
    using games_invD(1) [OF gi len] games_invD(1) [OF g, of i] len by simp_all
  show "\<exists>r. f (objs w ! i, view i (genv w)) = Inr (r, (objs w' ! i, view i (genv w')))"
    using v run len w' oid by (simp add: viewed_pair)
  show "\<forall>j < length (objs w). j \<noteq> i \<longrightarrow>
      objs w' ! j = objs w ! j \<and> pending (view j (genv w')) = pending (view j (genv w))"
    using on_object_inv(4) [OF inv i f] by (simp add: w'_def)
qed

text \<open>Nothing but one game and its timers has been touched, and these as the method does it on the game alone.\<close>

definition only_game :: "nat \<Rightarrow> (gst \<Rightarrow> exn + 'r \<times> gst) \<Rightarrow> server \<Rightarrow> server \<Rightarrow> bool" where
  "only_game i f s s' \<longleftrightarrow>
     (\<exists>r. f (objs (sw s) ! i, view i (genv (sw s))) = Inr (r, (objs (sw s') ! i, view i (genv (sw s')))))
     \<and> (\<forall>j < length (objs (sw s)). j \<noteq> i \<longrightarrow>
          objs (sw s') ! j = objs (sw s) ! j \<and> pending (view j (genv (sw s'))) = pending (view j (genv (sw s))))
     \<and> length (objs (sw s')) = length (objs (sw s)) \<and> memGames (sw s') = memGames (sw s) \<and> db (sw s') = db (sw s)
     \<and> socks s' = socks s"

lemma with_game_alone:
  assumes "server_inv (sw s)" "sd_gameId (socks s sk) = Some gid" "getGame gid (sw s) = Inr i" "game_op f"
    and "game_inv (objs (sw s) ! i, view i (genv (sw s))) \<Longrightarrow> f (viewed (objs (sw s) ! i, genv (sw s))) =
      mapR (\<lambda>(r, s'). (r, viewed s')) (f (objs (sw s) ! i, genv (sw s)))"
  shows "only_game i f s (with_game sk f bad s) \<and> sent (with_game sk f bad s) = sent s"
proof -
  note inv = server_invD [OF assms(1)]
  note live = getGame_live [OF inv(1) assms(3)]
  note v = assms(5) [OF games_invD(2) [OF inv(2) live(2)]]
  have run: "with_game sk f bad s = s\<lparr>sw := snd (on_object i f (sw s))\<rparr>"
    using assms(2,3) by (simp add: with_game_def)
  have "same_games (sw s) (snd (on_object i f (sw s)))" by (rule on_object_inv(2) [OF inv(1) live(1) assms(4)])
  then show ?thesis
    using on_object_alone [OF inv(1) live(1) assms(4) v] unfolding run only_game_def by (simp add: same_games_def)
qed

subsection \<open>The current game of a session\<close>

lemma find_normalized:
  assumes "map normalizeGameRow rs = map Inr rows"
  shows "List.find gr_isCurrent rows = None \<longleftrightarrow> List.find row_isCurrent rs = None"
    and "List.find row_isCurrent rs = Some r \<Longrightarrow>
      \<exists>g. List.find gr_isCurrent rows = Some g \<and> gr_gameId g = row_gameId r"
  using assms
  by (induction rs arbitrary: rows) (auto simp: normalizeGameRow_def parseJSON_def mapR_def split: sum.splits)

lemma getCurrentGame_run:
  assumes inv: "server_inv w"
  shows "getCurrentGame sid w =
    (case List.find row_isCurrent (filter (\<lambda>r. row_sessionId r = sid) (t_game (db w))) of
       None \<Rightarrow> (Inl (PlainError ''Cannot find element''), w\<lparr>dbcount := Suc (dbcount w)\<rparr>)
     | Some r \<Rightarrow> (map_sum PlainError id (getGame (row_gameId r) w), w\<lparr>dbcount := Suc (dbcount w)\<rparr>))"
proof -
  note i = server_invD [OF inv]
  let ?rs = "filter (\<lambda>r. row_sessionId r = sid) (t_game (db w))" and ?w1 = "w\<lparr>dbcount := Suc (dbcount w)\<rparr>"
  obtain rows where rows: "getSessionGames sid w = (Inr rows, ?w1)" "map normalizeGameRow ?rs = map Inr rows"
    using getSessionGames_run [OF i(3)] world_readable [OF i(1)] unfolding rows_readable_def by metis
  have same: "getGame gid ?w1 = getGame gid w" for gid
    by (simp add: getGame_def game_key_def [abs_def])
  show ?thesis
  proof (cases "List.find row_isCurrent ?rs")
    case None
    then have "List.find gr_isCurrent rows = None" using find_normalized(1) [OF rows(2)] by simp
    then show ?thesis using None by (simp add: getCurrentGame_def fchain_def rows(1) find_e_def mapR_def)
  next
    case (Some r)
    obtain g where g: "List.find gr_isCurrent rows = Some g" "gr_gameId g = row_gameId r"
      using find_normalized(2) [OF rows(2) Some] by blast
    show ?thesis unfolding Some
      by (cases "getGame (row_gameId r) w")
         (simp_all add: getCurrentGame_def fchain_def rows(1) find_e_def g mapR_def same)
  qed
qed

subsection \<open>A player connects\<close>

definition session_of :: "string \<Rightarrow> world \<Rightarrow> session option" where
  "session_of pid w = List.find (\<lambda>x. blueParticipant x = pid \<or> redParticipant x = pid) (t_session (db w))"

definition current_row :: "int \<Rightarrow> world \<Rightarrow> db_game option" where
  "current_row sid w = List.find row_isCurrent (filter (\<lambda>r. row_sessionId r = sid) (t_game (db w)))"

lemma getPlayerSession_run:
  assumes "db_works w"
  shows "getPlayerSession pid w =
    (case session_of pid w of
       None \<Rightarrow> (Inl (PlainError ''Player session not found.''), w\<lparr>dbcount := Suc (dbcount w)\<rparr>)
     | Some x \<Rightarrow> (Inr x, w\<lparr>dbcount := Suc (dbcount w)\<rparr>))"
  using assms
  by (simp add: getPlayerSession_def getSessions_def fchain_def select_run session_of_def split: option.split)

lemma server_inv_dbcount: "server_inv w \<Longrightarrow> server_inv (w\<lparr>dbcount := n\<rparr>)"
  by (rule server_inv_stable) (auto simp: server_inv_def stable_def index_def)

lemma current_row_game:
  assumes "server_inv w" "current_row sid w = Some r"
  obtains i where "getGame (row_gameId r) w = Inr i" "i < length (objs w)" "gameId (objs w ! i) = row_gameId r"
proof -
  have "row_gameId r \<in> row_ids w"
    using assms(2) by (auto simp: current_row_def row_ids_def find_Some_iff dest!: nth_mem)
  then obtain i where i: "getGame (row_gameId r) w = Inr i" using server_inv_getGame [OF assms(1)] by blast
  show thesis
    using that [OF i getGame_live(2) [OF server_invD(1) [OF assms(1)] i]] getGame_key [OF i] by (simp add: game_key_def)
qed

lemma onPlayerConnect_run:
  assumes inv: "server_inv (sw s)"
  shows "case session_of pid (sw s) of
      None \<Rightarrow> sent (onPlayerConnect sk pid s) = sent s @ [ErrorMsg sk ''Player session not found.'']
    | Some x \<Rightarrow> (case current_row (sessionId x) (sw s) of
        None \<Rightarrow> sent (onPlayerConnect sk pid s) = sent s @ [ErrorMsg sk ''Cannot find element'']
      | Some r \<Rightarrow> \<exists>i. getGame (row_gameId r) (sw s) = Inr i
          \<and> sent (onPlayerConnect sk pid s) =
              sent s @ [JoinedGame (row_gameId r) sk pid, StateMsg sk (state (objs (sw s) ! i))]
          \<and> sd_gameId (socks (onPlayerConnect sk pid s) sk) = Some (row_gameId r)
          \<and> sd_active (socks (onPlayerConnect sk pid s) sk)
          \<and> ClientListener sk \<in> set (subs (cbMap (objs (sw (onPlayerConnect sk pid s)) ! i)) EvState))"
proof (cases "session_of pid (sw s)")
  case None
  then show ?thesis
    by (simp add: onPlayerConnect_def fork_fut_def fchain_def getPlayerSession_run server_invD(3) [OF inv]
        emitError_def send_def)
next
  case (Some x)
  let ?w1 = "(sw s)\<lparr>dbcount := Suc (dbcount (sw s))\<rparr>"
  note inv1 = server_inv_dbcount [OF inv, of "Suc (dbcount (sw s))"]
  have get: "getPlayerSession pid (sw s) = (Inr x, ?w1)"
    using getPlayerSession_run [OF server_invD(3) [OF inv]] Some by simp
  have same: "getGame gid (w\<lparr>dbcount := n\<rparr>) = getGame gid w" for gid n w
    by (simp add: getGame_def game_key_def [abs_def])
  show ?thesis
  proof (cases "current_row (sessionId x) (sw s)")
    case None
    then have "getCurrentGame (sessionId x) ?w1 =
        (Inl (PlainError ''Cannot find element''), ?w1\<lparr>dbcount := Suc (dbcount ?w1)\<rparr>)"
      using getCurrentGame_run [OF inv1, of "sessionId x"] by (simp add: current_row_def)
    then show ?thesis using None Some
      by (simp add: onPlayerConnect_def fork_fut_def fchain_def get emitError_def send_def)
  next
    case (Some r)
    obtain i where i: "getGame (row_gameId r) (sw s) = Inr i" "i < length (objs (sw s))"
      "gameId (objs (sw s) ! i) = row_gameId r"
      using current_row_game [OF inv Some] .
    have "getCurrentGame (sessionId x) ?w1 = (Inr i, ?w1\<lparr>dbcount := Suc (dbcount ?w1)\<rparr>)"
      using getCurrentGame_run [OF inv1, of "sessionId x"] Some i(1) by (simp add: current_row_def same)
    then show ?thesis using Some \<open>session_of pid (sw s) = Some x\<close> i
      by (simp add: onPlayerConnect_def fork_fut_def fchain_def get send_def getClientGameState_def Let_def
          listen_def ev.listeners_reg)
  qed
qed

subsection \<open>A process that dies and is started again\<close>

text \<open>The database stays; the objects, the timers and the effects still to run are gone.\<close>

definition restarted :: "world \<Rightarrow> world" where
  "restarted w = w\<lparr>objs := [], memGames := [], crashed := None,
     genv := (genv w)\<lparr>pending := [], gameTimers := (\<lambda>_. None), out := []\<rparr>\<rparr>"

lemma restarted_booting: "server_inv w \<Longrightarrow> booting (restarted w)"
proof -
  assume inv: "server_inv w"
  note i = server_invD [OF inv]
  have "idle_env ((genv w)\<lparr>pending := [], gameTimers := (\<lambda>_. None), out := []\<rparr>)"
    by (simp add: idle_env_def clock_ok_def)
  then show "booting (restarted w)"
    using i(3-5) world_invD(5) [OF i(1)] world_invD(2) [OF i(1)]
    by (auto simp: booting_def restarted_def db_works_def ids_fresh_def row_ids_def)
qed

lemma main_listens_games:
  assumes "booting w"
  shows "(\<exists>i. getGame gid (snd (main_listens w)) = Inr i) \<longleftrightarrow> gid \<in> row_ids w"
  using server_inv_getGame [OF main_listens_inv(2) [OF assms]] main_listens_inv(3) [OF assms]
  by (simp add: row_ids_def)

subsection \<open>A late effect of a game that is gone\<close>

lemma stale_current_row:
  assumes "db_works w" "gid \<notin> row_ids w"
  shows "current_row sid (run_effect (SetCurrentGame sid gid) w) = None"
proof -
  have ne: "row_gameId r \<noteq> gid" if "r \<in> set (t_game (db w))" for r using assms(2) that by (auto simp: row_ids_def)
  let ?f = "\<lambda>r. if row_sessionId r = sid then r\<lparr>row_isCurrent := False\<rparr> else r"
  let ?h = "\<lambda>r. if row_gameId r = gid then r\<lparr>row_isCurrent := True\<rparr> else r"
  have t: "t_game (db (run_effect (SetCurrentGame sid gid) w)) = map (\<lambda>r. ?h (?f r)) (t_game (db w))"
    using assms(1) by (simp add: setCurrentGame_def withDb_works set_current_stmt_def comp_def)
  have off: "\<not> row_isCurrent (?h (?f r))" if "r \<in> set (t_game (db w))" "row_sessionId (?h (?f r)) = sid" for r
    using ne [OF that(1)] that(2) by (simp split: if_splits)
  show ?thesis unfolding current_row_def t find_None_iff
  proof
    assume "\<exists>x. x \<in> set (filter (\<lambda>r. row_sessionId r = sid) (map (\<lambda>r. ?h (?f r)) (t_game (db w)))) \<and> row_isCurrent x"
    then obtain x where "x \<in> (\<lambda>r. ?h (?f r)) ` set (t_game (db w))" "row_sessionId x = sid" "row_isCurrent x"
      unfolding set_filter set_map by blast
    then show False using off by blast
  qed
qed

end
