(* ===== verification/Mams.thy ===== *)
theory Mams
  imports "HOL-Library.Word" Prelude
begin

unbundle bit_operations_syntax

text \<open>
  The recording converter \<open>mams-parser/main.ts\<close>: reading Mumble's variable-length integers, taking
  the Opus data out of a packet, and the loop that turns a recording into decoded audio. A byte is an
  \<open>8 word\<close>; the bit operations of JavaScript work on 32 bits with the shift distance modulo 32, and
  their result is read as a signed number. The Opus decoder and the answers of the output stream, one
  for each write, are parameters.
\<close>

subsection \<open>Variable-length integers\<close>

type_synonym bytes = "8 word list"

text \<open>\<open>buffer[i]\<close> as an operand of a bit operation: \<open>undefined\<close> counts as 0.\<close>

definition byte_at :: "bytes \<Rightarrow> int \<Rightarrow> 32 word" where
  "byte_at buf i = (case js_nth buf i of None \<Rightarrow> 0 | Some b \<Rightarrow> ucast b)"

definition shl :: "32 word \<Rightarrow> nat \<Rightarrow> 32 word" where
  "shl x n = push_bit (n mod 32) x"

text \<open>
  The result is the number read and how many bytes it takes. In the 28-bit and the 21-bit form
  \<open>&\<close> binds weaker than \<open><<\<close>, so the head byte is masked with \<open>0x0F << 24\<close> and \<open>0x1F << 16\<close>.
\<close>

definition readVarInt :: "bytes \<Rightarrow> int \<Rightarrow> int \<times> int" where
  "readVarInt buffer p =
     (let b = (\<lambda>k. byte_at buffer (p + int k)); h = b 0
      in if h AND 0x80 = 0 then (sint (h AND 0x7F), 1)
         else if h AND 0xC0 = 0x80 then (sint (shl (h AND 0x3F) 8 OR b 1), 2)
         else if h AND 0xF0 = 0xF0 \<and> h AND 0xFC = 0xF0
           then (sint (shl (b 1) 24 OR shl (b 2) 16 OR shl (b 3) 8 OR b 4), 5)
         else if h AND 0xF0 = 0xF0 \<and> h AND 0xFC = 0xF4
           then (sint (shl (b 1) 56 OR shl (b 2) 48 OR shl (b 3) 40 OR shl (b 4) 32
                  OR shl (b 5) 24 OR shl (b 6) 16 OR shl (b 7) 8 OR b 8), 9)
         else if h AND 0xF0 = 0xF0 \<and> h AND 0xFC = 0xFC then (sint (NOT (h AND 0x03)), 1)
         else if h AND 0xF0 = 0xE0
           then (sint ((h AND shl 0x0F 24) OR shl (b 1) 16 OR shl (b 2) 8 OR b 3), 4)
         else if h AND 0xE0 = 0xC0
           then (sint ((h AND shl 0x1F 16) OR shl (b 1) 8 OR b 2), 3)
         else (0, 0))"

subsection \<open>Packets\<close>

text \<open>
  \<open>Buffer.alloc(n)\<close> raises for a negative length and fills with zeros; \<open>copy\<close> stops at the end of
  either buffer.
\<close>

definition buffer_alloc :: "int \<Rightarrow> exn + bytes" where
  "buffer_alloc n = (if n < 0 then Inl RangeError else Inr (replicate (nat n) 0))"

definition buffer_slice :: "bytes \<Rightarrow> int \<Rightarrow> int \<Rightarrow> bytes" where
  "buffer_slice buf p n = take (nat n) (drop (nat p) buf)"

definition buffer_fill :: "bytes \<Rightarrow> bytes \<Rightarrow> bytes" where
  "buffer_fill target src = src @ drop (length src) target"

definition extractOpusData :: "bytes \<Rightarrow> exn + bytes option" where
  "extractOpusData buffer =
     (let (_, seqBytes) = readVarInt buffer 1;
          (len, lenBytes) = readVarInt buffer (1 + seqBytes);
          p = 1 + seqBytes + lenBytes
      in bindR (buffer_alloc len) (\<lambda>target.
           let data = buffer_fill target (buffer_slice buffer p len)
           in Inr (if len > int (length buffer) then None else Some data)))"

definition extractData :: "bytes \<Rightarrow> exn + bytes option" where
  "extractData buffer =
     (if byte_at buffer 0 AND 0x80 = 0x80 then extractOpusData buffer else Inr None)"

subsection \<open>The loop\<close>

text \<open>\<open>readInt32LE\<close> of a zero-filled header of 12 bytes.\<close>

definition readInt32LE :: "bytes \<Rightarrow> nat \<Rightarrow> int" where
  "readInt32LE buf p =
     sint (byte_at buf (int p) OR shl (byte_at buf (int p + 1)) 8
       OR shl (byte_at buf (int p + 2)) 16 OR shl (byte_at buf (int p + 3)) 24)"

text \<open>\<open>fd.read\<close> into a fresh buffer of \<open>n\<close> bytes: the buffer, the bytes read, and the rest.\<close>

definition read_into :: "nat \<Rightarrow> bytes \<Rightarrow> bytes \<times> nat \<times> bytes" where
  "read_into n inp =
     (buffer_fill (replicate n 0) (take n inp), min n (length inp), drop n inp)"

text \<open>
  \<open>drain\<close> is \<open>outNeedsDrain\<close>. While it is set the loop does not wait for anything, so the event
  that would clear it is never delivered: the loop does not end. \<open>decode\<close> is the Opus decoder.
  \<open>asks k\<close> says whether the stream's answer to the write number \<open>k\<close> asks for a drain: what it answers
  depends on how much it has passed on while the loop was waiting for the reads, about which nothing is
  assumed. An event \<open>drain\<close> that comes during a read finds the flag clear and changes nothing.
\<close>

partial_function (option) main_loop ::
  "(bytes \<Rightarrow> bytes) \<Rightarrow> (nat \<Rightarrow> bool) \<Rightarrow> bool \<Rightarrow> bytes \<Rightarrow> bytes list \<Rightarrow> (exn + bytes list) option" where
  "main_loop decode asks drain inp written =
     (if drain then main_loop decode asks drain inp written
      else
        let (header, bytesRead, file1) = read_into 12 inp
        in if bytesRead = 0 then Some (Inr written)
           else
             let len = readInt32LE header 8
             in if len < 0 then Some (Inl RangeError)
                else
                  let (chunk, _, file2) = read_into (nat len) file1
                  in case extractData chunk of
                       Inl ex \<Rightarrow> Some (Inl ex)
                     | Inr None \<Rightarrow> main_loop decode asks False file2 written
                     | Inr (Some data) \<Rightarrow>
                         main_loop decode asks (asks (length written)) file2 (written @ [decode data]))"

definition main_parse :: "(bytes \<Rightarrow> bytes) \<Rightarrow> (nat \<Rightarrow> bool) \<Rightarrow> bytes \<Rightarrow> (exn + bytes list) option" where
  "main_parse decode asks inp = main_loop decode asks False inp []"

lemma main_loop_returns: "main_loop decode asks drain inp written = Some r \<Longrightarrow> \<not> drain"
  apply (erule main_loop.raw_induct [rotated, where P = "\<lambda>decode asks drain inp written r. \<not> drain"])
  subgoal premises p for loop decode asks drain inp written r
    using p(1) [of decode asks True inp written r] p(2) by (auto split: if_splits)
  done

lemma main_loop_drained: "main_loop decode asks True inp written = None"
  using main_loop_returns by fastforce

subsection \<open>Integers read back\<close>

text \<open>The encodings of numbers below \<open>2 ^ 14\<close>, which sequence numbers and lengths use.\<close>

definition varint :: "nat \<Rightarrow> bytes" where
  "varint n = (if n < 128 then [of_nat n] else [0x80 OR of_nat (n div 256), of_nat (n mod 256)])"

lemma byte_at_append: "byte_at (xs @ ys) (int (length xs) + int k) = byte_at ys (int k)"
  by (auto simp: byte_at_def js_nth_def nth_append nat_add_distrib)

lemma byte_at_of_nat: "i < length buf \<Longrightarrow> byte_at buf (int i) = ucast (buf ! i)"
  by (simp add: byte_at_def)

lemma readVarInt_append:
  "readVarInt (xs @ ys) (int (length xs)) = readVarInt ys 0"
  unfolding readVarInt_def byte_at_append by simp

text \<open>Arithmetic of bytes in 32-bit words; the two facts on head bytes are computed.\<close>

lemma sint_small: "m < 2 ^ 31 \<Longrightarrow> sint (of_nat m :: 32 word) = int m"
  by (simp add: signed_take_bit_int_eq_self_iff signed_of_nat)

lemma ucast_byte: "n < 256 \<Longrightarrow> ucast (of_nat n :: 8 word) = (of_nat n :: 32 word)"
  by (simp add: unsigned_of_nat take_bit_nat_eq_self)

lemma head_small: "list_all (\<lambda>n. (of_nat n :: 32 word) AND 0x80 = 0 \<and> (of_nat n :: 32 word) AND 0x7F = of_nat n) [0..<128]"
  by code_simp

lemma head_two: "list_all (\<lambda>n. (ucast (0x80 OR of_nat n :: 8 word) :: 32 word) AND 0x80 \<noteq> 0
   \<and> (ucast (0x80 OR of_nat n :: 8 word) :: 32 word) AND 0xC0 = 0x80 \<and> (ucast (0x80 OR of_nat n :: 8 word) :: 32 word) AND 0x3F = of_nat n) [0..<64]"
  by code_simp

lemma two_bytes: "lo < 256 \<Longrightarrow> shl (of_nat hi) 8 OR ucast (of_nat lo :: 8 word) = (of_nat (hi * 256 + lo) :: 32 word)"
proof -
  assume lo: "lo < 256"
  have "shl (of_nat hi) 8 OR ucast (of_nat lo :: 8 word) = push_bit 8 (of_nat hi) + (ucast (of_nat lo :: 8 word) :: 32 word)"
    unfolding shl_def by (subst disjunctive_add) (auto simp: bit_simps)
  then show ?thesis using lo by (simp add: ucast_byte push_bit_eq_mult)
qed

lemma byte_at_Cons [simp]: "byte_at (x # xs) 0 = ucast x" "byte_at (x # xs) (int (Suc k)) = byte_at xs (int k)"
  using byte_at_append [of "[x]" xs k] by (simp_all add: byte_at_def js_nth_def)

lemma varint_roundtrip:
  assumes "n < 2 ^ 14"
  shows "readVarInt (varint n @ rest) 0 = (int n, int (length (varint n)))"
proof (cases "n < 128")
  case True
  then have "(of_nat n :: 32 word) AND 0x80 = 0" "(of_nat n :: 32 word) AND 0x7F = of_nat n"
    using head_small by (auto simp: list_all_iff)
  then show ?thesis using True
    by (simp add: varint_def readVarInt_def ucast_byte sint_small Let_def)
next
  case False
  define hi lo where hl: "hi = n div 256" "lo = n mod 256"
  have hi: "hi < 64" and lo: "lo < 256" and n: "n = hi * 256 + lo" using assms by (auto simp: hl)
  have h: "(ucast (0x80 OR of_nat hi :: 8 word) :: 32 word) AND 0x80 \<noteq> 0"
    "(ucast (0x80 OR of_nat hi :: 8 word) :: 32 word) AND 0xC0 = 0x80"
    "(ucast (0x80 OR of_nat hi :: 8 word) :: 32 word) AND 0x3F = of_nat hi"
    using head_two hi by (auto simp: list_all_iff)
  have b1: "byte_at ((0x80 OR of_nat hi) # of_nat lo # rest) 1 = ucast (of_nat lo :: 8 word)"
    using byte_at_Cons(2) [of "0x80 OR of_nat hi" "of_nat lo # rest" 0] by simp
  have v: "varint n = [0x80 OR of_nat hi, of_nat lo]" using False by (simp add: varint_def hl)
  have "readVarInt (varint n @ rest) 0 = (sint (shl (of_nat hi) 8 OR ucast (of_nat lo :: 8 word) :: 32 word), 2)"
    using h b1 unfolding v readVarInt_def Let_def by simp
  also have "\<dots> = (int n, 2)"
    unfolding two_bytes [OF lo] n [symmetric] using assms by (simp add: sint_small)
  finally show ?thesis by (simp add: v)
qed

text \<open>How many bytes a number takes; no head byte is read as more than nine.\<close>

lemma readVarInt_length: "snd (readVarInt buf p) \<in> {0, 1, 2, 3, 4, 5, 9}"
  by (simp add: readVarInt_def Let_def)

text \<open>The masks that bind the wrong way: the bits of the head byte do not reach the result.\<close>

lemma ucast_byte_mask: "(ucast (x :: 8 word) :: 32 word) AND 0xFF = ucast x"
proof -
  have e: "(0xFF :: 32 word) = mask 8" by (simp add: mask_eq_exp_minus_1)
  show ?thesis unfolding e by (rule bit_word_eqI) (auto simp: bit_simps dest: bit_imp_le_length)
qed

lemma head_byte_masked: "(ucast (x :: 8 word) :: 32 word) AND shl 0x1F 16 = 0"
  "(ucast (x :: 8 word) :: 32 word) AND shl 0x0F 24 = 0"
proof -
  have "(ucast x :: 32 word) AND c = ucast x AND (0xFF AND c)" for c
    by (simp only: and.assoc [symmetric] ucast_byte_mask)
  note m = this [of "shl 0x1F 16"] this [of "shl 0x0F 24"]
  show "(ucast x :: 32 word) AND shl 0x1F 16 = 0" "(ucast x :: 32 word) AND shl 0x0F 24 = 0"
    unfolding m by (simp_all add: shl_def)
qed

lemma head_three: "list_all (\<lambda>k. let u = (of_nat k :: 32 word) in u AND 0x80 \<noteq> 0 \<and> u AND 0xC0 \<noteq> 0x80
    \<and> u AND 0xF0 \<noteq> 0xF0 \<and> u AND 0xF0 \<noteq> 0xE0 \<and> u AND 0xE0 = 0xC0) [192..<224]"
  by code_simp

lemma readVarInt_21:
  assumes "192 \<le> h" "h < 224" "a < 256" "b < 256"
  shows "readVarInt (of_nat h # of_nat a # of_nat b # rest) 0 = (int (256 * a + b), 3)"
proof -
  let ?buf = "of_nat h # of_nat a # of_nat b # rest"
  let ?u = "ucast (of_nat h :: 8 word) :: 32 word"
  have u: "?u = of_nat h" using assms(2) by (simp add: ucast_byte)
  have b: "byte_at ?buf 0 = ?u" "byte_at ?buf 1 = ucast (of_nat a :: 8 word)" "byte_at ?buf 2 = ucast (of_nat b :: 8 word)"
    by (simp_all add: byte_at_def js_nth_def)
  have mem: "h \<in> set [192..<224]" using assms(1,2) by (simp only: set_upt atLeastLessThan_iff)
  have h: "?u AND 0x80 \<noteq> 0" "?u AND 0xC0 \<noteq> 0x80" "?u AND 0xF0 \<noteq> 0xF0" "?u AND 0xF0 \<noteq> 0xE0" "?u AND 0xE0 = 0xC0"
    using bspec [OF head_three [unfolded list_all_iff] mem] unfolding u by (simp_all add: Let_def)
  have "readVarInt ?buf 0 = (sint (?u AND shl 0x1F 16 OR shl (ucast (of_nat a :: 8 word)) 8 OR ucast (of_nat b :: 8 word)), 3)"
    using h b by (simp add: readVarInt_def Let_def)
  also have "\<dots> = (sint (of_nat (a * 256 + b) :: 32 word), 3)"
    using two_bytes [OF assms(4), of a] assms(3) by (simp add: head_byte_masked ucast_byte)
  also have "a * 256 + b < 2 ^ 31" using assms(3,4) by simp
  note sint_small [OF this]
  finally show ?thesis by (simp add: mult.commute)
qed

subsection \<open>Packets read back\<close>

text \<open>An Opus packet: header byte with bit 7 set, sequence number, length, data.\<close>

definition packet :: "8 word \<Rightarrow> nat \<Rightarrow> nat \<Rightarrow> bytes \<Rightarrow> bytes" where
  "packet h sq n data = h # varint sq @ varint n @ data"

lemma opus_bytes: "list_all (\<lambda>k. (0x80 :: 8 word) AND of_nat k = 0x80 \<longrightarrow> (of_nat k :: 32 word) AND 0x80 = 0x80) [0..<256]"
  by code_simp

lemma opus_header: "(0x80 :: 8 word) AND h = 0x80 \<Longrightarrow> (ucast h :: 32 word) AND 0x80 = 0x80"
proof -
  have "unat h < 256" using unsigned_less [of h] by simp
  then have mem: "unat h \<in> set [0..<256]" by (simp only: set_upt atLeastLessThan_iff) simp
  have "ucast h = (of_nat (unat h) :: 32 word)" by simp
  then show "(0x80 :: 8 word) AND h = 0x80 \<Longrightarrow> ?thesis"
    using bspec [OF opus_bytes [unfolded list_all_iff] mem] by simp
qed

lemma packet_lengths:
  assumes "sq < 2 ^ 14" "n < 2 ^ 14"
  shows "readVarInt (packet h sq n data) 1 = (int sq, int (length (varint sq)))"
    and "readVarInt (packet h sq n data) (1 + int (length (varint sq))) = (int n, int (length (varint n)))"
proof -
  show "readVarInt (packet h sq n data) 1 = (int sq, int (length (varint sq)))"
    using readVarInt_append [of "[h]" "varint sq @ varint n @ data"] varint_roundtrip [OF assms(1)]
    by (simp add: packet_def)
  show "readVarInt (packet h sq n data) (1 + int (length (varint sq))) = (int n, int (length (varint n)))"
    using readVarInt_append [of "h # varint sq" "varint n @ data"] varint_roundtrip [OF assms(2)]
    by (simp add: packet_def)
qed

lemma extractData_packet:
  assumes "(0x80 :: 8 word) AND h = 0x80" "sq < 2 ^ 14" "n < 2 ^ 14"
  shows "extractData (packet h sq n data) =
    Inr (if n > length (packet h sq n data) then None
         else Some (take n data @ replicate (n - length data) 0))"
proof -
  have h: "byte_at (packet h sq n data) 0 AND 0x80 = 0x80"
    using opus_header [OF assms(1)] by (simp add: packet_def)
  have slice: "buffer_slice (packet h sq n data) (1 + int (length (varint sq)) + int (length (varint n))) (int n) = take n data"
    by (simp add: buffer_slice_def packet_def nat_add_distrib)
  show ?thesis
    unfolding extractData_def extractOpusData_def
    using h packet_lengths [OF assms(2,3), of h data]
    by (simp add: buffer_alloc_def slice buffer_fill_def Let_def min_def)
qed

subsection \<open>Recordings read back\<close>

text \<open>A recorded packet: eight bytes of time stamp, its length (below \<open>2 ^ 16\<close> here), its bytes.\<close>

definition rec_bytes :: "bytes \<Rightarrow> bytes \<Rightarrow> bytes" where
  "rec_bytes ts body =
     ts @ [of_nat (length body mod 256), of_nat (length body div 256), 0, 0] @ body"

lemma read_into_exact: "length xs = n \<Longrightarrow> read_into n (xs @ rest) = (xs, n, rest)"
  by (simp add: read_into_def buffer_fill_def)

lemma readInt32LE_rec:
  assumes "length ts = 8" "n < 65536"
  shows "readInt32LE (ts @ [of_nat (n mod 256), of_nat (n div 256), 0, 0]) 8 = int n"
proof -
  let ?buf = "ts @ [of_nat (n mod 256), of_nat (n div 256), 0, 0]"
  have b: "byte_at ?buf 8 = ucast (of_nat (n mod 256) :: 8 word)" "byte_at ?buf 9 = ucast (of_nat (n div 256) :: 8 word)"
    "byte_at ?buf 10 = 0" "byte_at ?buf 11 = 0"
    using assms(1) by (simp_all add: byte_at_def js_nth_def nth_append)
  have "n div 256 < 256" using assms(2) by (simp add: less_mult_imp_div_less)
  then have "readInt32LE ?buf 8 = sint (shl (of_nat (n div 256)) 8 OR ucast (of_nat (n mod 256) :: 8 word) :: 32 word)"
    using b by (simp add: readInt32LE_def ucast_byte shl_def or.commute)
  also have "\<dots> = sint (of_nat n :: 32 word)" using two_bytes [of "n mod 256" "n div 256"] by simp
  also have "n < 2 ^ 31" using assms(2) by simp
  note sint_small [OF this]
  finally show ?thesis .
qed

lemma main_loop_record:
  assumes "length ts = 8" "length body < 65536"
  shows "main_loop decode asks False (rec_bytes ts body @ rest) written =
    (case extractData body of
       Inl ex \<Rightarrow> Some (Inl ex)
     | Inr None \<Rightarrow> main_loop decode asks False rest written
     | Inr (Some data) \<Rightarrow>
         main_loop decode asks (asks (length written)) rest (written @ [decode data]))"
proof -
  let ?hd = "ts @ [of_nat (length body mod 256), of_nat (length body div 256), 0, 0]"
  have "read_into 12 (rec_bytes ts body @ rest) = (?hd, 12, body @ rest)"
    using read_into_exact [of ?hd 12 "body @ rest"] assms(1) by (simp add: rec_bytes_def)
  moreover have "readInt32LE ?hd 8 = int (length body)" by (rule readInt32LE_rec [OF assms])
  ultimately show ?thesis
    by (subst main_loop.simps) (simp add: read_into_exact Let_def split: sum.split option.split)
qed

lemma main_loop_end: "main_loop decode asks False [] written = Some (Inr written)"
  by (subst main_loop.simps) (simp add: read_into_def)

text \<open>
  What a recording holds. A voice packet carries its data; the last packet of an utterance has the
  termination bit set in its length, which reads as 8192 more; anything else has no Opus header.
\<close>

datatype recorded = Voice "8 word" nat bytes | Final "8 word" nat bytes | Other bytes

fun body_of :: "recorded \<Rightarrow> bytes" where
  "body_of (Voice h sq d) = packet h sq (length d) d"
| "body_of (Final h sq d) = packet h sq (8192 + length d) d"
| "body_of (Other body) = body"

fun recordable :: "recorded \<Rightarrow> bool" where
  "recordable (Voice h sq d) \<longleftrightarrow> (0x80 :: 8 word) AND h = 0x80 \<and> sq < 2 ^ 14 \<and> length d < 8192"
| "recordable (Final h sq d) \<longleftrightarrow> (0x80 :: 8 word) AND h = 0x80 \<and> sq < 2 ^ 14 \<and> length d < 8192"
| "recordable (Other body) \<longleftrightarrow> byte_at body 0 AND 0x80 \<noteq> 0x80 \<and> length body < 65536"

fun voice :: "recorded \<Rightarrow> bytes list" where
  "voice (Voice h sq d) = [d]"
| "voice _ = []"

definition recording :: "(bytes \<times> recorded) list \<Rightarrow> bytes" where
  "recording ps = concat (map (\<lambda>(ts, p). rec_bytes ts (body_of p)) ps)"

definition audio :: "(bytes \<times> recorded) list \<Rightarrow> bytes list" where
  "audio ps = concat (map (voice \<circ> snd) ps)"

definition well_recorded :: "(bytes \<times> recorded) list \<Rightarrow> bool" where
  "well_recorded ps \<longleftrightarrow> (\<forall>(ts, p) \<in> set ps. length ts = 8 \<and> recordable p)"

lemma recording_simps [simp]:
  "recording [] = []" "recording ((ts, p) # ps) = rec_bytes ts (body_of p) @ recording ps"
  "audio [] = []" "audio ((ts, p) # ps) = voice p @ audio ps"
  "well_recorded []" "well_recorded ((ts, p) # ps) \<longleftrightarrow> length ts = 8 \<and> recordable p \<and> well_recorded ps"
  by (simp_all add: recording_def audio_def well_recorded_def)

lemma packet_length: "length (packet h sq n d) \<le> 5 + length d" "length d \<le> length (packet h sq n d)"
  by (simp_all add: packet_def varint_def)

lemma extractData_body:
  assumes "recordable p"
  shows "extractData (body_of p) = Inr (case voice p of [] \<Rightarrow> None | d # _ \<Rightarrow> Some d)" and "length (body_of p) < 65536"
proof -
  show "length (body_of p) < 65536"
  proof (cases p)
    case (Voice h sq d)
    then show ?thesis using assms packet_length(1) [of h sq "length d" d] by simp
  next
    case (Final h sq d)
    then show ?thesis using assms packet_length(1) [of h sq "8192 + length d" d] by simp
  qed (use assms in simp)
  show "extractData (body_of p) = Inr (case voice p of [] \<Rightarrow> None | d # _ \<Rightarrow> Some d)"
  proof (cases p)
    case (Voice h sq d)
    then show ?thesis using assms packet_length(2) [of d h sq "length d"] by (simp add: extractData_packet)
  next
    case (Final h sq d)
    then show ?thesis using assms packet_length(1) [of h sq "8192 + length d" d] by (simp add: extractData_packet)
  qed (use assms in \<open>simp add: extractData_def\<close>)
qed

lemma voice_cases: "voice p = [] \<or> (\<exists>d. voice p = [d])"
  by (cases p) simp_all

text \<open>
  What the loop has made of a recording when it gets to what follows it: it spins for good if one of the
  writes was answered with the wish for a drain.
\<close>

lemma main_loop_recording:
  assumes "well_recorded ps"
  shows "main_loop decode asks False (recording ps @ rest) written =
    (if \<exists>k < length (audio ps). asks (length written + k) then None
     else main_loop decode asks False rest (written @ map decode (audio ps)))"
  using assms
proof (induction ps arbitrary: written)
  case Nil
  then show ?case by simp
next
  case (Cons q ps)
  obtain ts p where q: "q = (ts, p)" by fastforce
  then have p: "length ts = 8" "recordable p" and ps: "well_recorded ps" using Cons.prems by simp_all
  note step = main_loop_record [OF p(1) extractData_body(2) [OF p(2)], of decode asks "recording ps @ rest" written,
    unfolded extractData_body(1) [OF p(2)]]
  consider "voice p = []" | d where "voice p = [d]" using voice_cases by blast
  then show ?case
  proof cases
    case 1
    then show ?thesis using step Cons.IH [OF ps] by (auto simp: q)
  next
    case 2
    have "(\<exists>k < Suc (length (audio ps)). asks (length written + k)) \<longleftrightarrow>
        asks (length written) \<or> (\<exists>k < length (audio ps). asks (Suc (length written) + k))"
      by (auto simp: less_Suc_eq_0_disj)
    then show ?thesis using 2 step Cons.IH [OF ps, of "written @ [decode d]"] main_loop_drained
      by (cases "asks (length written)") (auto simp: q)
  qed
qed

end
