(* ===== verification/ClientGame.thy ===== *)
theory ClientGame
  imports "HOL-Library.Multiset" Persist
begin

text \<open>
  The decisions of the players' client (\<open>game/src/js\<close>): which screen a state shows
  (\<open>GameScreen.tsx\<close>, \<open>LobbyScreen.tsx\<close>), the questions and the order in which the blue player
  sees their options (\<open>equations.ts\<close>, \<open>EqInstructions.tsx\<close>), what the red player can answer
  (\<open>ButtonRound.tsx\<close>), scores and results (\<open>RoundScreen.tsx\<close>, \<open>ReviewScreen\<close>) and the clock
  (\<open>Clock.tsx\<close>). What the components draw from them is in Pages.
\<close>

subsection \<open>Questions\<close>

record equation =
  label :: string
  options :: "string list"
  eq_answer :: string

definition equations :: "equation list" where
  "equations =
     [\<lparr>label = ''What is the capital city of England?'',
       options = [''London'', ''Shenzhen'', ''Venice''],
       eq_answer = ''London''\<rparr>,
      \<lparr>label = ''8 + 54 = ?'',
       options = [''62'', ''66'', ''72''],
       eq_answer = ''62''\<rparr>,
      \<lparr>label = ''How many weeks in a year?'',
       options = [''52'', ''100'', ''45''],
       eq_answer = ''52''\<rparr>,
      \<lparr>label = ''How many legs does a Octopus have?'',
       options = [''7'', ''10'', ''8''],
       eq_answer = ''8''\<rparr>,
      \<lparr>label = ''Which of these is a famous landmark in London?'',
       options = [''Berlin Wall'', ''Eiffel Tower'', ''Big Ben''],
       eq_answer = ''Big Ben''\<rparr>,
      \<lparr>label = ''How many meters in 1 kilometer?'',
       options = [''100'', ''1000'', ''10''],
       eq_answer = ''1000''\<rparr>,
      \<lparr>label = ''4 * 7 = ?'',
       options = [''28'', ''24'', ''32''],
       eq_answer = ''28''\<rparr>,
      \<lparr>label = ''Which of these is a Pokemon?'',
       options = [''Giant African Snail'', ''Pikachu'', ''Stegosaurus''],
       eq_answer = ''Pikachu''\<rparr>,
      \<lparr>label = ''21 + 71 = ?'',
       options = [''92'', ''104'', ''94''],
       eq_answer = ''92''\<rparr>,
      \<lparr>label = ''11 - 5 = ?'',
       options = [''5'', ''6'', ''7''],
       eq_answer = ''6''\<rparr>,
      \<lparr>label = ''6 * 7 = ?'',
       options = [''42'', ''36'', ''35''],
       eq_answer = ''42''\<rparr>,
      \<lparr>label = ''25 - 7 = ?'',
       options = [''16'', ''17'', ''18''],
       eq_answer = ''18''\<rparr>,
      \<lparr>label = ''1, 1, 2, 3, 5, 8, ?'',
       options = [''11'', ''12'', ''13''],
       eq_answer = ''13''\<rparr>,
      \<lparr>label = ''What colour are London buses?'',
       options = [''Red'', ''Black'', ''White''],
       eq_answer = ''Red''\<rparr>,
      \<lparr>label = ''What do bees make?'',
       options = [''Honey'', ''Cotton'', ''Silk''],
       eq_answer = ''Honey''\<rparr>,
      \<lparr>label = ''Which is the fastest land animal?'',
       options = [''Hare'', ''Whippet'', ''Cheetah''],
       eq_answer = ''Cheetah''\<rparr>,
      \<lparr>label = ''Who built the pyramids of Giza?'',
       options = [''Egyptians'', ''Romans'', ''Huns''],
       eq_answer = ''Egyptians''\<rparr>,
      \<lparr>label = ''Which country has the largest land mass?'',
       options = [''Russia'', ''France'', ''Spain''],
       eq_answer = ''Russia''\<rparr>,
      \<lparr>label = ''What is the largest mammal in the world?'',
       options = [''Hippopotamus'', ''Blue Whale'', ''Polar Bear''],
       eq_answer = ''Blue Whale''\<rparr>,
      \<lparr>label = ''In which European City would you find Buckingham Palace?'',
       options = [''London'', ''Prague'', ''Rome''],
       eq_answer = ''London''\<rparr>]"

definition tutorialEquations :: "equation list" where
  "tutorialEquations =
     [\<lparr>label = ''2 * 3'',
       options = [''12'', ''6'', ''4''],
       eq_answer = ''6''\<rparr>,
      \<lparr>label = ''Which of these is the oldest University in the world?'',
       options = [''University of Bologna'', ''University of Oxford'', ''University of Cambridge''],
       eq_answer = ''University of Bologna''\<rparr>,
      \<lparr>label = ''Which of these is a former president of the United States?'',
       options = [''Donald Trump'', ''Elon Musk'', ''Kanye West''],
       eq_answer = ''Donald Trump''\<rparr>,
      \<lparr>label = ''What kind of creature is Shrek?'',
       options = [''Ogre'', ''Cat'', ''Donkey''],
       eq_answer = ''Ogre''\<rparr>,
      \<lparr>label = ''In the popular Super Mario video game series, what is the name of Mario's brother?'',
       options = [''Luigi'', ''Letizia'', ''Lorenzo''],
       eq_answer = ''Luigi''\<rparr>]"

text \<open>
  \<open>getRandomInt(min, max)\<close> for integer bounds: \<open>draw\<close> is \<open>Math.floor(Math.random() * (max - min +
  1))\<close>, a number from 0 to \<open>max - min\<close>.
\<close>

definition getRandomInt :: "nat \<Rightarrow> nat \<Rightarrow> nat \<Rightarrow> nat" where
  "getRandomInt draw mn mx = draw + mn"

definition randomItem :: "nat \<Rightarrow> equation list \<Rightarrow> equation option" where
  "randomItem draw arr = js_nth arr (int (getRandomInt draw 0 (length arr) mod length arr))"

definition getEquation :: "nat \<Rightarrow> int \<Rightarrow> round_data \<Rightarrow> equation option" where
  "getEquation draw rnd roundData =
     (if rd_name roundData = TutorialButton then randomItem draw tutorialEquations
      else js_nth equations rnd)"

text \<open>
  \<open>EqInstructions\<close>: the right option changes places with the one at the index of the round's
  solution. \<open>None\<close> stands for a swap outside the array, which the shipped data never asks for.
\<close>

definition shown_options :: "equation \<Rightarrow> int \<Rightarrow> string list option" where
  "shown_options equation solutionIndex =
     (let opts = options equation;
          eqAnswerIndex = find_index (\<lambda>x. x = eq_answer equation) opts
      in case (js_nth opts eqAnswerIndex, js_nth opts solutionIndex) of
           (Some temp, Some other) \<Rightarrow> Some ((opts[nat eqAnswerIndex := other])[nat solutionIndex := temp])
         | _ \<Rightarrow> None)"

definition colorMap :: "string list" where
  "colorMap = [''red'', ''blue'', ''green'']"

subsection \<open>Answers and scores\<close>

text \<open>What the red player's buttons send; the blue player has none that does anything.\<close>

definition button_answers :: "bool \<Rightarrow> int \<Rightarrow> round_data \<Rightarrow> answer list" where
  "button_answers isBlue rnd roundData =
     (if isBlue then []
      else map (\<lambda>opt. \<lparr>a_round = rnd, a_value = Some (JNum opt)\<rparr>)
             (case rd_options roundData of None \<Rightarrow> [] | Some opts \<Rightarrow> opts))"

text \<open>\<open>round.answer !== undefined && round.answer === round.solution\<close>; two arrays are never \<open>===\<close>.\<close>

definition answer_correct :: "round_data \<Rightarrow> bool" where
  "answer_correct r \<longleftrightarrow>
     (case (rd_answer r, rd_solution r) of (Some a, SNum sol) \<Rightarrow> a = JNum sol | _ \<Rightarrow> False)"

definition score :: "game_data \<Rightarrow> int" where
  "score gd = sum_list (map (\<lambda>r. if answer_correct r then 1 else 0) (gd_rounds gd))"

definition total :: "game_data \<Rightarrow> int" where
  "total gd = sum_list (map (\<lambda>r. if rd_answer r \<noteq> None then 1 else 0) (gd_rounds gd))"

definition correctLen :: "game_data \<Rightarrow> nat" where
  "correctLen gd = length (filter answer_correct (gd_rounds gd))"

subsection \<open>The clock\<close>

definition padStart :: "nat \<Rightarrow> char \<Rightarrow> string \<Rightarrow> string" where
  "padStart width c s = replicate (width - length s) c @ s"

definition formatClockString :: "nat \<Rightarrow> int \<Rightarrow> string" where
  "formatClockString width msLeft = padStart width CHR ''0'' (show_int (- ((- msLeft) div 1000))) @ ''s''"

text \<open>
  \<open>Math.log10(Math.floor(length / 1000))\<close> as a width, that is rounded down: one less than the number
  of digits.
\<close>

definition clock_width :: "int \<Rightarrow> nat" where
  "clock_width len = length (show_nat (nat (len div 1000))) - 1"

definition clock_value :: "int \<Rightarrow> int \<Rightarrow> int \<Rightarrow> string" where
  "clock_value t0 len nw = formatClockString (clock_width len) (max (t0 + len - nw) 0)"

subsection \<open>Screens\<close>

record client =
  loading :: bool
  cl_data :: "game_data option"

definition client_init :: client where
  "client_init = \<lparr>loading = True, cl_data = None\<rparr>"

datatype client_event = CConnect | CState game_data | CError | CDisconnect

fun client_on :: "client_event \<Rightarrow> client \<Rightarrow> client" where
  "client_on CConnect c = c\<lparr>loading := False\<rparr>"
| "client_on (CState gd) c = c\<lparr>cl_data := Some gd\<rparr>"
| "client_on CError c = c\<lparr>loading := False\<rparr>"
| "client_on CDisconnect c = c\<lparr>cl_data := None\<rparr>"

datatype screen = Loading | NotFound | Lobby game_data | Review game_data | Playing game_data

definition game_screen :: "client \<Rightarrow> screen" where
  "game_screen c =
     (if loading c then Loading
      else case cl_data c of
        None \<Rightarrow> NotFound
      | Some gd \<Rightarrow>
          if gd_startTime gd = None then Lobby gd
          else if gd_endTime gd \<noteq> None then Review gd else Playing gd)"

text \<open>The lobby: the flag its button sends, \<open>None\<close> when the player is not one of the game's.\<close>

definition toggleReady :: "string \<Rightarrow> game_data \<Rightarrow> bool option" where
  "toggleReady pid gd = map_option (\<lambda>p. \<not> ready p) (List.find (\<lambda>p. playerId p = pid) (gd_players gd))"

definition is_blue :: "string \<Rightarrow> game_data \<Rightarrow> bool" where
  "is_blue pid gd \<longleftrightarrow> (case gd_players gd of [] \<Rightarrow> False | p # _ \<Rightarrow> playerId p = pid)"

text \<open>\<open>Switch\<close>: the first case for the value, or the default.\<close>

definition switch_child :: "('k \<times> 'c) list \<Rightarrow> 'c option \<Rightarrow> 'k \<Rightarrow> 'c option" where
  "switch_child cases dflt x = (case List.find (\<lambda>c. fst c = x) cases of Some c \<Rightarrow> Some (snd c) | None \<Rightarrow> dflt)"

subsection \<open>The right button\<close>

definition good_equation :: "equation \<Rightarrow> bool" where
  "good_equation q \<longleftrightarrow> distinct (options q) \<and> eq_answer q \<in> set (options q) \<and> length (options q) = 3"

lemma equations_good: "q \<in> set equations \<Longrightarrow> good_equation q" "q \<in> set tutorialEquations \<Longrightarrow> good_equation q"
  by (auto simp: equations_def tutorialEquations_def good_equation_def)

lemma length_equations [simp]: "length equations = 20" "length tutorialEquations = 5"
  by (simp_all add: equations_def tutorialEquations_def)

lemma swap_at:
  assumes "i < length xs" "j < length xs" "distinct xs" "k < length xs"
  shows "(xs[i := xs ! j, j := xs ! i]) ! k = xs ! i \<longleftrightarrow> k = j"
  using assms by (auto simp: nth_list_update nth_eq_iff_index_eq)

lemma shown_options_right:
  assumes "good_equation q" "0 \<le> sol" "sol < 3"
  shows "\<exists>opts. shown_options q sol = Some opts \<and> mset opts = mset (options q)
    \<and> (\<forall>k < 3. opts ! k = eq_answer q \<longleftrightarrow> int k = sol)"
proof -
  let ?i = "find_index (\<lambda>x. x = eq_answer q) (options q)"
  have "0 \<le> ?i" using assms(1) by (simp add: find_index_nonneg_iff good_equation_def)
  then obtain i where i: "?i = int i" using nonneg_int_cases by blast
  have il: "i < length (options q)" "options q ! i = eq_answer q"
    using find_index_nth [OF i] by auto
  have j: "nat sol < length (options q)" and len: "length (options q) = 3"
    using assms by (auto simp: good_equation_def)
  let ?opts = "(options q)[i := options q ! nat sol, nat sol := options q ! i]"
  have "shown_options q sol = Some ?opts"
    using i il j assms(2) by (simp add: shown_options_def js_nth_def Let_def)
  moreover have "mset ?opts = mset (options q)" using il(1) j by (simp add: mset_swap)
  moreover have "\<forall>k < 3. ?opts ! k = eq_answer q \<longleftrightarrow> int k = sol"
    using swap_at [OF il(1) j] assms len il(2) by (auto simp: good_equation_def)
  ultimately show ?thesis by blast
qed

text \<open>Every round of every shipped schedule has a question of its own.\<close>

lemma shipped_lengths: "s \<in> set shipped \<Longrightarrow> length s \<le> 20"
  by (auto simp: shipped_def schedule_defs)

lemma shipped_solution: "s \<in> set shipped \<Longrightarrow> d \<in> set s \<Longrightarrow>
    \<exists>sol. rd_solution d = SNum sol \<and> rd_options d = Some [0, 1, 2] \<and> 0 \<le> sol \<and> sol < 3 \<and> rd_name d = Button"
  by (auto simp: shipped_def schedule_defs)

subsection \<open>Scores of a game\<close>

lemma answer_correct_state: "single_round r \<Longrightarrow> answer_correct (round_state r) \<longleftrightarrow> correct_round r"
  by (cases "ranswer r"; cases "kind r")
     (auto simp: answer_correct_def round_state_def correct_round_def single_round_def
       split: option.splits elim: jclone.elims)

lemma sum_list_count: "sum_list (map (\<lambda>r. if P r then 1 else (0 :: int)) rs) = int (length (filter P rs))"
  by (induction rs) auto

lemma score_state:
  "list_all single_round (rounds g) \<Longrightarrow> score (state g) = int (length (filter correct_round (rounds g)))"
proof -
  have "length (filter answer_correct (map round_state rs)) = length (filter correct_round rs)"
    if "list_all single_round rs" for rs
    using that by (induction rs) (auto simp: answer_correct_state)
  then show "list_all single_round (rounds g) \<Longrightarrow> ?thesis"
    by (simp add: score_def sum_list_count state_def del: map_map)
qed

lemma score_le_total: "0 \<le> score gd \<and> score gd \<le> total gd \<and> total gd \<le> int (length (gd_rounds gd))"
proof -
  have "length (filter answer_correct rs) \<le> length (filter (\<lambda>r. rd_answer r \<noteq> None) rs)" for rs
    by (induction rs) (auto simp: answer_correct_def)
  then show ?thesis by (simp add: score_def total_def sum_list_count)
qed

lemma correctLen_score: "int (correctLen gd) = score gd"
  by (simp add: correctLen_def score_def sum_list_count)

end
