(* ===== verification/JsText.thy ===== *)
theory JsText
  imports Paths
begin

text \<open>
  What the program uses of JavaScript's strings besides splitting and joining: blanks, \<open>trim\<close>, and
  \<open>parseInt\<close>, with which ports are read from the form of a new session and from the environment.
\<close>

text \<open>
  JavaScript's \<open>parseInt(s)\<close>: blanks, a sign, a prefix that makes it hexadecimal, and then the longest
  run of digits; \<open>None\<close> is \<open>NaN\<close>.
\<close>

definition js_blank :: "char \<Rightarrow> bool" where
  "js_blank c \<longleftrightarrow> (let n = of_char c :: nat in 9 \<le> n \<and> n \<le> 13 \<or> n = 32 \<or> n = 160)"

definition digit_of :: "nat \<Rightarrow> char \<Rightarrow> nat option" where
  "digit_of radix c =
     (let n = of_char c :: nat;
          d = (if 48 \<le> n \<and> n \<le> 57 then n - 48 else if 97 \<le> n \<and> n \<le> 122 then n - 87
               else if 65 \<le> n \<and> n \<le> 90 then n - 55 else 36)
      in if d < radix then Some d else None)"

fun sign_of :: "string \<Rightarrow> int \<times> string" where
  "sign_of (c # r) = (if c = CHR ''-'' then (-1, r) else if c = CHR ''+'' then (1, r) else (1, c # r))"
| "sign_of [] = (1, [])"

fun radix_of :: "string \<Rightarrow> nat \<times> string" where
  "radix_of (z # x # r) =
     (if z = CHR ''0'' \<and> x \<in> {CHR ''x'', CHR ''X''} then (16, r) else (10, z # x # r))"
| "radix_of t = (10, t)"

definition parseInt :: "string \<Rightarrow> int option" where
  "parseInt s =
     (let (sign, t) = sign_of (dropWhile js_blank s);
          (radix, u) = radix_of t;
          digits = takeWhile (\<lambda>c. digit_of radix c \<noteq> None) u
      in if digits = [] then None
         else Some (sign * int (foldl (\<lambda>n c. radix * n + the (digit_of radix c)) 0 digits)))"

definition js_trim :: "string \<Rightarrow> string" where
  "js_trim s = rev (dropWhile js_blank (rev (dropWhile js_blank s)))"

text \<open>Typed numbers are read back.\<close>

lemma digit_of_decimal: "d < 10 \<Longrightarrow> digit_of 10 (char_of (48 + d :: nat)) = Some d"
  by (simp add: digit_of_def)

lemma takeWhile_show_nat: "takeWhile (\<lambda>c. digit_of 10 c \<noteq> None) (show_nat n) = show_nat n"
proof -
  have "digit_of 10 c \<noteq> None" if "c \<in> set (show_nat n)" for c
    using show_nat_digits [OF that] by (auto simp: digit_of_def Let_def)
  then show ?thesis by (simp add: takeWhile_eq_all_conv)
qed

lemma fold_show_nat: "foldl (\<lambda>n c. 10 * n + the (digit_of 10 c)) 0 (show_nat n) = n"
proof (induction n rule: show_nat.induct)
  case (1 n)
  show ?case
  proof (cases "n < 10")
    case True
    then show ?thesis by (subst show_nat.simps) (simp add: digit_of_decimal)
  next
    case False
    have "n mod 10 < 10" by simp
    note d = digit_of_decimal [OF this]
    show ?thesis using False "1.IH" by (subst show_nat.simps) (simp add: d)
  qed
qed

lemma show_nat_head: "\<exists>c r. show_nat n = c # r \<and> of_char c \<in> {48 .. (57 :: nat)}"
  using show_nat_digits [of "hd (show_nat n)" n] show_nat_nonempty [of n]
  by (cases "show_nat n") auto

lemma parseInt_show:
  assumes "0 \<le> i"
  shows "parseInt (show_int i) = Some i"
proof -
  let ?s = "show_nat (nat i)"
  obtain c r where c: "?s = c # r" "of_char c \<in> {48 .. (57 :: nat)}" using show_nat_head by blast
  have "\<not> js_blank c" using c(2) by (auto simp: js_blank_def Let_def)
  then have blank: "dropWhile js_blank ?s = ?s" using c(1) by simp
  have sign: "sign_of ?s = (1, ?s)" using c by auto
  have "x \<notin> {CHR ''x'', CHR ''X''}" if "x \<in> set ?s" for x
    using show_nat_digits [OF that] by auto
  then have radix: "radix_of ?s = (10, ?s)" by (cases ?s rule: radix_of.cases) auto
  have "parseInt ?s = Some (int (nat i))"
    unfolding parseInt_def Let_def blank sign radix prod.case takeWhile_show_nat fold_show_nat
    by (simp add: show_nat_nonempty)
  then show ?thesis using assms by (simp add: show_int_def)
qed

end
