(* ===== verification/AdminClient.thy ===== *)
theory AdminClient
  imports ServerProps JsText
begin

text \<open>
  The administration client, \<open>admin/src/ts\<close>: the requests of \<open>lib/session.ts\<close>, the list of games of
  \<open>lib/game.ts\<close>, the form of \<open>CreateSession.tsx\<close>, the loading of \<open>SessionScreen.tsx\<close> and
  \<open>HomeScreen.tsx\<close>, and what the server's acknowledgements look like when they arrive. A promise is
  its outcome: rejected with a value, or resolved.
\<close>

subsection \<open>Over the wire\<close>

text \<open>
  The arguments of an event travel as a JSON array: \<open>undefined\<close> arrives as \<open>null\<close>, properties that
  are \<open>undefined\<close> are gone.
\<close>

definition wire :: "jsval list \<Rightarrow> jsval list" where
  "wire args = jclone_list args"

text \<open>The parameter \<open>k\<close> of a callback that is called with \<open>args\<close>.\<close>

definition param :: "jsval list \<Rightarrow> nat \<Rightarrow> jsval" where
  "param args k = (if k < length args then args ! k else JUndef)"

definition session_obj :: "session \<Rightarrow> jsval" where
  "session_obj s =
     JObj [(''blueParticipant'', JStr (blueParticipant s)), (''redParticipant'', JStr (redParticipant s)),
           (''grpcPort'', JNum (grpcPort s)), (''murmurPort'', JNum (murmurPort s)),
           (''sessionId'', JNum (sessionId s))]"

text \<open>
  The enumerable own properties of an error, which are what \<open>JSON.stringify\<close> keeps of it: those its
  class sets, and \<open>extra\<close>, what the library that made a plain error has added to it. The message is
  not enumerable.
\<close>

fun err_obj :: "(string \<times> jsval) list \<Rightarrow> err \<Rightarrow> jsval" where
  "err_obj extra (PlainError m) = JObj extra"
| "err_obj extra (DockerError code m) = JObj [(''statusCode'', JNum code), (''name'', JStr ''DockerError'')]"
| "err_obj extra (CreateMurmurError grpc mur sid m) =
     JObj [(''params'', JObj [(''grpcPort'', JNum grpc), (''murmurPort'', JNum mur), (''sessionId'', JNum sid)]),
           (''name'', JStr ''CreateMurmurError'')]"
| "err_obj extra (SessionError s m) = JObj [(''session'', session_obj s), (''name'', JStr ''SessionError'')]"

definition rec_obj :: "string \<times> string \<Rightarrow> jsval" where
  "rec_obj r = JObj [(''name'', JStr (fst r)), (''path'', JStr (snd r))]"

text \<open>The arguments the server calls the acknowledgement with.\<close>

fun ack_args :: "(string \<times> jsval) list \<Rightarrow> message \<Rightarrow> jsval list" where
  "ack_args extra (AckError _ e) = [err_obj extra e]"
| "ack_args extra (AckSession _ s) = [JUndef, session_obj s]"
| "ack_args extra (AckSessions _ ss) = [JUndef, JArr (map session_obj ss)]"
| "ack_args extra (AckRecordings _ rs) = [JUndef, JArr (map rec_obj rs)]"
| "ack_args extra _ = []"

subsection \<open>Requests\<close>

text \<open>What a promise is rejected with: a value the server sent, or an \<open>Error\<close> made here.\<close>

datatype reason = FromServer jsval | LocalError string

type_synonym promise = "reason + jsval"

fun truthy :: "jsval \<Rightarrow> bool" where
  "truthy JUndef = False"
| "truthy JNull = False"
| "truthy (JBool b) = b"
| "truthy (JNum n) = (n \<noteq> 0)"
| "truthy (JStr s) = (s \<noteq> [])"
| "truthy _ = True"

definition getSessions_ack :: "jsval list \<Rightarrow> promise" where
  "getSessions_ack args =
     (let err = param args 0; sessions = param args 1
      in if truthy err then Inl (FromServer err)
         else if sessions = JUndef
         then Inl (LocalError ''get_sessions call returned undefined. Server error.'')
         else Inr sessions)"

definition createSession_ack :: "jsval list \<Rightarrow> promise" where
  "createSession_ack args =
     (let err = param args 0; session = param args 1
      in if truthy err then Inl (FromServer err)
         else if session = JUndef
         then Inl (LocalError ''create_session call returned undefined. Server Error.'')
         else Inr session)"

definition deleteSession_ack :: "jsval list \<Rightarrow> promise" where
  "deleteSession_ack args =
     (let err = param args 0 in if truthy err then Inl (FromServer err) else Inr JNull)"

text \<open>\<open>sessions.find(...)\<close> on the sessions a request resolves with.\<close>

definition getSessionData :: "int \<Rightarrow> jsval list \<Rightarrow> promise" where
  "getSessionData sid args =
     bindR (getSessions_ack args) (\<lambda>sessions.
       case sessions of
         JArr xs \<Rightarrow> Inr (case List.find (\<lambda>sess. fld sess ''sessionId'' = JNum sid) xs of
                           None \<Rightarrow> JUndef | Some x \<Rightarrow> x)
       | _ \<Rightarrow> Inl (LocalError ''sessions.find is not a function''))"

definition getSessionRecordings_ack :: "jsval list \<Rightarrow> promise" where
  "getSessionRecordings_ack args =
     (let err = param args 0; recordings = param args 1
      in if err \<noteq> JNull then Inl (FromServer err)
         else if recordings = JUndef
         then Inl (LocalError ''Undefined error while getting session recordings.'')
         else Inr recordings)"

lemmas ack_defs =
  getSessions_ack_def createSession_ack_def deleteSession_ack_def getSessionRecordings_ack_def Let_def

subsection \<open>The list of games\<close>

text \<open>\<open>lib/game.ts\<close>: the list starts with what \<open>init\<close> brings; a state replaces the game of its id.\<close>

definition games_init :: "game_data list \<Rightarrow> game_data list" where
  "games_init newGames = newGames"

definition games_state :: "game_data \<Rightarrow> game_data list \<Rightarrow> game_data list" where
  "games_state gd games =
     (let index = find_index (\<lambda>g. gd_gameId g = gd_gameId gd) games
      in if index \<noteq> -1 then games[nat index := gd] else games @ [gd])"

text \<open>It is the server's store of games in memory over again, with the state as the value.\<close>

lemma games_state_mem_set: "games_state = mem_set gd_gameId"
  by (simp add: games_state_def mem_set_def fun_eq_iff)

lemma games_states_last:
  assumes "mem_ok gd_gameId games"
  shows "mem_get gd_gameId gid (fold games_state gds games) =
    (case List.find (\<lambda>g. gd_gameId g = gid) (rev gds) of
       Some gd \<Rightarrow> Some gd | None \<Rightarrow> mem_get gd_gameId gid games)"
  unfolding games_state_mem_set by (rule mem.get_puts [OF assms])

subsection \<open>The form for a new session\<close>

record form =
  f_blue :: string
  f_red :: string
  f_error :: string
  f_grpcPort :: "int option"
  f_murmurPort :: "int option"

definition form_init :: form where
  "form_init = \<lparr>f_blue = [], f_red = [], f_error = [], f_grpcPort = None, f_murmurPort = None\<rparr>"

datatype form_input = ChangeBlue string | ChangeRed string | ChangeMurmurPort string | ChangeGrpcPort string

fun form_change :: "form_input \<Rightarrow> form \<Rightarrow> form" where
  "form_change (ChangeBlue v) f = f\<lparr>f_blue := v\<rparr>"
| "form_change (ChangeRed v) f = f\<lparr>f_red := v\<rparr>"
| "form_change (ChangeMurmurPort v) f = f\<lparr>f_murmurPort := parseInt v\<rparr>"
| "form_change (ChangeGrpcPort v) f = f\<lparr>f_grpcPort := parseInt v\<rparr>"

definition form_params :: "form \<Rightarrow> jsval" where
  "form_params f =
     JObj [(''blueParticipant'', JStr (f_blue f)), (''redParticipant'', JStr (f_red f)),
           (''grpcPort'', opt_js (map_option JNum (f_grpcPort f))),
           (''murmurPort'', opt_js (map_option JNum (f_murmurPort f)))]"

text \<open>
  The end of \<open>onCreateSession\<close>: the form afterwards, and the route it goes to. What the server rejects
  with is no \<open>Error\<close> any more once it has arrived.
\<close>

definition form_created :: "promise \<Rightarrow> form \<Rightarrow> form \<times> string option" where
  "form_created res f =
     (case res of
        Inr _ \<Rightarrow> (f, Some ''#home'')
      | Inl (LocalError m) \<Rightarrow> (f\<lparr>f_error := m\<rparr>, None)
      | Inl (FromServer _) \<Rightarrow> (f\<lparr>f_error := ''Unknown error returned by createSession.''\<rparr>, None))"

subsection \<open>What the server receives of a form\<close>

fun entries :: "jsval \<Rightarrow> (string \<times> jsval) list" where
  "entries (JObj kvs) = kvs"
| "entries _ = []"

lemma wire_defined:
  assumes "(k, v) \<in> set (entries (param (wire args) n))"
  shows "v \<noteq> JUndef"
proof -
  have "list_all pure_json (wire args)" unfolding wire_def by (rule pure_jclone(2))
  then have "pure_json (param (wire args) n) \<or> param (wire args) n = JUndef"
    by (auto simp: param_def list_all_length)
  then show ?thesis using assms
    by (cases "param (wire args) n") (auto simp: list_all_iff)
qed

definition form_session :: "form \<Rightarrow> session" where
  "form_session f =
     \<lparr>sessionId = 0, blueParticipant = f_blue f, redParticipant = f_red f,
      murmurPort = the (f_murmurPort f), grpcPort = the (f_grpcPort f)\<rparr>"

lemma form_received:
  assumes "f_grpcPort f = Some g" "f_murmurPort f = Some m"
  shows "set (entries (param (wire [form_params f]) 0)) = set (session_params (form_session f))"
  using assms by (auto simp: wire_def param_def form_params_def session_params_def form_session_def opt_js_def)

lemma admin_create_session_sends:
  "admin_create_session sk p s =
    (case createSession p (sw s) of
       (Inl e, w) \<Rightarrow> send (AckError sk e) (s\<lparr>sw := w\<rparr>)
     | (Inr x, w) \<Rightarrow> send (AckSession sk x) (s\<lparr>sw := w\<rparr>))"
proof -
  have "validateCreateSessionParams (session_params p) = Inr (session_params p)"
    by (simp add: validateCreateSessionParams_def validateCheckUndefined_def session_params_def)
  then show ?thesis
    by (simp add: admin_create_session_def fork_fut_def fchain_def split: prod.split sum.split)
qed

lemma err_obj_obj: "\<exists>kvs. err_obj extra e = JObj kvs"
  by (cases e) simp_all

lemma rejected_by_server:
  "createSession_ack (wire [err_obj extra e]) = Inl (FromServer (param (wire [err_obj extra e]) 0))"
proof -
  obtain kvs where "err_obj extra e = JObj kvs" using err_obj_obj by blast
  then show ?thesis by (simp add: wire_def ack_defs param_def)
qed

lemma form_outcome:
  assumes "server_inv (sw s)"
    and "unreferenced (next_rowid (map sessionId (t_session (db (sw s))))) (db (sw s))"
  shows "\<exists>msg. sent (admin_create_session sk p s) = sent s @ [msg] \<and>
    (let after = form_created (createSession_ack (wire (ack_args extra msg))) f
     in after = (f, Some ''#home'') \<and> (\<exists>x. session_created x (sw s) (sw (admin_create_session sk p s)))
      \<or> after = (f\<lparr>f_error := ''Unknown error returned by createSession.''\<rparr>, None)
         \<and> db (sw (admin_create_session sk p s)) = db (sw s))"
proof -
  obtain r w where run: "createSession p (sw s) = (r, w)" by fastforce
  note out = createSession_outcome [OF assms run]
  show ?thesis
  proof (cases r)
    case (Inl e)
    have "form_created (createSession_ack (wire (ack_args extra (AckError sk e)))) f
        = (f\<lparr>f_error := ''Unknown error returned by createSession.''\<rparr>, None)"
      by (simp add: rejected_by_server form_created_def)
    then show ?thesis using out run Inl by (simp add: admin_create_session_sends send_def)
  next
    case (Inr x)
    have "form_created (createSession_ack (wire (ack_args extra (AckSession sk x)))) f = (f, Some ''#home'')"
      by (simp add: wire_def ack_defs param_def session_obj_def form_created_def)
    then show ?thesis using out run Inr by (auto simp: admin_create_session_sends send_def)
  qed
qed

subsection \<open>What an administrator sees of the games\<close>

lemma find_map: "List.find P (map f xs) = map_option f (List.find (\<lambda>x. P (f x)) xs)"
  by (induction xs) simp_all

lemma mem_get_states:
  "mem_get gd_gameId gid (map (\<lambda>i. state (objs w ! i)) ms) =
    map_option (\<lambda>i. state (objs w ! i)) (mem_get (game_key w) gid ms)"
  by (simp add: mem_get_def find_map game_key_def state_def)

lemma mem_ok_states:
  "mem_ok (game_key w) ms \<Longrightarrow> mem_ok gd_gameId (map (\<lambda>i. state (objs w ! i)) ms)"
  by (simp add: mem_ok_def comp_def game_key_def [abs_def] state_def)

lemma listen_all_keeps:
  "l \<in> set (subs (cbMap (objs w ! i)) ev) \<Longrightarrow> i < length (objs w) \<Longrightarrow>
    l \<in> set (subs (cbMap (objs (listen_all is sk w) ! i)) ev)"
proof (induction "is" arbitrary: w)
  case (Cons j js)
  have "l \<in> set (subs (cbMap (objs (listen j EvState (AdminListener sk) w) ! i)) ev)"
    using Cons.prems by (cases "i = j") (auto simp: listen_def ev.listeners_reg)
  then show ?case using Cons.IH [of "listen j EvState (AdminListener sk) w"] Cons.prems(2) by simp
qed simp

lemma listen_all_subs:
  "i \<in> set is \<Longrightarrow> i < length (objs w) \<Longrightarrow>
    AdminListener sk \<in> set (subs (cbMap (objs (listen_all is sk w) ! i)) EvState)"
proof (induction "is" arbitrary: w)
  case (Cons j js)
  let ?w1 = "listen j EvState (AdminListener sk) w"
  show ?case
  proof (cases "i = j")
    case True
    have "AdminListener sk \<in> set (subs (cbMap (objs ?w1 ! i)) EvState)"
      using True Cons.prems(2) by (simp add: listen_def ev.listeners_reg)
    then show ?thesis using listen_all_keeps [of _ ?w1 i] Cons.prems(2) by simp
  next
    case False
    then show ?thesis using Cons.IH [of ?w1] Cons.prems by simp
  qed
qed simp

lemma admin_connect_run:
  assumes inv: "server_inv (sw s)"
  shows "\<exists>gds. sent (admin_connect sk s) = sent s @ [InitMsg sk gds]
    \<and> (\<forall>gid. mem_get gd_gameId gid (fold games_state later (games_init gds)) =
         (case List.find (\<lambda>g. gd_gameId g = gid) (rev later) of
            Some gd \<Rightarrow> Some gd
          | None \<Rightarrow> (case getGame gid (sw s) of Inr i \<Rightarrow> Some (state (objs (sw s) ! i)) | Inl _ \<Rightarrow> None)))
    \<and> (\<forall>i \<in> set (memGames (sw s)).
         AdminListener sk \<in> set (subs (cbMap (objs (sw (admin_connect sk s)) ! i)) EvState))"
proof -
  let ?gds = "map (\<lambda>i. state (objs (sw s) ! i)) (memGames (sw s))"
  have "mem_ok gd_gameId ?gds" by (rule mem_ok_states [OF world_mem_ok [OF server_invD(1) [OF inv]]])
  then have "mem_get gd_gameId gid (fold games_state later (games_init ?gds)) =
         (case List.find (\<lambda>g. gd_gameId g = gid) (rev later) of
            Some gd \<Rightarrow> Some gd
          | None \<Rightarrow> (case getGame gid (sw s) of Inr i \<Rightarrow> Some (state (objs (sw s) ! i)) | Inl _ \<Rightarrow> None))" for gid
    by (auto simp: games_states_last games_init_def mem_get_states getGame_def split: option.split)
  moreover have "\<forall>i \<in> set (memGames (sw s)).
      AdminListener sk \<in> set (subs (cbMap (objs (sw (admin_connect sk s)) ! i)) EvState)"
    using listen_all_subs games_inv_parts(3) [OF server_invD(2) [OF inv]]
    by (simp add: admin_connect_def getGames_def Let_def)
  ultimately show ?thesis
    by (intro exI [of _ ?gds] conjI allI) (simp_all add: admin_connect_def getGames_def Let_def send_def)
qed

subsection \<open>The screen of a session\<close>

text \<open>
  \<open>SessionScreen\<close>: each run of its effect loads the session and the recordings of the id the screen has
  then; \<open>run_unloaded\<close> is the variable of the run that its cleanup sets.
\<close>

record screen_state =
  ss_session :: jsval
  ss_loading :: bool
  ss_recordings :: jsval

record effect_run =
  run_sessionId :: int
  run_unloaded :: bool

record session_screen =
  scr_state :: screen_state
  scr_sessionId :: int
  scr_runs :: "effect_run list"

definition new_run :: "int \<Rightarrow> effect_run" where
  "new_run sid = \<lparr>run_sessionId = sid, run_unloaded = False\<rparr>"

definition screen_mount :: "int \<Rightarrow> session_screen" where
  "screen_mount sid =
     \<lparr>scr_state = \<lparr>ss_session = JUndef, ss_loading = True, ss_recordings = JArr []\<rparr>,
      scr_sessionId = sid, scr_runs = [new_run sid]\<rparr>"

definition unload :: "effect_run list \<Rightarrow> effect_run list" where
  "unload runs = (if runs = [] then [] else butlast runs @ [(last runs)\<lparr>run_unloaded := True\<rparr>])"

text \<open>
  The effect of another id: React runs the cleanup of the former effect and then the effect, in one go, some time
  after it has rendered and painted the component with that id. The id of the screen is that of its
  last effect.
\<close>

definition screen_show :: "int \<Rightarrow> session_screen \<Rightarrow> session_screen" where
  "screen_show sid m =
     (if sid = scr_sessionId m then m
      else m\<lparr>scr_sessionId := sid, scr_runs := unload (scr_runs m) @ [new_run sid]\<rparr>)"

definition populateSessionData :: "nat \<Rightarrow> promise \<Rightarrow> session_screen \<Rightarrow> session_screen" where
  "populateSessionData k res m =
     (case res of
        Inl _ \<Rightarrow> m
      | Inr session \<Rightarrow>
          if run_unloaded (scr_runs m ! k) then m
          else m\<lparr>scr_state := (scr_state m)\<lparr>ss_loading := False, ss_session := session\<rparr>\<rparr>)"

definition populateRecordings :: "nat \<Rightarrow> promise \<Rightarrow> session_screen \<Rightarrow> session_screen" where
  "populateRecordings k res m =
     (case res of
        Inl _ \<Rightarrow> m
      | Inr recordings \<Rightarrow>
          if run_unloaded (scr_runs m ! k) then m
          else m\<lparr>scr_state := (scr_state m)\<lparr>ss_loading := False, ss_recordings := recordings\<rparr>\<rparr>)"

definition screen_unmount :: "session_screen \<Rightarrow> session_screen" where
  "screen_unmount m = m\<lparr>scr_runs := unload (scr_runs m)\<rparr>"

text \<open>The id \<open>onDelete\<close> asks to delete.\<close>

definition onDelete :: "session_screen \<Rightarrow> jsval option" where
  "onDelete m =
     (if ss_session (scr_state m) = JUndef then None
      else Some (fld (ss_session (scr_state m)) ''sessionId''))"

datatype session_view = ViewLoading | ViewNotFound | ViewSession jsval jsval

definition view_session :: "session_screen \<Rightarrow> session_view" where
  "view_session m =
     (if ss_loading (scr_state m) then ViewLoading
      else if ss_session (scr_state m) = JUndef then ViewNotFound
      else ViewSession (ss_session (scr_state m)) (ss_recordings (scr_state m)))"

text \<open>
  What can happen to a mounted screen; the answers to a run's requests are answers for the id of that
  run, and come in any order and at any time.
\<close>

inductive screen_reaches :: "session_screen \<Rightarrow> bool" where
  mount: "screen_reaches (screen_mount sid)"
| reshow: "screen_reaches m \<Longrightarrow> screen_reaches (screen_show sid m)"
| session_data: "screen_reaches m \<Longrightarrow> k < length (scr_runs m) \<Longrightarrow>
    screen_reaches (populateSessionData k (getSessionData (run_sessionId (scr_runs m ! k)) args) m)"
| recordings: "screen_reaches m \<Longrightarrow> k < length (scr_runs m) \<Longrightarrow>
    screen_reaches (populateRecordings k (getSessionRecordings_ack args) m)"

lemma populate_frame [simp]:
  "scr_runs (populateSessionData k r m) = scr_runs m" "scr_sessionId (populateSessionData k r m) = scr_sessionId m"
  "scr_runs (populateRecordings k r m) = scr_runs m" "scr_sessionId (populateRecordings k r m) = scr_sessionId m"
  by (auto simp: populateSessionData_def populateRecordings_def split: sum.split)

text \<open>Only the last run is still listening, and it is for the id that is shown.\<close>

definition runs_ok :: "session_screen \<Rightarrow> bool" where
  "runs_ok m \<longleftrightarrow>
     scr_runs m \<noteq> [] \<and> run_sessionId (last (scr_runs m)) = scr_sessionId m
     \<and> (\<forall>k. Suc k < length (scr_runs m) \<longrightarrow> run_unloaded (scr_runs m ! k))"

lemma unload_nth:
  "k < length runs \<Longrightarrow> unload runs ! k = (if Suc k = length runs then (runs ! k)\<lparr>run_unloaded := True\<rparr> else runs ! k)"
proof -
  assume k: "k < length runs"
  then have ne: "runs \<noteq> []" by auto
  show ?thesis
  proof (cases "Suc k = length runs")
    case True
    then have "k = length runs - 1" by simp
    then show ?thesis using True ne by (simp add: unload_def nth_append last_conv_nth)
  next
    case False
    then show ?thesis using k ne by (simp add: unload_def nth_append nth_butlast)
  qed
qed

lemma length_unload [simp]: "length (unload runs) = length runs"
  by (simp add: unload_def)

lemma screen_runs_ok: "screen_reaches m \<Longrightarrow> runs_ok m"
proof (induction rule: screen_reaches.induct)
  case (mount sid)
  then show ?case by (simp add: runs_ok_def screen_mount_def new_run_def)
next
  case (reshow m sid)
  have "run_unloaded ((unload (scr_runs m) @ [new_run sid]) ! k)" if "k < length (scr_runs m)" for k
    using reshow.IH that by (auto simp: runs_ok_def nth_append unload_nth)
  then show ?case using reshow.IH by (auto simp: runs_ok_def screen_show_def new_run_def)
qed (simp_all add: runs_ok_def)

lemma getSessionData_id:
  assumes "getSessionData sid args = Inr v"
  shows "v = JUndef \<or> fld v ''sessionId'' = JNum sid"
  using assms
proof -
  obtain xs where "v = (case List.find (\<lambda>sess. fld sess ''sessionId'' = JNum sid) xs of None \<Rightarrow> JUndef | Some x \<Rightarrow> x)"
  proof (cases "getSessions_ack args")
    case (Inr a)
    then show thesis using assms that by (cases a) (auto simp: getSessionData_def)
  qed (use assms in \<open>simp add: getSessionData_def\<close>)
  then show ?thesis by (auto simp: find_Some_iff split: option.splits)
qed

lemma accepted_run:
  assumes "screen_reaches m" "k < length (scr_runs m)" "\<not> run_unloaded (scr_runs m ! k)"
  shows "run_sessionId (scr_runs m ! k) = scr_sessionId m"
proof -
  have ok: "runs_ok m" by (rule screen_runs_ok [OF assms(1)])
  then have "\<not> Suc k < length (scr_runs m)" using assms(3) by (auto simp: runs_ok_def)
  then have k: "k = length (scr_runs m) - 1" using assms(2) by simp
  have "last (scr_runs m) = scr_runs m ! k" unfolding k using ok by (intro last_conv_nth) (simp add: runs_ok_def)
  then show ?thesis using ok by (simp add: runs_ok_def)
qed

lemma stale_answers:
  assumes "screen_reaches m" "k < length (scr_runs m)"
    and m': "m' = populateSessionData k (getSessionData (run_sessionId (scr_runs m ! k)) args) m"
  shows "m' = m \<or> run_sessionId (scr_runs m ! k) = scr_sessionId m
      \<and> (ss_session (scr_state m') = JUndef \<or> fld (ss_session (scr_state m')) ''sessionId'' = JNum (scr_sessionId m))"
    and "populateRecordings k res m = m \<or> run_sessionId (scr_runs m ! k) = scr_sessionId m"
proof -
  note run = accepted_run [OF assms(1,2)]
  show "m' = m \<or> run_sessionId (scr_runs m ! k) = scr_sessionId m
      \<and> (ss_session (scr_state m') = JUndef \<or> fld (ss_session (scr_state m')) ''sessionId'' = JNum (scr_sessionId m))"
  proof (cases "getSessionData (run_sessionId (scr_runs m ! k)) args")
    case (Inr v)
    then show ?thesis using run getSessionData_id [OF Inr] by (auto simp: m' populateSessionData_def)
  qed (simp add: m' populateSessionData_def)
  show "populateRecordings k res m = m \<or> run_sessionId (scr_runs m ! k) = scr_sessionId m"
    using run by (auto simp: populateRecordings_def split: sum.split)
qed

text \<open>What is shown, and what the button asks to delete, is a session whose id the screen has had.\<close>

lemma unload_ids [simp]: "map run_sessionId (unload runs) = map run_sessionId runs"
  by (cases runs rule: rev_cases) (simp_all add: unload_def)

lemma screen_session_shown:
  assumes "screen_reaches m"
  shows "ss_session (scr_state m) = JUndef
    \<or> (\<exists>sid \<in> set (map run_sessionId (scr_runs m)). fld (ss_session (scr_state m)) ''sessionId'' = JNum sid)"
  using assms
proof (induction rule: screen_reaches.induct)
  case (mount sid)
  then show ?case by (simp add: screen_mount_def)
next
  case (reshow m sid)
  then show ?case by (auto simp: screen_show_def simp del: set_map)
next
  case (session_data m k args)
  show ?case
  proof (cases "getSessionData (run_sessionId (scr_runs m ! k)) args")
    case (Inr v)
    have "run_sessionId (scr_runs m ! k) \<in> set (map run_sessionId (scr_runs m))"
      using session_data.hyps(2) by simp
    then show ?thesis using getSessionData_id [OF Inr] session_data.IH Inr
      by (auto simp: populateSessionData_def simp del: set_map)
  qed (use session_data.IH in \<open>simp add: populateSessionData_def\<close>)
next
  case (recordings m k args)
  then show ?case by (auto simp: populateRecordings_def split: sum.split)
qed

text \<open>Nothing that arrives has a property that is \<open>undefined\<close>: the validation has nothing to find.\<close>

lemma validation_passes:
  "validateCreateSessionParams (entries (param (wire args) n)) = Inr (entries (param (wire args) n))"
proof -
  have "filter (\<lambda>(_, v). v = JUndef) (entries (param (wire args) n)) = []"
    using wire_defined [of _ _ args n] by (auto simp: filter_empty_conv)
  then show ?thesis by (simp add: validateCreateSessionParams_def validateCheckUndefined_def)
qed

subsection \<open>The list of sessions and the status bar\<close>

record home_screen =
  hs_sessions :: jsval
  hs_loading :: bool

definition home_init :: home_screen where
  "home_init = \<lparr>hs_sessions = JArr [], hs_loading = True\<rparr>"

text \<open>\<open>fetchSessions\<close>: a rejection ends it where it waits; what the promise resolves with is never an \<open>Error\<close>.\<close>

definition fetchSessions :: "promise \<Rightarrow> home_screen \<Rightarrow> home_screen" where
  "fetchSessions res h =
     (case res of Inl _ \<Rightarrow> h | Inr sessions \<Rightarrow> h\<lparr>hs_sessions := sessions, hs_loading := False\<rparr>)"

text \<open>\<open>StatusBar\<close>: the warning, and the timer that takes it away; the clock is the browser's.\<close>

datatype bar_act = ClearWarning

record status_bar =
  warning :: string
  warnTimeout :: "nat option"

definition onErrorCb :: "string \<Rightarrow> status_bar \<times> bar_act clock \<Rightarrow> status_bar \<times> bar_act clock" where
  "onErrorCb msg s =
     (let (b, c) = s;
          (t, c1) = setTimeout ClearWarning 5000 (clearTimeout (warnTimeout b) c)
      in (b\<lparr>warning := msg, warnTimeout := Some t\<rparr>, c1))"

fun bar_fire :: "bar_act \<Rightarrow> status_bar \<Rightarrow> status_bar" where
  "bar_fire ClearWarning b = b\<lparr>warning := []\<rparr>"

definition connectionError :: "string \<Rightarrow> string" where
  "connectionError msg = ''Connection Error: '' @ msg"

text \<open>However many errors there have been, only the last one's timer is waiting.\<close>

lemma bar_one_timer:
  assumes "clock_ok c" "waiting c \<subseteq> {(t, ClearWarning) | t. warnTimeout b = Some t}"
    and "onErrorCb msg (b, c) = (b', c')"
  shows "warning b' = msg \<and> (\<exists>t. warnTimeout b' = Some t \<and> waiting c' = {(t, ClearWarning)}) \<and> clock_ok c'"
proof -
  have run: "(case tm.restart (warnTimeout b) ClearWarning 5000 c of (t, c1) \<Rightarrow>
      (b\<lparr>warning := msg, warnTimeout := Some t\<rparr>, c1)) = (b', c')"
    using assms(3) by (simp add: onErrorCb_def tm.restart_def)
  obtain t c1 where r: "tm.restart (warnTimeout b) ClearWarning 5000 c = (t, c1)" by fastforce
  have "waiting c1 = {(t, ClearWarning)}"
  proof (cases "warnTimeout b")
    case None
    then have "waiting c = {}" using assms(2) by auto
    then show ?thesis using r tm.start_live [OF assms(1), of ClearWarning 5000] None
      by (simp add: tm.restart_def tm.stop_none)
  next
    case (Some i)
    then have none: "{p \<in> waiting c. fst p \<noteq> i} = {}" using assms(2) by auto
    show ?thesis using tm.restart_live [OF assms(1), of i ClearWarning 5000] r Some unfolding none by simp
  qed
  moreover have "clock_ok c1" using tm.restart_ok [OF assms(1), of "warnTimeout b" ClearWarning 5000] r by simp
  ultimately show ?thesis using run r by auto
qed

end
