(* ===== verification/Commands.thy ===== *)
theory Commands
  imports JsText GameTypes
begin

text \<open>
  What the server writes and runs: the lines of its log (\<open>lib/log.ts\<close>), \<open>execF\<close> (\<open>lib/util.ts\<close>), the
  \<open>mumble-cli\<close> commands an attack runs when it is launched and lifted (\<open>lib/attacklib.ts\<close>), and the
  port it is told to listen on (\<open>main.ts\<close>). The shell is a parameter: what it makes of a command after
  the commands before it.
\<close>

subsection \<open>The log\<close>

datatype LogColor = Red | Default

fun color_code :: "LogColor \<Rightarrow> string" where
  "color_code Red = ''31''"
| "color_code Default = ''39''"

definition ansiColor :: "LogColor \<Rightarrow> string \<Rightarrow> string" where
  "ansiColor color txt =
     (let esc = [char_of (27 :: nat)];
          startSeq = esc @ ''['' @ color_code color @ ''m'';
          endSeq = esc @ ''[39m''
      in startSeq @ txt @ endSeq)"

definition logJoin :: "string list \<Rightarrow> string" where
  "logJoin args = join_with '':'' args"

datatype log_arg = LogStr string | LogNum int | LogUndefined | LogNull

fun arg_string :: "log_arg \<Rightarrow> string" where
  "arg_string (LogStr s) = s"
| "arg_string (LogNum n) = show_int n"
| "arg_string _ = []"

definition stringifyArgs :: "log_arg list \<Rightarrow> string list" where
  "stringifyArgs args = map arg_string (filter (\<lambda>x. x \<noteq> LogUndefined \<and> x \<noteq> LogNull) args)"

definition formatMessage :: "string \<Rightarrow> int \<Rightarrow> string \<Rightarrow> LogColor \<Rightarrow> string list \<Rightarrow> string" where
  "formatMessage ns timestamp levelLabel color args =
     ansiColor color (logJoin ([levelLabel, show_int timestamp, ns] @ args))"

definition log_line :: "string \<Rightarrow> int \<Rightarrow> log_arg list \<Rightarrow> string" where
  "log_line ns timestamp args = formatMessage ns timestamp ''I'' Default (stringifyArgs args)"

definition error_line :: "string \<Rightarrow> int \<Rightarrow> log_arg list \<Rightarrow> string" where
  "error_line ns timestamp args = formatMessage ns timestamp ''E'' Red (stringifyArgs args)"

text \<open>A line can be taken apart again when nothing that is logged has a colon.\<close>

lemma logJoin_split: "args \<noteq> [] \<Longrightarrow> \<forall>a \<in> set args. CHR '':'' \<notin> set a \<Longrightarrow> split_on CHR '':'' (logJoin args) = args"
  by (simp add: logJoin_def split_on_join)

subsection \<open>Commands\<close>

record exec_result =
  exec_err :: "string option"
  stdout :: string
  stderr :: string

definition execF :: "exec_result \<Rightarrow> string + string" where
  "execF r =
     (case exec_err r of
        Some m \<Rightarrow> Inl m
      | None \<Rightarrow> if 0 < length (stderr r) then Inl (stderr r) else Inr (stdout r))"

definition mute_command :: "attack \<Rightarrow> int \<Rightarrow> string" where
  "mute_command a port = ''mumble-cli 127.0.0.1:'' @ show_int port @ '' shadowmute -s 1 -t '' @ sourceUser a"

definition spoof_command :: "attack \<Rightarrow> int \<Rightarrow> string" where
  "spoof_command a port =
     ''mumble-cli 127.0.0.1:'' @ show_int port @ '' spoof -s 1 -u '' @ sourceUser a
       @ '' -f '' @ audioPath a @ '' -r 16000''"

definition unmute_command :: "attack \<Rightarrow> int \<Rightarrow> string" where
  "unmute_command a port = mute_command a port @ '' -u''"

text \<open>The commands that are run, and the arguments of \<open>log\<close> (right) or \<open>error\<close> (left) at the end.\<close>

type_synonym shell = "string list \<Rightarrow> string \<Rightarrow> exec_result"

definition command_outcome :: "attack \<Rightarrow> string + string \<Rightarrow> log_arg list + log_arg list" where
  "command_outcome a r =
     (case r of
        Inl m \<Rightarrow> Inl [LogNum (attackId a), LogStr m]
      | Inr txt \<Rightarrow> Inr [LogNum (attackId a), LogStr ''ok'', LogStr (js_trim txt)])"

definition launch_attack :: "shell \<Rightarrow> attack \<Rightarrow> int \<Rightarrow> string list \<times> (log_arg list + log_arg list)" where
  "launch_attack sh a port =
     (let mute = mute_command a port; spoof = spoof_command a port
      in case execF (sh [] mute) of
           Inl m \<Rightarrow> ([mute], command_outcome a (Inl m))
         | Inr _ \<Rightarrow> ([mute, spoof], command_outcome a (execF (sh [mute] spoof))))"

definition unmute_attack :: "shell \<Rightarrow> attack \<Rightarrow> int \<Rightarrow> string list \<times> (log_arg list + log_arg list)" where
  "unmute_attack sh a port =
     (let unmute = unmute_command a port in ([unmute], command_outcome a (execF (sh [] unmute))))"

text \<open>The voice is only imitated when its owner has been muted.\<close>

lemma spoof_after_mute:
  "spoof_command a port \<in> set (fst (launch_attack sh a port)) \<longleftrightarrow>
     (\<exists>txt. execF (sh [] (mute_command a port)) = Inr txt)"
  by (auto simp: launch_attack_def Let_def mute_command_def spoof_command_def split: sum.split)

text \<open>
  How a POSIX shell splits a command that has only blanks and characters without a meaning of their
  own: participant ids and paths with other characters are not passed on as they are.
\<close>

definition shell_safe :: "char \<Rightarrow> bool" where
  "shell_safe c \<longleftrightarrow>
     (let n = of_char c :: nat
      in 48 \<le> n \<and> n \<le> 57 \<or> 65 \<le> n \<and> n \<le> 90 \<or> 97 \<le> n \<and> n \<le> 122
         \<or> c \<in> {CHR ''.'', CHR ''_'', CHR ''/'', CHR '':'', CHR ''-''})"

definition safe_word :: "string \<Rightarrow> bool" where
  "safe_word s \<longleftrightarrow> s \<noteq> [] \<and> list_all shell_safe s"

definition shell_words :: "string \<Rightarrow> string list option" where
  "shell_words c =
     (if list_all (\<lambda>x. x = CHR '' '' \<or> shell_safe x) c
      then Some (filter (\<lambda>w. w \<noteq> []) (split_on CHR '' '' c)) else None)"

lemma safe_no_blank: "safe_word s \<Longrightarrow> CHR '' '' \<notin> set s"
  by (auto simp: safe_word_def list_all_iff shell_safe_def Let_def)

lemma shell_words_join:
  assumes "ws \<noteq> []" "list_all safe_word ws"
  shows "shell_words (join_with '' '' ws) = Some ws"
proof -
  have "list_all (\<lambda>x. x = CHR '' '' \<or> shell_safe x) (join_with '' '' ws)" using assms(2)
    by (induction "'' ''" ws rule: join_with.induct) (auto simp: safe_word_def list_all_iff)
  moreover have "split_on CHR '' '' (join_with '' '' ws) = ws"
    using assms safe_no_blank by (intro split_on_join) (auto simp: list_all_iff)
  moreover have "filter (\<lambda>w. w \<noteq> []) ws = ws" using assms(2) by (auto simp: safe_word_def list_all_iff intro: filter_True)
  ultimately show ?thesis by (simp add: shell_words_def)
qed

lemma show_int_safe: "safe_word (show_int i)"
proof -
  have digit: "shell_safe c" if "c \<in> set (show_nat n)" for c n
    using show_nat_digits [OF that] by (auto simp: shell_safe_def Let_def)
  then show ?thesis
    by (auto simp: safe_word_def list_all_iff show_int_def show_nat_nonempty) (simp add: shell_safe_def)
qed

lemma safe_append: "safe_word s \<Longrightarrow> list_all shell_safe t \<Longrightarrow> safe_word (t @ s)"
  by (simp add: safe_word_def)

lemma attack_commands_words:
  assumes "safe_word (sourceUser a)" "safe_word (audioPath a)"
  shows "shell_words (mute_command a port) =
      Some [''mumble-cli'', ''127.0.0.1:'' @ show_int port, ''shadowmute'', ''-s'', ''1'', ''-t'', sourceUser a]"
    and "shell_words (unmute_command a port) =
      Some [''mumble-cli'', ''127.0.0.1:'' @ show_int port, ''shadowmute'', ''-s'', ''1'', ''-t'', sourceUser a, ''-u'']"
    and "shell_words (spoof_command a port) =
      Some [''mumble-cli'', ''127.0.0.1:'' @ show_int port, ''spoof'', ''-s'', ''1'', ''-u'', sourceUser a,
            ''-f'', audioPath a, ''-r'', ''16000'']"
proof -
  have host: "safe_word (''127.0.0.1:'' @ show_int port)"
    using show_int_safe by (rule safe_append) (simp add: shell_safe_def)
  have lits: "safe_word ''mumble-cli''" "safe_word ''shadowmute''" "safe_word ''spoof''" "safe_word ''-s''"
    "safe_word ''1''" "safe_word ''-t''" "safe_word ''-u''" "safe_word ''-f''" "safe_word ''-r''" "safe_word ''16000''"
    by (simp_all add: safe_word_def shell_safe_def)
  note words = host lits assms
  show "shell_words (mute_command a port) =
      Some [''mumble-cli'', ''127.0.0.1:'' @ show_int port, ''shadowmute'', ''-s'', ''1'', ''-t'', sourceUser a]"
    by (subst shell_words_join [symmetric]) (use words in \<open>simp_all add: mute_command_def\<close>)
  show "shell_words (unmute_command a port) =
      Some [''mumble-cli'', ''127.0.0.1:'' @ show_int port, ''shadowmute'', ''-s'', ''1'', ''-t'', sourceUser a, ''-u'']"
    by (subst shell_words_join [symmetric]) (use words in \<open>simp_all add: mute_command_def unmute_command_def\<close>)
  show "shell_words (spoof_command a port) =
      Some [''mumble-cli'', ''127.0.0.1:'' @ show_int port, ''spoof'', ''-s'', ''1'', ''-u'', sourceUser a,
            ''-f'', audioPath a, ''-r'', ''16000'']"
    by (subst shell_words_join [symmetric]) (use words in \<open>simp_all add: spoof_command_def\<close>)
qed

subsection \<open>The port of the server\<close>

text \<open>\<open>None\<close> is the error the module raises when the variable is missing or not a number.\<close>

definition wsPort :: "string option \<Rightarrow> int option" where
  "wsPort env = parseInt (case env of Some s \<Rightarrow> s | None \<Rightarrow> [])"

lemma wsPort_missing: "wsPort None = None" "wsPort (Some []) = None"
  by (simp_all add: wsPort_def parseInt_def)

lemma wsPort_given: "0 \<le> p \<Longrightarrow> wsPort (Some (show_int p)) = Some p"
  by (simp add: wsPort_def parseInt_show)

end
