(* ===== verification/Screens.thy ===== *)
theory Screens
  imports ClientGame AdminClient Commands
begin

text \<open>
  The rest of the two clients: the routes of both (\<open>lib/router.ts\<close>, \<open>components/Router.tsx\<close>), the
  players' connection (\<open>game/src/js/lib/game.ts\<close>) and what its messages make of the screen, and what
  the lobby, the round and the review show of a game.
\<close>

subsection \<open>Routes\<close>

text \<open>
  The hash \<open>gotoRoute\<close> and \<open>goto\<close> write: \<open>paramString\<close> is \<open>JSON.stringify(params)\<close>. Reading it back
  gives it percent-encoded; \<open>decodeURI\<close> and \<open>JSON.parse\<close> are parameters of the routers.
\<close>

definition gotoRoute :: "string \<Rightarrow> string \<Rightarrow> string" where
  "gotoRoute routeName paramString = join_with ''?'' [routeName, paramString]"

definition goto :: "string \<Rightarrow> string \<Rightarrow> string" where
  "goto routeName paramString = join_with ''?'' [routeName, paramString]"

definition parseParamString :: "(string \<Rightarrow> string) \<Rightarrow> (string \<Rightarrow> exn + jsval) \<Rightarrow> string option \<Rightarrow> exn + jsval" where
  "parseParamString decodeURI parse paramString =
     (case paramString of None \<Rightarrow> Inr (JObj []) | Some s \<Rightarrow> parse (decodeURI s))"

definition onHashChange ::
  "(string \<Rightarrow> string) \<Rightarrow> (string \<Rightarrow> exn + jsval) \<Rightarrow> string \<Rightarrow> exn + string \<times> jsval" where
  "onHashChange decodeURI parse hash =
     (let parts = split_on CHR ''?'' hash
      in mapR (\<lambda>params. (hd parts, params)) (parseParamString decodeURI parse (js_nth parts 1)))"

datatype player_route = TestRoute | GameRoute jsval | HomeRoute

definition player_router :: "string \<times> jsval \<Rightarrow> exn + player_route" where
  "player_router r =
     (if fst r = ''#test'' then Inr TestRoute
      else if fst r = ''#game'' then mapR GameRoute (js_prop (snd r) ''playerId'') else Inr HomeRoute)"

datatype admin_route = CreatePairRoute | SessionRoute jsval | AdminHome

definition admin_router :: "string \<times> jsval \<Rightarrow> admin_route" where
  "admin_router r =
     (if fst r = ''#create_pair'' then CreatePairRoute
      else if fst r = ''#session'' then SessionRoute (fld (snd r) ''sessionId'') else AdminHome)"

lemma onHashChange_first:
  assumes "CHR ''?'' \<notin> set name" "CHR ''?'' \<notin> set a"
  shows "onHashChange dec parse (name @ ''?'' @ a) = mapR (\<lambda>params. (name, params)) (parse (dec a))"
    and "onHashChange dec parse (name @ ''?'' @ a @ ''?'' @ b) = mapR (\<lambda>params. (name, params)) (parse (dec a))"
  using assms
  by (simp_all add: onHashChange_def split_on_append split_on_none js_nth_def parseParamString_def Let_def)

subsection \<open>The players' connection\<close>

text \<open>
  What a message does to the screen of the player on socket \<open>sk\<close>. \<open>GameClient\<close> passes on the events
  \<open>connect\<close>, \<open>disconnect\<close> and \<open>state\<close> of its socket, and the errors of the connection itself; the
  server's own \<open>error\<close> messages, and the news of other players, are not listened to.
\<close>

fun on_message :: "nat \<Rightarrow> message \<Rightarrow> client \<Rightarrow> client" where
  "on_message sk (StateMsg k gd) c = (if k = sk then client_on (CState gd) c else c)"
| "on_message sk _ c = c"

definition deliver :: "nat \<Rightarrow> message list \<Rightarrow> client \<Rightarrow> client" where
  "deliver sk ms c = fold (on_message sk) ms c"

text \<open>The screen that goes with the state of a game.\<close>

definition stage_screen :: "game \<Rightarrow> screen" where
  "stage_screen g =
     (if startTime g = None then Lobby (state g)
      else if endTime g \<noteq> None then Review (state g) else Playing (state g))"

lemma game_screen_state:
  "game_screen (client_on (CState (state g)) (client_on CConnect client_init)) = stage_screen g"
  by (simp add: game_screen_def client_init_def stage_screen_def state_def)

lemma first_screen:
  assumes inv: "server_inv (sw s)"
    and new: "sent (onConnect sk (JObj [(''playerId'', JStr pid)]) s) = sent s @ new"
  shows "game_screen (deliver sk new (client_on CConnect client_init)) =
    (case session_of pid (sw s) of
       None \<Rightarrow> NotFound
     | Some x \<Rightarrow>
         (case current_row (sessionId x) (sw s) of
            None \<Rightarrow> NotFound
          | Some r \<Rightarrow>
              (case getGame (row_gameId r) (sw s) of
                 Inl _ \<Rightarrow> NotFound | Inr i \<Rightarrow> stage_screen (objs (sw s) ! i))))"
proof -
  let ?s = "s\<lparr>socks := (socks s)(sk := (socks s sk)\<lparr>sd_playerId := Some pid\<rparr>)\<rparr>"
  have run: "onConnect sk (JObj [(''playerId'', JStr pid)]) s = onPlayerConnect sk pid ?s"
    by (simp add: onConnect_def getHandshakeQuery_def)
  have "server_inv (sw ?s)" using inv by simp
  note conn = onPlayerConnect_run [OF this, where pid = pid and sk = sk, folded run, unfolded new]
  have lost: "game_screen (client_on CConnect client_init) = NotFound"
    by (simp add: game_screen_def client_init_def)
  show ?thesis
  proof (cases "session_of pid (sw s)")
    case None
    then show ?thesis using conn lost by (simp add: deliver_def)
  next
    case (Some x)
    show ?thesis
    proof (cases "current_row (sessionId x) (sw s)")
      case None
      then show ?thesis using Some conn lost by (simp add: deliver_def)
    next
      case (Some r)
      then obtain i where i: "getGame (row_gameId r) (sw s) = Inr i"
        "new = [JoinedGame (row_gameId r) sk pid, StateMsg sk (state (objs (sw s) ! i))]"
        using \<open>session_of pid (sw s) = Some x\<close> conn by auto
      then show ?thesis using Some \<open>session_of pid (sw s) = Some x\<close> game_screen_state
        by (simp add: deliver_def)
    qed
  qed
qed

text \<open>
  What \<open>GameClient\<close> sends: the server's handler of the event, with the payload it emits. The button
  of the lobby and the coloured buttons of a round are what sets them off; a colour outside the map
  makes the button raise (\<open>color.toUpperCase()\<close>).
\<close>

definition setReady :: "nat \<Rightarrow> bool \<Rightarrow> server \<Rightarrow> server" where
  "setReady sk readyFlag = onPlayerReady_msg sk readyFlag"

definition client_answer :: "nat \<Rightarrow> answer \<Rightarrow> server \<Rightarrow> server" where
  "client_answer sk a = onAnswer_msg sk \<lparr>a_round = a_round a, a_value = a_value a\<rparr>"

definition button_color :: "int \<Rightarrow> exn + string" where
  "button_color option = (case js_nth colorMap option of None \<Rightarrow> Inl TypeError | Some color \<Rightarrow> Inr color)"

definition press_lobby_button :: "nat \<Rightarrow> string \<Rightarrow> game_data \<Rightarrow> server \<Rightarrow> server" where
  "press_lobby_button sk pid gd s =
     (case toggleReady pid gd of None \<Rightarrow> s | Some flag \<Rightarrow> setReady sk flag s)"

text \<open>\<open>Home\<close>: the hash of the game of the player whose id has been typed.\<close>

definition home_submit :: "(jsval \<Rightarrow> string) \<Rightarrow> string \<Rightarrow> string" where
  "home_submit stringify pid = gotoRoute ''#game'' (stringify (JObj [(''playerId'', JStr pid)]))"

lemma home_to_game:
  assumes "CHR ''?'' \<notin> set (stringify (JObj [(''playerId'', JStr pid)]))"
    and "parse (dec (stringify (JObj [(''playerId'', JStr pid)]))) = Inr (JObj [(''playerId'', JStr pid)])"
  shows "bindR (onHashChange dec parse (home_submit stringify pid)) player_router = Inr (GameRoute (JStr pid))"
proof -
  have "CHR ''?'' \<notin> set ''#game''" by simp
  note read = onHashChange_first(1) [OF this assms(1), of dec parse]
  show ?thesis using read assms(2)
    by (simp add: home_submit_def gotoRoute_def player_router_def js_prop_def)
qed

subsection \<open>Lobby, round and review\<close>

definition lobby_line :: "player \<Rightarrow> string" where
  "lobby_line p = playerId p @ '':'' @ (if ready p then ''R'' else ''N'')"

record lobby_view =
  lv_isBlue :: bool
  lv_lines :: "string list"
  lv_button :: string

text \<open>\<open>GameLobby\<close>; \<open>None\<close> is the text for a player who is not one of the game's.\<close>

definition gameLobby :: "string \<Rightarrow> game_data \<Rightarrow> exn + lobby_view option" where
  "gameLobby pid gd =
     (case gd_players gd of
        [] \<Rightarrow> Inl TypeError
      | blue # _ \<Rightarrow>
          Inr (map_option (\<lambda>p. \<lparr>lv_isBlue = (pid = playerId blue), lv_lines = map lobby_line (gd_players gd),
                                lv_button = (if ready p then ''Unready'' else ''Ready'')\<rparr>)
                 (List.find (\<lambda>p. playerId p = pid) (gd_players gd))))"

record round_view =
  rv_round :: int
  rv_score :: int
  rv_total :: int
  rv_isBlue :: bool
  rv_data :: round_data

text \<open>
  \<open>RoundScreen\<close> with the destructuring at the start of \<open>Round\<close>, which raises on a round that is not
  there.
\<close>

definition roundScreen :: "string \<Rightarrow> game_data \<Rightarrow> exn + round_view" where
  "roundScreen pid gd =
     (case (gd_players gd, gd_currentRound gd) of
        (p # _, Some k) \<Rightarrow>
          (case js_nth (gd_rounds gd) k of
             None \<Rightarrow> Inl TypeError
           | Some rd \<Rightarrow> Inr \<lparr>rv_round = k, rv_score = score gd, rv_total = total gd,
                            rv_isBlue = (pid = playerId p), rv_data = rd\<rparr>)
      | _ \<Rightarrow> Inl TypeError)"

datatype round_content = ButtonBody | UnknownBody

definition round_body :: "round_data \<Rightarrow> round_content option" where
  "round_body rd =
     switch_child [(Button, ButtonBody), (TutorialButton, ButtonBody)] (Some UnknownBody) (rd_name rd)"

text \<open>A row of the review: the number, the answer or \<open>No answer\<close>, the solution.\<close>

definition review_row :: "nat \<Rightarrow> round_data \<Rightarrow> nat \<times> jsval \<times> solution" where
  "review_row i r =
     (i, case rd_answer r of None \<Rightarrow> JStr ''No answer'' | Some a \<Rightarrow> a, rd_solution r)"

definition review_rows :: "game_data \<Rightarrow> (nat \<times> jsval \<times> solution) list" where
  "review_rows gd = map (\<lambda>(i, r). review_row i r) (enumerate 0 (gd_rounds gd))"

text \<open>
  \<open>Round\<close> slides its content out when the player answers or the round changes, and half a second after
  a change slides it in. The timers of earlier rounds are not cleared.
\<close>

datatype slide_act = SlideIn

record slide =
  doSlideOut :: bool
  sl_round :: int

definition slide_mount :: "int \<Rightarrow> slide_act clock \<Rightarrow> slide \<times> slide_act clock" where
  "slide_mount k c = (\<lparr>doSlideOut = False, sl_round = k\<rparr>, snd (setTimeout SlideIn 500 c))"

definition slide_round :: "int \<Rightarrow> slide \<times> slide_act clock \<Rightarrow> slide \<times> slide_act clock" where
  "slide_round k s =
     (if k = sl_round (fst s) then s
      else (\<lparr>doSlideOut = True, sl_round = k\<rparr>, snd (setTimeout SlideIn 500 (snd s))))"

definition onAnswerWrap :: "slide \<Rightarrow> slide" where
  "onAnswerWrap s = s\<lparr>doSlideOut := True\<rparr>"

fun slide_fire :: "slide_act \<Rightarrow> slide \<Rightarrow> slide" where
  "slide_fire SlideIn s = s\<lparr>doSlideOut := False\<rparr>"

text \<open>A game that is being played can always be shown, with the round it is at.\<close>

lemma running_round_shown:
  assumes "game_inv (g, e)" "startTime g \<noteq> None" "endTime g = None"
  shows "\<exists>v r. roundScreen pid (state g) = Inr v \<and> rv_round v = currentRound g
    \<and> js_nth (rounds g) (currentRound g) = Some r \<and> rv_data v = round_state r"
proof -
  have cur: "currentRound g < int (length (rounds g))"
    using game_inv_ended [OF assms(1,2)] assms(3) by (fastforce simp: ended_inv_def)
  have base: "game_base (g, e)" using assms(1) by (simp add: game_inv_def)
  then have "0 \<le> currentRound g" "2 \<le> length (players g)" by (auto simp: game_base_def)
  moreover from this cur have r: "js_nth (rounds g) (currentRound g) = Some (rounds g ! nat (currentRound g))"
    by (simp add: js_nth_def)
  moreover obtain p ps where "players g = p # ps" using calculation(2) by (cases "players g") auto
  ultimately show ?thesis using cur by (simp add: roundScreen_def state_def js_nth_def)
qed

lemma game_lobby_shown:
  assumes "game_inv (g, e)" "\<exists>p \<in> set (players g). playerId p = pid"
  shows "\<exists>v. gameLobby pid (state g) = Inr (Some v) \<and> lv_button v = (if toggleReady pid (state g) = Some True then ''Ready'' else ''Unready'')"
proof -
  have "2 \<le> length (players g)" using assms(1) by (auto simp: game_inv_def game_base_def)
  then obtain q qs where ps: "players g = q # qs" by (cases "players g") auto
  have "List.find (\<lambda>p. playerId p = pid) (players g) \<noteq> None" using assms(2) by (auto simp: find_None_iff)
  then obtain p where "List.find (\<lambda>p. playerId p = pid) (players g) = Some p" by blast
  then show ?thesis using ps by (auto simp: gameLobby_def toggleReady_def state_def)
qed

text \<open>Whatever a game in play is at, each of its screens can be drawn.\<close>

lemma stage_shown:
  assumes "game_inv (g, e)"
  shows "case stage_screen g of
      Lobby gd \<Rightarrow> \<forall>p \<in> set (players g). \<exists>v. gameLobby (playerId p) gd = Inr (Some v)
        \<and> lv_button v = (if toggleReady (playerId p) gd = Some True then ''Ready'' else ''Unready'')
    | Playing gd \<Rightarrow> \<forall>pid. \<exists>v r. roundScreen pid gd = Inr v \<and> rv_round v = currentRound g
        \<and> js_nth (rounds g) (currentRound g) = Some r \<and> rv_data v = round_state r
    | Review gd \<Rightarrow> length (review_rows gd) = length (rounds g)
    | _ \<Rightarrow> False"
proof (cases "startTime g = None")
  case True
  have "\<forall>p \<in> set (players g). \<exists>v. gameLobby (playerId p) (state g) = Inr (Some v)
      \<and> lv_button v = (if toggleReady (playerId p) (state g) = Some True then ''Ready'' else ''Unready'')"
    by (intro ballI game_lobby_shown [OF assms]) blast
  then show ?thesis using True by (simp add: stage_screen_def)
next
  case False
  then show ?thesis using running_round_shown [OF assms False]
    by (auto simp: stage_screen_def review_rows_def state_def)
qed

subsection \<open>The component browser\<close>

text \<open>\<open>TestScreen\<close>: its sample data, the components it offers, and what its selector does.\<close>

definition sample_round :: round_data where
  "sample_round =
     \<lparr>rd_name = Button, rd_msLength = Some 5000, rd_solution = SNum 1, rd_options = Some [0, 1, 2],
      rd_answer = None, rd_startTime = None, rd_endTime = None, rd_attack = None\<rparr>"

definition sampleGameData :: game_data where
  "sampleGameData =
     \<lparr>gd_players = [\<lparr>playerId = ''red'', ready = True\<rparr>, \<lparr>playerId = ''blue'', ready = True\<rparr>],
      gd_gameId = ''foo'', gd_rounds = [sample_round, sample_round], gd_currentRound = Some 0,
      gd_startTime = None, gd_endTime = None\<rparr>"

datatype test_component =
    TestLobby string game_data
  | TestRound string game_data
  | TestButton bool int round_data

definition test_components :: "test_component list" where
  "test_components =
     [TestLobby ''blue'' sampleGameData, TestRound ''red'' sampleGameData,
      TestButton False 1 (sample_round\<lparr>rd_name := Button\<rparr>)]"

record test_screen =
  componentIndx :: "int option"
  showSelector :: bool

definition test_init :: test_screen where
  "test_init = \<lparr>componentIndx = Some 0, showSelector = True\<rparr>"

definition onSelect :: "string \<Rightarrow> test_screen \<Rightarrow> test_screen" where
  "onSelect v t = t\<lparr>componentIndx := parseInt v\<rparr>"

definition toggleShowSelector :: "test_screen \<Rightarrow> test_screen" where
  "toggleShowSelector t = t\<lparr>showSelector := \<not> showSelector t\<rparr>"

definition testComponent :: "test_screen \<Rightarrow> exn + test_component" where
  "testComponent t =
     (case Option.bind (componentIndx t) (js_nth test_components) of
        None \<Rightarrow> Inl TypeError | Some c \<Rightarrow> Inr c)"

text \<open>Every option the selector has brings up its component, and the component can be drawn.\<close>

lemma test_component_selected:
  "i < 3 \<Longrightarrow> testComponent (onSelect (show_int (int i)) t) = Inr (test_components ! i)"
  by (simp add: testComponent_def onSelect_def parseInt_show js_nth_def test_components_def)

lemma test_components_drawn:
  "\<exists>v. gameLobby ''blue'' sampleGameData = Inr (Some v)" "\<exists>v. roundScreen ''red'' sampleGameData = Inr v"
  "\<exists>q. getEquation draw 1 sample_round = Some q"
  by (simp_all add: gameLobby_def roundScreen_def sampleGameData_def js_nth_def getEquation_def sample_round_def
      equations_def)

end
