(* ===== verification/Processes.thy ===== *)
theory Processes
  imports ServerProps
begin

text \<open>
  Asynchronous code as processes. A future of the server does its work in actions: an access to the
  database, a request to the daemon, or code that runs without waiting; between two actions anything
  else may happen. The combinators are those of the futures, and a process that nothing interrupts is
  a future (\<open>prun\<close>). What holds however a process is interrupted is stated by rely and guarantee:
  \<open>steps_to P R Q p s\<close>.
\<close>

subsection \<open>Processes\<close>

datatype ('s, 'e, 'a) process = Done "'e + 'a" | Act "'s \<Rightarrow> ('s, 'e, 'a) process \<times> 's"

primrec prun :: "('s, 'e, 'a) process \<Rightarrow> ('s, 'e, 'a) future" where
  "prun (Done r) = (\<lambda>s. (r, s))"
| "prun (Act f) = (\<lambda>s. case (map_prod prun id \<circ> f) s of (m, s') \<Rightarrow> m s')"

primrec pseq :: "('e + 'a \<Rightarrow> ('s, 'd, 'b) process) \<Rightarrow> ('s, 'e, 'a) process \<Rightarrow> ('s, 'd, 'b) process" where
  "pseq k (Done r) = k r"
| "pseq k (Act f) = Act (map_prod (pseq k) id \<circ> f)"

definition act :: "('s, 'e, 'a) future \<Rightarrow> ('s, 'e, 'a) process" where
  "act m = Act (\<lambda>s. case m s of (r, s') \<Rightarrow> (Done r, s'))"

text \<open>Code that runs at once and goes on with a process.\<close>

definition start_with :: "('s \<Rightarrow> ('s, 'e, 'a) process \<times> 's) \<Rightarrow> ('s, 'e, 'a) process" where
  "start_with f = Act f"

definition pchain :: "('a \<Rightarrow> ('s, 'e, 'b) process) \<Rightarrow> ('s, 'e, 'a) process \<Rightarrow> ('s, 'e, 'b) process" where
  "pchain f = pseq (\<lambda>r. case r of Inl e \<Rightarrow> Done (Inl e) | Inr a \<Rightarrow> f a)"

definition pmap :: "('a \<Rightarrow> 'b) \<Rightarrow> ('s, 'e, 'a) process \<Rightarrow> ('s, 'e, 'b) process" where
  "pmap f = pseq (\<lambda>r. Done (map_sum id f r))"

definition pmapRej :: "('e \<Rightarrow> 'd) \<Rightarrow> ('s, 'e, 'a) process \<Rightarrow> ('s, 'd, 'a) process" where
  "pmapRej f = pseq (\<lambda>r. Done (map_sum f id r))"

definition pchainRej :: "('e \<Rightarrow> ('s, 'd, 'a) process) \<Rightarrow> ('s, 'e, 'a) process \<Rightarrow> ('s, 'd, 'a) process" where
  "pchainRej f = pseq (\<lambda>r. case r of Inl e \<Rightarrow> f e | Inr a \<Rightarrow> Done (Inr a))"

definition pcoalesce :: "('s, 'e, 'a) process \<Rightarrow> ('s, 'd, 'e + 'a) process" where
  "pcoalesce = pseq (\<lambda>r. Done (Inr r))"

fun pparallel1 :: "('s, 'e, 'a) process list \<Rightarrow> ('s, 'e, 'a list) process" where
  "pparallel1 [] = Done (Inr [])"
| "pparallel1 (p # ps) = pchain (\<lambda>a. pmap (\<lambda>as. a # as) (pparallel1 ps)) p"

declare pparallel1.simps [simp del]

lemmas proc_defs = pchain_def pmap_def pmapRej_def pchainRej_def pcoalesce_def

lemma prun_Act: "prun (Act f) s = (case f s of (p, s') \<Rightarrow> prun p s')"
  by (simp split: prod.split)

lemma prun_pseq: "prun (pseq k p) s = (case prun p s of (r, s') \<Rightarrow> prun (k r) s')"
proof (induction p arbitrary: s)
  case (Act f)
  show ?case
  proof (cases "f s")
    case (Pair p s')
    then have "(p, s') \<in> range f" by (metis rangeI)
    then have "prun (pseq k p) s' = (case prun p s' of (r, t) \<Rightarrow> prun (k r) t)"
      using Act [of "(p, s')" p s'] by (simp add: prod_set_defs)
    then show ?thesis using Pair by simp
  qed
qed simp

lemma prun_combinators [simp]:
  "prun (act m) = m"
  "prun (start_with b) = (\<lambda>s. case b s of (p, s') \<Rightarrow> prun p s')"
  "prun (pchain f q) = fchain (\<lambda>a. prun (f a)) (prun q)"
  "prun (pmap g q') = fmap g (prun q')"
  "prun (pmapRej h r) = fmapRej h (prun r)"
  "prun (pchainRej f' p') = fchainRej (\<lambda>e. prun (f' e)) (prun p')"
  "prun (pcoalesce u) = fcoalesce (prun u)"
  by (auto simp: fun_eq_iff act_def start_with_def prun_Act proc_defs prun_pseq fchain_def fmap_def fmapRej_def
      fchainRej_def fcoalesce_def split: prod.split sum.split)

lemma prun_parallel1 [simp]: "prun (pparallel1 ps) = parallel1 (map prun ps)"
  by (induction ps) (auto simp: pparallel1.simps fun_eq_iff fchain_def fmap_def split: prod.split sum.split)

subsection \<open>Rely and guarantee\<close>

text \<open>
  From any state that satisfies \<open>P\<close> and has come out of \<open>s\<close> by changes \<open>R\<close> allows, every action of the
  process keeps \<open>P\<close> and makes such a change itself, whatever other such changes come between; and if
  the process ends with a result, \<open>Q\<close> holds of it from then on.
\<close>

definition ends_with :: "('s \<Rightarrow> 'a \<Rightarrow> bool) \<Rightarrow> 's \<Rightarrow> 'e + 'a \<Rightarrow> bool" where
  "ends_with Q s r \<longleftrightarrow> (case r of Inl _ \<Rightarrow> True | Inr a \<Rightarrow> Q s a)"

primrec steps_to ::
  "('s \<Rightarrow> bool) \<Rightarrow> ('s \<Rightarrow> 's \<Rightarrow> bool) \<Rightarrow> ('s \<Rightarrow> 'a \<Rightarrow> bool) \<Rightarrow> ('s, 'e, 'a) process \<Rightarrow> 's \<Rightarrow> bool" where
  "steps_to P R Q (Done r) = (\<lambda>s. \<forall>t. P t \<longrightarrow> R s t \<longrightarrow> ends_with Q t r)"
| "steps_to P R Q (Act f) = (\<lambda>s. \<forall>t. P t \<longrightarrow> R s t \<longrightarrow>
     P (snd (f t)) \<and> R t (snd (f t)) \<and> (case (map_prod (steps_to P R Q) id \<circ> f) t of (k, t') \<Rightarrow> k t'))"

lemma steps_to_Act:
  "steps_to P R Q (Act f) s \<longleftrightarrow> (\<forall>t. P t \<longrightarrow> R s t \<longrightarrow>
     P (snd (f t)) \<and> R t (snd (f t)) \<and> steps_to P R Q (fst (f t)) (snd (f t)))"
  by (simp add: case_prod_unfold)

declare steps_to.simps(2) [simp del]

lemma ends_with_simps [simp]: "ends_with Q s (Inl e)" "ends_with Q s (Inr a) = Q s a"
  by (simp_all add: ends_with_def)

text \<open>A result about which nothing is asked.\<close>

abbreviation steps_keep :: "('s \<Rightarrow> bool) \<Rightarrow> ('s \<Rightarrow> 's \<Rightarrow> bool) \<Rightarrow> ('s, 'e, 'a) process \<Rightarrow> 's \<Rightarrow> bool" where
  "steps_keep P R \<equiv> steps_to P R (\<lambda>_ _. True)"

text \<open>What one action guarantees, and how that follows from the closure rules of \<open>keeps\<close>.\<close>

definition guarantees :: "('s \<Rightarrow> bool) \<Rightarrow> ('s \<Rightarrow> 's \<Rightarrow> bool) \<Rightarrow> ('s, 'e, 'a) future \<Rightarrow> bool" where
  "guarantees P R m \<longleftrightarrow> (\<forall>s. P s \<longrightarrow> P (snd (m s)) \<and> R s (snd (m s)))"

lemma guaranteesD: "guarantees P R m \<Longrightarrow> P s \<Longrightarrow> P (snd (m s)) \<and> R s (snd (m s))"
  by (simp add: guarantees_def)

lemma guarantees_keeps: "(\<And>s. keeps (\<lambda>t. P t \<and> R s t) m) \<Longrightarrow> (\<And>s. R s s) \<Longrightarrow> guarantees P R m"
  by (auto simp: guarantees_def keeps_def)

lemma guarantees_all: "guarantees P (\<lambda>_ _. True) m \<longleftrightarrow> keeps P m"
  by (simp add: guarantees_def keeps_def)

named_theorems steps_intros \<open>closure of \<open>steps_keep\<close> under the combinators\<close>

locale rely =
  fixes P :: "'s \<Rightarrow> bool" and R :: "'s \<Rightarrow> 's \<Rightarrow> bool"
  assumes R_refl: "R s s"
    and R_trans: "R s t \<Longrightarrow> R t u \<Longrightarrow> R s u"
begin

lemma steps_to_later: "steps_to P R Q p s \<Longrightarrow> R s t \<Longrightarrow> steps_to P R Q p t"
  by (cases p) (auto simp: steps_to_Act intro: R_trans)

lemma steps_to_seq:
  assumes "steps_to P R X p s"
    and "\<And>r t. P t \<Longrightarrow> R s t \<Longrightarrow> ends_with X t r \<Longrightarrow> steps_to P R Q (k r) t"
  shows "steps_to P R Q (pseq k p) s"
  using assms
proof (induction p arbitrary: s)
  case (Done r)
  show ?case
  proof (cases "k r")
    case (Done r')
    then show ?thesis using Done.prems by (auto simp: R_refl) (metis R_refl steps_to.simps(1))
  next
    case (Act f)
    then show ?thesis using Done.prems R_refl by (auto simp: steps_to_Act) (metis R_refl steps_to_Act)+
  qed
next
  case (Act f)
  show ?case unfolding pseq.simps steps_to_Act
  proof (intro allI impI)
    fix t assume t: "P t" "R s t"
    obtain p' t' where f: "f t = (p', t')" by fastforce
    then have mem: "(p', t') \<in> range f" by (metis rangeI)
    have g: "P t'" "R t t'" "steps_to P R X p' t'" using Act.prems(1) t f by (auto simp: steps_to_Act)
    have "steps_to P R Q (pseq k p') t'"
    proof (rule Act.IH [OF mem _ g(3)])
      show "p' \<in> Basic_BNFs.fsts (p', t')" by (simp add: fsts.simps)
      show "steps_to P R Q (k r) u" if "P u" "R t' u" "ends_with X u r" for r u
        using Act.prems(2) [OF that(1) _ that(3)] that(2) g(2) t(2) R_trans by blast
    qed
    then show "P (snd ((map_prod (pseq k) id \<circ> f) t)) \<and> R t (snd ((map_prod (pseq k) id \<circ> f) t))
        \<and> steps_to P R Q (fst ((map_prod (pseq k) id \<circ> f) t)) (snd ((map_prod (pseq k) id \<circ> f) t))"
      using f g by simp
  qed
qed

text \<open>Run without interruption, a process keeps and gives what it does at any interruption.\<close>

lemma steps_to_run:
  assumes "steps_to P R Q p s" "P t" "R s t"
  shows "P (snd (prun p t)) \<and> R t (snd (prun p t)) \<and> ends_with Q (snd (prun p t)) (fst (prun p t))"
  using assms
proof (induction p arbitrary: s t)
  case (Done r)
  then show ?case by (simp add: R_refl)
next
  case (Act f)
  obtain p' t' where f: "f t = (p', t')" by fastforce
  then have mem: "(p', t') \<in> range f" by (metis rangeI)
  have g: "P t'" "R t t'" "steps_to P R Q p' t'" using Act.prems f by (auto simp: steps_to_Act)
  have "P (snd (prun p' t')) \<and> R t' (snd (prun p' t')) \<and> ends_with Q (snd (prun p' t')) (fst (prun p' t'))"
    by (rule Act.IH [OF mem _ g(3) g(1) R_refl]) (simp add: fsts.simps)
  then show ?case using f g(2) R_trans by (auto simp: prun_Act)
qed

lemma steps_to_weaken: "steps_to P R Q p s \<Longrightarrow> (\<And>t a. P t \<Longrightarrow> Q t a \<Longrightarrow> Q' t a) \<Longrightarrow> steps_to P R Q' p s"
proof (induction p arbitrary: s)
  case (Done r)
  then show ?case by (cases r) simp_all
next
  case (Act f)
  have "steps_to P R Q' (fst (f t)) (snd (f t))" if "P t" "R s t" for t
    using Act.IH [of "f t" "fst (f t)"] Act.prems that by (auto simp: steps_to_Act fsts.simps)
  then show ?case using Act.prems(1) by (simp add: steps_to_Act)
qed

lemma steps_to_keep: "steps_to P R Q p s \<Longrightarrow> steps_keep P R p s"
  by (rule steps_to_weaken) simp_all

lemma steps_to_act:
  assumes "\<And>t. P t \<Longrightarrow> R s t \<Longrightarrow> P (snd (m t)) \<and> R t (snd (m t))"
    and "\<And>t t' a u. P t \<Longrightarrow> R s t \<Longrightarrow> m t = (Inr a, t') \<Longrightarrow> P u \<Longrightarrow> R t' u \<Longrightarrow> Q u a"
  shows "steps_to P R Q (act m) s"
  unfolding act_def steps_to_Act
proof (intro allI impI)
  fix t assume t: "P t" "R s t"
  obtain r t' where m: "m t = (r, t')" by fastforce
  show "P (snd (case m t of (r, s') \<Rightarrow> (Done r, s'))) \<and> R t (snd (case m t of (r, s') \<Rightarrow> (Done r, s')))
      \<and> steps_to P R Q (fst (case m t of (r, s') \<Rightarrow> (Done r, s'))) (snd (case m t of (r, s') \<Rightarrow> (Done r, s')))"
    using assms(1) [OF t] assms(2) [OF t] m by (cases r) auto
qed

lemma steps_to_start:
  assumes "\<And>t. P t \<Longrightarrow> R s t \<Longrightarrow> P (snd (f t)) \<and> R t (snd (f t)) \<and> steps_to P R Q (fst (f t)) (snd (f t))"
  shows "steps_to P R Q (start_with f) s"
  using assms by (simp add: start_with_def steps_to_Act)

lemma steps_to_chain:
  assumes "steps_to P R X p s" "\<And>a t. P t \<Longrightarrow> R s t \<Longrightarrow> X t a \<Longrightarrow> steps_to P R Q (f a) t"
  shows "steps_to P R Q (pchain f p) s"
  unfolding pchain_def using assms(1)
  by (rule steps_to_seq) (use assms(2) in \<open>auto split: sum.split\<close>)

lemma keep_act [steps_intros]: "guarantees P R m \<Longrightarrow> steps_keep P R (act m) s"
  by (rule steps_to_act) (simp_all add: guaranteesD)

lemma guarantees_same: "(\<And>t. snd (m t) = t) \<Longrightarrow> guarantees P R m"
  by (simp add: guarantees_def R_refl)

lemma keep_Done [steps_intros]: "steps_keep P R (Done r) s"
  by (simp add: ends_with_def split: sum.split)

lemma keep_seq: "steps_keep P R p s \<Longrightarrow> (\<And>r t. steps_keep P R (k r) t) \<Longrightarrow> steps_keep P R (pseq k p) s"
  by (rule steps_to_seq)

lemma keep_combinators [steps_intros]:
  "steps_keep P R q s \<Longrightarrow> (\<And>a t. steps_keep P R (f a) t) \<Longrightarrow> steps_keep P R (pchain f q) s"
  "steps_keep P R q' s \<Longrightarrow> steps_keep P R (pmap g q') s"
  "steps_keep P R r s \<Longrightarrow> steps_keep P R (pmapRej h r) s"
  "steps_keep P R p' s \<Longrightarrow> (\<And>e t. steps_keep P R (f' e) t) \<Longrightarrow> steps_keep P R (pchainRej f' p') s"
  "steps_keep P R u s \<Longrightarrow> steps_keep P R (pcoalesce u) s"
  by (auto simp: proc_defs ends_with_def intro!: keep_seq split: sum.split)

lemma keep_parallel1 [steps_intros]: "(\<And>p t. p \<in> set ps \<Longrightarrow> steps_keep P R p t) \<Longrightarrow> steps_keep P R (pparallel1 ps) s"
  by (induction ps arbitrary: s) (auto simp: pparallel1.simps ends_with_def intro!: keep_combinators)

end

end
