(* ===== verification/Interleave.thy ===== *)
theory Interleave
  imports Processes
begin

text \<open>
  The creation and the removal of a session as processes; run alone they are the futures of \<open>Sessions\<close>.
\<close>

subsection \<open>Removal in steps\<close>

type_synonym 'a prog = "(world, err, 'a) process"

definition removeGame_steps :: "nat \<Rightarrow> nat prog" where
  "removeGame_steps i =
     start_with (\<lambda>w. (pchain (\<lambda>_. act (\<lambda>w'. (Inr i, removeMemGame i w')))
                       (act (withDb (delete_game_stmt (game_key w i)))), w))"

definition removeSessionGames_steps :: "session \<Rightarrow> session prog" where
  "removeSessionGames_steps s =
     pmap (\<lambda>_. s)
       (pchain (\<lambda>gameRows. start_with (\<lambda>w.
           (pchain (\<lambda>games. pparallel1 (map removeGame_steps games))
             (act (e2f_err (aoe2ea (map (\<lambda>g. getGame (gr_gameId g) w) gameRows)))), w)))
         (act (getSessionGames (sessionId s))))"

definition removeContainer_steps :: "murmur \<Rightarrow> jsval list prog" where
  "removeContainer_steps m =
     pchain (\<lambda>ids. case ids of i # _ \<Rightarrow> act (docker_rm [i]) | [] \<Rightarrow> act (resolve [])) (act (docker_stop [murmurId m]))"

definition removeMurmur_steps :: "murmur \<Rightarrow> murmur prog" where
  "removeMurmur_steps m =
     start_with (\<lambda>w. let (r, w1) = removeRecDir m w
       in (pchain (\<lambda>_. act (deleteMurmur m))
            (pparallel1 [pmap (\<lambda>x. map_sum id (\<lambda>_. ()) x) (pcoalesce (removeContainer_steps m)),
                         pcoalesce (act (e2f_err r))]), w1))"

definition removeSessionMurmur_steps :: "session \<Rightarrow> session prog" where
  "removeSessionMurmur_steps s =
     pmap (\<lambda>_. s) (pchain removeMurmur_steps (act (getMurmurBySessionId (sessionId s))))"

definition coalesced_steps :: "'a prog \<Rightarrow> (err + unit) prog" where
  "coalesced_steps p = pmap (map_sum id (\<lambda>_. ())) (pcoalesce p)"

definition removeSession_steps :: "int \<Rightarrow> session prog" where
  "removeSession_steps sid =
     pchain (\<lambda>s. pchain (\<lambda>_. act (deleteSession s))
         (pparallel1 [coalesced_steps (removeSessionGames_steps s),
                      coalesced_steps (act (deleteSessionAttacks s)),
                      coalesced_steps (removeSessionMurmur_steps s)]))
       (act (getSessionById sid))"

subsection \<open>Creation in steps\<close>

definition createMurmur_steps :: "int \<Rightarrow> int \<Rightarrow> int \<Rightarrow> (jsval \<times> murmur) prog" where
  "createMurmur_steps grpc mur sid =
     start_with (\<lambda>w. let m = resolveMurmur (recDirRoot w) grpc mur sid
       in (pmapRej (\<lambda>e. CreateMurmurError grpc mur sid (err_message e))
            (pchain (\<lambda>m. act (createContainer m))
              (pchain (\<lambda>m. act (\<lambda>w. case createRecDir m False w of (r, w1) \<Rightarrow> e2f_err r w1))
                (act (insertMurmur m)))), w))"

definition createSessionMurmur_steps :: "session \<Rightarrow> session prog" where
  "createSessionMurmur_steps s =
     pmapRej (\<lambda>e. SessionError s (err_message e))
       (pmap (\<lambda>_. s) (createMurmur_steps (grpcPort s) (murmurPort s) (sessionId s)))"

definition createGameAttacks_steps :: "round_data list \<Rightarrow> game_row \<Rightarrow> game_row prog" where
  "createGameAttacks_steps schedule gameRow =
     pmap (\<lambda>_. gameRow)
       (pparallel1 (concat (map (\<lambda>(roundIndex, roundData).
            case rd_attack roundData of
              None \<Rightarrow> []
            | Some attack \<Rightarrow> [act (createAttack gameRow attack (int roundIndex))])
          (enumerate 0 schedule))))"

definition createGame_steps ::
  "string \<Rightarrow> string \<Rightarrow> int \<Rightarrow> int \<Rightarrow> round_data list \<Rightarrow> bool \<Rightarrow> world \<Rightarrow> game_row prog \<times> world" where
  "createGame_steps blue red sid gameOrder schedule isCurrent w =
     (let gid = uuids w (uuid_count w);
          w1 = w\<lparr>uuid_count := Suc (uuid_count w)\<rparr>;
          ps = map (\<lambda>p. createPlayer (Inl p)) [blue, red]
      in (pchain (createGameAttacks_steps schedule)
           (pchain (\<lambda>gd. act (insertGame \<lparr>gr_gameId = gid, gr_sessionId = sid, gr_data = gd,
                                            gr_isCurrent = isCurrent, gr_order = gameOrder\<rparr>))
             (act (fchain (alloc_game gid ps) (e2f_err (aoe2ea (map createRound schedule)))))), w1))"

definition createSessionGames_steps :: "session \<Rightarrow> session prog" where
  "createSessionGames_steps s =
     start_with (\<lambda>w.
       let blue = blueParticipant s; red = redParticipant s; sid = sessionId s;
           (g0, w0) = createGame_steps blue red sid 0 (tutorialSchedules ! 0) True w;
           (g1, w1) = createGame_steps red blue sid 1 (tutorialSchedules ! 1) False w0;
           (g2, w2) = createGame_steps blue red sid 2 (gameSchedules ! 0) False w1;
           (g3, w3) = createGame_steps red blue sid 3 (gameSchedules ! 1) False w2
       in (pmapRej (\<lambda>e. SessionError s (err_message e)) (pmap (\<lambda>_. s) (pparallel1 [g0, g1, g2, g3])), w3))"

definition scheduleAttack_steps :: "attack \<Rightarrow> attack prog" where
  "scheduleAttack_steps a =
     pchain (\<lambda>s. act (\<lambda>w. case getGame (att_gameId a) w of
          Inl _ \<Rightarrow> (Inr a, w)
        | Inr i \<Rightarrow> (Inr a, listen i EvRound (AttackListener a (grpcPort s)) w)))
       (act (fchain (\<lambda>ss. e2f_err (find_e (\<lambda>s. sessionId s = att_sessionId a) ss)) getSessions))"

definition doGames_steps :: "session \<Rightarrow> nat either prog" where
  "doGames_steps s =
     pchain (\<lambda>games. act (\<lambda>w. case chainGames s games w of (r, w1) \<Rightarrow> (Inr r, w1)))
       (pchain (\<lambda>rows. act (\<lambda>w. case initGameRows rows w of (r, w1) \<Rightarrow> e2f_err r w1))
         (act (getSessionGames (sessionId s))))"

definition doAttacks_steps :: "session \<Rightarrow> attack list prog" where
  "doAttacks_steps s =
     pchain (\<lambda>as. pparallel1 (map scheduleAttack_steps (filter (\<lambda>a. att_sessionId a = sessionId s) as))) (act getAttacks)"

definition initMurmur_steps :: "murmur \<Rightarrow> murmur prog" where
  "initMurmur_steps m =
     start_with (\<lambda>w. case createRecDir m True w of
        (r, w1) \<Rightarrow> (pmap (\<lambda>_. m) (pchain (\<lambda>_. act (docker_start (murmurId m))) (act (e2f_err r))), w1))"

definition doMurmur_steps :: "session \<Rightarrow> murmur prog" where
  "doMurmur_steps s = pchain initMurmur_steps (act (getMurmurBySessionId (sessionId s)))"

definition initSession_steps :: "session \<Rightarrow> session prog" where
  "initSession_steps s =
     pmap (\<lambda>_. s)
       (pmapRej (\<lambda>e. SessionError s (err_message e))
         (pchain (\<lambda>_. doMurmur_steps s) (pchain (\<lambda>_. doAttacks_steps s) (doGames_steps s))))"

definition createSession_steps :: "session \<Rightarrow> session prog" where
  "createSession_steps params =
     pchainRej (\<lambda>e. case e of
          SessionError s _ \<Rightarrow> pchain (\<lambda>_. act (reject e)) (removeSession_steps (sessionId s))
        | _ \<Rightarrow> act (reject e))
       (pchain initSession_steps (pchain createSessionGames_steps (pchain createSessionMurmur_steps (act (insertSession params)))))"

subsection \<open>Alone, the steps are the futures\<close>

named_theorems alone \<open>a process that is run without interruption is its future\<close>

lemma removeGame_alone [alone]: "prun (removeGame_steps i) = removeGame i"
  by (simp add: fun_eq_iff removeGame_steps_def removeGame_def)

lemma removeSessionGames_alone [alone]: "prun (removeSessionGames_steps s) = removeSessionGames s"
  by (simp add: removeSessionGames_steps_def removeSessionGames_def comp_def alone)

lemma removeContainer_alone [alone]: "prun (removeContainer_steps m) = removeContainer m"
  by (auto simp: removeContainer_steps_def removeContainer_def intro!: arg_cong2 [of _ _ _ _ fchain] split: list.split)

lemma removeMurmur_alone [alone]: "prun (removeMurmur_steps m) = removeMurmur m"
  by (simp add: fun_eq_iff removeMurmur_steps_def removeMurmur_def Let_def alone split: prod.split)

lemma removeSession_alone [alone]: "prun (removeSession_steps sid) = removeSession sid"
  by (simp add: removeSession_steps_def removeSession_def coalesced_steps_def coalesced_def
      removeSessionMurmur_steps_def removeSessionMurmur_def comp_def alone)

lemma createMurmur_alone [alone]: "prun (createMurmur_steps g p sid) = createMurmur g p sid"
  by (simp add: fun_eq_iff createMurmur_steps_def createMurmur_def Let_def)

lemma createSessionMurmur_alone [alone]: "prun (createSessionMurmur_steps s) = createSessionMurmur s"
  by (simp add: createSessionMurmur_steps_def createSessionMurmur_def alone)

lemma createGameAttacks_alone [alone]: "prun (createGameAttacks_steps sch row) = createGameAttacks sch row"
proof -
  have "map prun (case_option [] (\<lambda>at. [act (createAttack row at k)]) x) = case_option [] (\<lambda>at. [createAttack row at k]) x"
    for x k by (cases x) simp_all
  then show ?thesis
    unfolding createGameAttacks_steps_def createGameAttacks_def prun_combinators prun_parallel1 map_concat
    by (simp add: comp_def case_prod_unfold)
qed

lemma createGame_alone:
  "(case createGame_steps b r sid ord sch cur w of (p, w') \<Rightarrow> (prun p, w')) = createGame b r sid ord sch cur w"
proof -
  have "(\<lambda>row. prun (createGameAttacks_steps sch row)) = createGameAttacks sch" by (simp add: alone)
  then show ?thesis by (simp add: createGame_steps_def createGame_def Let_def alone)
qed

lemma createGame_steps_eq:
  "createGame_steps b r sid ord sch cur w = (p, w') \<Longrightarrow> createGame b r sid ord sch cur w = (prun p, w')"
  using createGame_alone [of b r sid ord sch cur w] by simp

lemma createSessionGames_alone [alone]: "prun (createSessionGames_steps s) = createSessionGames s"
  by (rule ext) (auto simp: createSessionGames_steps_def createSessionGames_def Let_def
      dest!: createGame_steps_eq split: prod.splits)

lemma scheduleAttack_alone [alone]: "prun (scheduleAttack_steps a) = scheduleAttack a"
  by (simp add: scheduleAttack_steps_def scheduleAttack_def)

lemma initMurmur_alone [alone]: "prun (initMurmur_steps m) = initMurmur m"
  by (simp add: fun_eq_iff initMurmur_steps_def initMurmur_def split: prod.split)

lemma initSession_alone [alone]: "prun (initSession_steps s) = initSession s"
  by (simp add: initSession_steps_def initSession_def doMurmur_steps_def doMurmur_def doAttacks_steps_def
      doAttacks_def doGames_steps_def doGames_def comp_def alone)

lemma createSession_alone [alone]: "prun (createSession_steps p) = createSession p"
proof -
  have undo: "prun (case e of SessionError s _ \<Rightarrow> pchain (\<lambda>_. act (reject e)) (removeSession_steps (sessionId s)) | _ \<Rightarrow> act (reject e))
      = (case e of SessionError s _ \<Rightarrow> fchain (\<lambda>_. reject e) (removeSession (sessionId s)) | _ \<Rightarrow> reject e)" for e
    by (cases e) (simp_all add: alone)
  show ?thesis
    unfolding createSession_steps_def createSession_def prun_combinators undo by (simp add: alone)
qed

end
