(* ===== verification/Overlap.thy ===== *)
theory Overlap
  imports Interleave
begin

text \<open>
  Any number of requests at the same time, with everything else a server does in between. The handlers
  of players' connections and of administrators' requests become jobs, and \<open>among\<close> runs jobs and steps
  of the server in any order. What every action of a job and every step of the server keeps is the
  interface of the locale \<open>overlapping\<close>; it then holds of every state. The first use is for the
  constraints of the schema.
\<close>

subsection \<open>Requests under way\<close>

text \<open>A job ends with what the continuation of its \<open>fork\<close> does to the server.\<close>

type_synonym job = "(world, err, server \<Rightarrow> server) process"

definition fork_steps :: "(err \<Rightarrow> server \<Rightarrow> server) \<Rightarrow> ('a \<Rightarrow> server \<Rightarrow> server) \<Rightarrow> 'a prog \<Rightarrow> job" where
  "fork_steps rej res = pseq (\<lambda>r. Done (Inr (case r of Inl e \<Rightarrow> rej e | Inr a \<Rightarrow> res a)))"

definition create_job :: "nat \<Rightarrow> session \<Rightarrow> job" where
  "create_job sk p =
     fork_steps (\<lambda>e. send (AckError sk e)) (\<lambda>x. send (AckSession sk x))
       (pchain (\<lambda>_. createSession_steps p) (act (e2f_err (validateCreateSessionParams (session_params p)))))"

definition remove_job :: "nat \<Rightarrow> int \<Rightarrow> job" where
  "remove_job sk sid =
     fork_steps (\<lambda>e. send (AckError sk e)) (\<lambda>_. send (AckDone sk)) (removeSession_steps sid)"

definition recordings_job :: "nat \<Rightarrow> int \<Rightarrow> job" where
  "recordings_job sk sid =
     fork_steps (\<lambda>e. send (AckError sk e)) (\<lambda>x. send (AckRecordings sk x))
       (pchain (\<lambda>m. act (getRecordings m)) (act (getMurmurBySessionId sid)))"

definition sessions_job :: "nat \<Rightarrow> job" where
  "sessions_job sk = fork_steps (\<lambda>e. send (AckError sk e)) (\<lambda>x. send (AckSessions sk x)) (act getSessions)"

definition joins_game :: "nat \<Rightarrow> string \<Rightarrow> nat \<Rightarrow> server \<Rightarrow> server" where
  "joins_game sk pid i s =
     (let g = objs (sw s) ! i;
          s1 = s\<lparr>socks := (socks s)(sk := (socks s sk)\<lparr>sd_gameId := Some (gameId g), sd_active := True\<rparr>),
                 sw := listen i EvState (ClientListener sk) (sw s)\<rparr>
      in send (StateMsg sk (getClientGameState g)) (send (JoinedGame (gameId g) sk pid) s1))"

definition connect_job :: "nat \<Rightarrow> string \<Rightarrow> job" where
  "connect_job sk pid =
     fork_steps (\<lambda>e. emitError sk (err_message e)) (joins_game sk pid)
       (pchain (\<lambda>session. act (getCurrentGame (sessionId session))) (act (getPlayerSession pid)))"

definition named_socket :: "nat \<Rightarrow> string \<Rightarrow> server \<Rightarrow> server" where
  "named_socket sk pid s = s\<lparr>socks := (socks s)(sk := (socks s sk)\<lparr>sd_playerId := Some pid\<rparr>)\<rparr>"

inductive among :: "server \<times> job list \<Rightarrow> server \<times> job list \<Rightarrow> bool" where
  create: "among (s, js) (s, js @ [create_job sk p])"
| remove: "among (s, js) (s, js @ [remove_job sk sid])"
| recordings: "among (s, js) (s, js @ [recordings_job sk sid])"
| sessions: "among (s, js) (s, js @ [sessions_job sk])"
| connect: "getHandshakeQuery query = Inr pid \<Longrightarrow> among (s, js) (named_socket sk pid s, js @ [connect_job sk pid])"
| action: "k < length js \<Longrightarrow> js ! k = Act f \<Longrightarrow> f (sw s) = (j, w) \<Longrightarrow> among (s, js) (s\<lparr>sw := w\<rparr>, js[k := j])"
| answered: "k < length js \<Longrightarrow> js ! k = Done (Inr g) \<Longrightarrow> among (s, js) (g s, take k js @ drop (Suc k) js)"
| other: "server_step s s' \<Longrightarrow> among (s, js) (s', js)"

inductive_cases amongE: "among (s, js) (s', js')"

subsection \<open>Uninterrupted, a job is the handler\<close>

lemma run_job:
  "k < length js \<Longrightarrow> js ! k = p \<Longrightarrow> prun p (sw s) = (r, w) \<Longrightarrow> among\<^sup>*\<^sup>* (s, js) (s\<lparr>sw := w\<rparr>, js[k := Done r])"
proof (induction p arbitrary: s js)
  case (Done x)
  then have "s\<lparr>sw := w\<rparr> = s" "js[k := Done r] = js" by (auto simp: list_update_same_conv)
  then show ?case by simp
next
  case (Act f)
  obtain j w1 where f: "f (sw s) = (j, w1)" by fastforce
  then have mem: "(j, w1) \<in> range f" by (metis rangeI)
  have "among (s, js) (s\<lparr>sw := w1\<rparr>, js[k := j])" by (rule among.action [OF Act.prems(1,2) f])
  moreover have "among\<^sup>*\<^sup>* (s\<lparr>sw := w1\<rparr>, js[k := j]) (s\<lparr>sw := w1\<rparr>\<lparr>sw := w\<rparr>, js[k := j, k := Done r])"
    by (rule Act.IH [OF mem]) (use Act.prems f in \<open>simp_all add: prun_Act fsts.simps\<close>)
  ultimately show ?case by (simp add: converse_rtranclp_into_rtranclp)
qed

lemma fork_alone:
  assumes "among (s0, js) (s, js @ [fork_steps rej res p])"
  shows "among\<^sup>*\<^sup>* (s0, js) (fork_fut (prun p) rej res s, js)"
proof -
  obtain r w where m: "prun p (sw s) = (r, w)" by fastforce
  define g where "g = (case r of Inl e \<Rightarrow> rej e | Inr a \<Rightarrow> res a)"
  let ?j = "Done (Inr g) :: job"
  have "prun (fork_steps rej res p) (sw s) = (Inr g, w)"
    by (simp add: fork_steps_def prun_pseq m g_def)
  then have run: "among\<^sup>*\<^sup>* (s, js @ [fork_steps rej res p]) (s\<lparr>sw := w\<rparr>, (js @ [fork_steps rej res p])[length js := ?j])"
    by (intro run_job) simp_all
  have "among (s\<lparr>sw := w\<rparr>, js @ [?j]) (g (s\<lparr>sw := w\<rparr>), take (length js) (js @ [?j]) @ drop (Suc (length js)) (js @ [?j]))"
    by (rule among.answered) simp_all
  moreover have "fork_fut (prun p) rej res s = g (s\<lparr>sw := w\<rparr>)"
    by (simp add: fork_fut_def m g_def split: sum.split)
  ultimately show ?thesis using run assms
    by (simp add: converse_rtranclp_into_rtranclp rtranclp.rtrancl_into_rtrancl)
qed

lemma jobs_alone:
  "among\<^sup>*\<^sup>* (s, js) (admin_create_session sk p s, js)"
  "among\<^sup>*\<^sup>* (s, js) (admin_remove_session sk sid s, js)"
  "among\<^sup>*\<^sup>* (s, js) (admin_get_recordings sk sid s, js)"
  "among\<^sup>*\<^sup>* (s, js) (admin_get_sessions sk s, js)"
  "among\<^sup>*\<^sup>* (s, js) (onConnect sk query s, js)"
proof -
  show "among\<^sup>*\<^sup>* (s, js) (admin_create_session sk p s, js)"
    using fork_alone [OF among.create [unfolded create_job_def]] by (simp add: admin_create_session_def alone)
  show "among\<^sup>*\<^sup>* (s, js) (admin_remove_session sk sid s, js)"
    using fork_alone [OF among.remove [unfolded remove_job_def]] by (simp add: admin_remove_session_def alone)
  show "among\<^sup>*\<^sup>* (s, js) (admin_get_recordings sk sid s, js)"
    using fork_alone [OF among.recordings [unfolded recordings_job_def]] by (simp add: admin_get_recordings_def)
  show "among\<^sup>*\<^sup>* (s, js) (admin_get_sessions sk s, js)"
    using fork_alone [OF among.sessions [unfolded sessions_job_def]] by (simp add: admin_get_sessions_def)
  show "among\<^sup>*\<^sup>* (s, js) (onConnect sk query s, js)"
  proof (cases "getHandshakeQuery query")
    case (Inl m)
    then show ?thesis using among.other [OF server_step.connect] by blast
  next
    case (Inr pid)
    have "onPlayerConnect sk pid t = fork_fut (prun (pchain (\<lambda>session. act (getCurrentGame (sessionId session))) (act (getPlayerSession pid))))
        (\<lambda>e. emitError sk (err_message e)) (joins_game sk pid) t" for t
      by (simp add: onPlayerConnect_def joins_game_def [abs_def])
    then show ?thesis using fork_alone [OF among.connect [OF Inr, unfolded connect_job_def]] Inr
      by (simp add: onConnect_def named_socket_def)
  qed
qed

subsection \<open>What every action keeps\<close>

text \<open>
  The parts a request is made of, for a property \<open>P\<close> of the world and the changes \<open>R\<close> that others may
  make meanwhile. \<open>drawn\<close> says of an id that it has been drawn, \<open>storable\<close> of a state that it may be
  stored under an id.
\<close>

locale request_steps = rely P R for P :: "world \<Rightarrow> bool" and R :: "world \<Rightarrow> world \<Rightarrow> bool" +
  fixes drawn :: "world \<Rightarrow> string \<Rightarrow> bool" and storable :: "string \<Rightarrow> game_data \<Rightarrow> bool"
  assumes drawn_later: "drawn s gid \<Longrightarrow> R s t \<Longrightarrow> drawn t gid"
    and g_getSessions: "guarantees P R getSessions"
    and g_getSessionById: "guarantees P R (getSessionById sid)"
    and g_getPlayerSession: "guarantees P R (getPlayerSession pid)"
    and g_getCurrentGame: "guarantees P R (getCurrentGame sid)"
    and g_getSessionGames: "guarantees P R (getSessionGames sid)"
    and g_getAttacks: "guarantees P R getAttacks"
    and g_getMurmur: "guarantees P R (getMurmurBySessionId sid)"
    and g_getRecordings: "guarantees P R (getRecordings m)"
    and g_insertSession: "guarantees P R (insertSession p)"
    and g_deleteSession: "guarantees P R (deleteSession x)"
    and g_deleteAttacks: "guarantees P R (deleteSessionAttacks x)"
    and g_insertMurmur: "guarantees P R (insertMurmur m)"
    and g_deleteMurmur: "guarantees P R (deleteMurmur m)"
    and g_deleteGame: "guarantees P R (withDb (delete_game_stmt gid))"
    and g_docker: "guarantees P R (docker_stop cs)" "guarantees P R (docker_rm cs)"
      "guarantees P R (docker_start c)" "guarantees P R (createContainer m)"
    and createDir: "P s \<Longrightarrow> P (snd (createRecDir m b s)) \<and> R s (snd (createRecDir m b s))"
    and removeDir: "P s \<Longrightarrow> P (snd (removeRecDir m s)) \<and> R s (snd (removeRecDir m s))"
    and forget: "P s \<Longrightarrow> P (removeMemGame i s) \<and> R s (removeMemGame i s)"
    and listens: "P s \<Longrightarrow> leaf l \<Longrightarrow> ev \<noteq> EvPlayerReady \<Longrightarrow> P (listen i ev l s) \<and> R s (listen i ev l s)"
    and rows_storable: "P s \<Longrightarrow> getSessionGames sid s = (Inr rows, t) \<Longrightarrow>
      \<forall>row \<in> set rows. storable (gr_gameId row) (gr_data row)"
    and g_initRows: "\<forall>row \<in> set rows. storable (gr_gameId row) (gr_data row) \<Longrightarrow>
      guarantees P R (\<lambda>w. case initGameRows rows w of (r, w1) \<Rightarrow> e2f_err r w1)"
    and draws: "P s \<Longrightarrow> P (s\<lparr>uuid_count := Suc (uuid_count s)\<rparr>) \<and> R s (s\<lparr>uuid_count := Suc (uuid_count s)\<rparr>)
      \<and> drawn (s\<lparr>uuid_count := Suc (uuid_count s)\<rparr>) (uuids s (uuid_count s))"
    and g_alloc: "guarantees P R
      (fchain (alloc_game gid (map (\<lambda>q. createPlayer (Inl q)) [blue, red])) (e2f_err (aoe2ea (map createRound sch))))"
    and alloc_storable: "P s \<Longrightarrow>
      fchain (alloc_game gid (map (\<lambda>q. createPlayer (Inl q)) [blue, red])) (e2f_err (aoe2ea (map createRound sch))) s = (Inr gd, t) \<Longrightarrow>
      storable gid gd"
    and insertsGame: "P s \<Longrightarrow> drawn s (gr_gameId row) \<Longrightarrow> storable (gr_gameId row) (gr_data row) \<Longrightarrow>
      P (snd (insertGame row s)) \<and> R s (snd (insertGame row s))"
    and g_createAttack: "storable (gr_gameId row) (gr_data row) \<Longrightarrow> guarantees P R (createAttack row wav k)"
begin

lemmas guaranteed [steps_intros] =
  g_getSessions g_getSessionById g_getPlayerSession g_getCurrentGame g_getSessionGames g_getAttacks g_getMurmur
  g_getRecordings g_insertSession g_deleteSession g_deleteAttacks g_insertMurmur g_deleteMurmur g_deleteGame g_docker

lemma guaranteed_pure [steps_intros]:
  "guarantees P R (e2f_err x)" "guarantees P R (resolve y)" "guarantees P R (reject e)"
  by (rule guarantees_same; simp)+

lemma keep_createRecDir [steps_intros]:
  "guarantees P R (\<lambda>w. case createRecDir m b w of (r, w1) \<Rightarrow> e2f_err r w1)"
  using createDir by (simp add: guarantees_def case_prod_unfold)

lemma keep_forget [steps_intros]: "guarantees P R (\<lambda>w. (Inr i, removeMemGame j w))"
  using forget by (simp add: guarantees_def)

lemma keep_removeGame [steps_intros]: "steps_keep P R (removeGame_steps i) s"
  unfolding removeGame_steps_def by (rule steps_to_start) (simp add: R_refl, intro steps_intros)

lemma keep_removeSession [steps_intros]: "steps_keep P R (removeSession_steps sid) s"
proof -
  have games: "steps_keep P R (removeSessionGames_steps x) s" for x s
    unfolding removeSessionGames_steps_def
    by (intro steps_intros steps_to_start) (auto simp: R_refl intro!: steps_intros)
  have con: "steps_keep P R (removeContainer_steps m) s" for m s
    unfolding removeContainer_steps_def by (intro steps_intros) (auto intro!: steps_intros split: list.split)
  have rest: "steps_keep P R (pchain (\<lambda>_. act (deleteMurmur m))
      (pparallel1 [pmap (\<lambda>x. map_sum id (\<lambda>_. ()) x) (pcoalesce (removeContainer_steps m)), pcoalesce (act (e2f_err r))])) s" for m r s
    by (intro steps_intros) (auto intro!: steps_intros con)
  have mur: "steps_keep P R (removeMurmur_steps m) s" for m s
    unfolding removeMurmur_steps_def using removeDir rest
    by (intro steps_to_start) (simp add: Let_def case_prod_unfold)
  show ?thesis
    unfolding removeSession_steps_def coalesced_steps_def removeSessionMurmur_steps_def
    by (intro steps_intros) (auto intro!: steps_intros games mur)
qed

lemma keep_chain_games: "P s \<Longrightarrow> P (chain_games sid is s) \<and> R s (chain_games sid is s)"
  by (induction sid "is" s rule: chain_games.induct)
     (auto simp: Let_def R_refl intro: R_trans dest: listens [where ev = EvStop and l = "ChainListener _ _"])

lemma keep_doGames: "steps_keep P R (doGames_steps x) s"
proof -
  have chain: "guarantees P R (\<lambda>w. case chainGames x games w of (r, w1) \<Rightarrow> (Inr r, w1))" for games
    using keep_chain_games by (auto simp: guarantees_def chainGames_def R_refl split: list.split)
  have rows: "steps_to P R (\<lambda>_ rows. \<forall>row \<in> set rows. storable (gr_gameId row) (gr_data row))
      (act (getSessionGames (sessionId x))) s"
    by (rule steps_to_act) (use g_getSessionGames rows_storable in \<open>auto simp: guarantees_def\<close>)
  show ?thesis unfolding doGames_steps_def
    by (rule keep_combinators(1) [OF steps_to_chain [OF rows]]) (intro steps_intros g_initRows chain; simp)+
qed

lemma keep_initSession [steps_intros]: "steps_keep P R (initSession_steps x) s"
proof -
  have attack: "guarantees P R (\<lambda>w. case getGame (att_gameId a) w of
      Inl _ \<Rightarrow> (Inr a, w) | Inr i \<Rightarrow> (Inr a, listen i EvRound (AttackListener a port) w))" for a port
    using listens by (auto simp: guarantees_def R_refl split: sum.split)
  have sched: "steps_keep P R (scheduleAttack_steps a) s" for a s
    unfolding scheduleAttack_steps_def getSessionById_def [symmetric] by (intro steps_intros attack)
  have mur: "steps_keep P R (initMurmur_steps m) s" for m s
  proof -
    have "steps_keep P R (pmap (\<lambda>_. m) (pchain (\<lambda>_. act (docker_start (murmurId m))) (act (e2f_err r)))) s"
      for r :: "murmur either" and s by (intro steps_intros)
    then show ?thesis unfolding initMurmur_steps_def using createDir
      by (intro steps_to_start) (simp add: case_prod_unfold)
  qed
  show ?thesis unfolding initSession_steps_def doAttacks_steps_def doMurmur_steps_def
    by (intro steps_intros keep_doGames mur) (auto intro: sched)
qed

lemma keep_createSessionMurmur [steps_intros]: "steps_keep P R (createSessionMurmur_steps x) s"
proof -
  have "steps_keep P R (createMurmur_steps g p sid) s" for g p sid s
    unfolding createMurmur_steps_def by (intro steps_to_start) (auto simp: Let_def R_refl intro!: steps_intros)
  then show ?thesis unfolding createSessionMurmur_steps_def by (intro steps_intros)
qed

text \<open>The id a game gets was drawn, and nobody else has it, when its row is written some actions later.\<close>

lemma keep_createGame:
  assumes run: "createGame_steps b r sid ord sch cur s = (p, s')" and s: "P s"
  shows "P s' \<and> R s s' \<and> steps_keep P R p s'"
proof -
  let ?gid = "uuids s (uuid_count s)" and ?ps = "map (\<lambda>p. createPlayer (Inl p)) [b, r]"
  let ?row = "\<lambda>gd. \<lparr>gr_gameId = ?gid, gr_sessionId = sid, gr_data = gd, gr_isCurrent = cur, gr_order = ord\<rparr>"
  let ?good = "\<lambda>row. storable (gr_gameId row) (gr_data row)"
  have p: "p = pchain (createGameAttacks_steps sch) (pchain (\<lambda>gd. act (insertGame (?row gd)))
      (act (fchain (alloc_game ?gid ?ps) (e2f_err (aoe2ea (map createRound sch))))))"
    and s': "s' = s\<lparr>uuid_count := Suc (uuid_count s)\<rparr>"
    using run by (auto simp: createGame_steps_def Let_def)
  have drawn: "drawn s' ?gid" using draws [OF s] by (simp add: s')
  have attacks: "steps_keep P R (createGameAttacks_steps sch row) t" if "?good row" for row t
    unfolding createGameAttacks_steps_def
    by (intro steps_intros) (auto intro!: steps_intros g_createAttack that split: option.splits)
  have row: "steps_to P R (\<lambda>_. ?good) (act (insertGame (?row gd))) t" if "storable ?gid gd" "R s' t" for gd t
  proof (rule steps_to_act)
    fix u assume u: "P u" "R t u"
    have "drawn u ?gid" using drawn_later [OF drawn] that(2) u(2) R_trans by blast
    then show "P (snd (insertGame (?row gd) u)) \<and> R u (snd (insertGame (?row gd) u))"
      using insertsGame [OF u(1), of "?row gd"] that(1) by simp
  qed (use that in \<open>auto simp: insertGame_def fmap_def split: prod.splits sum.splits\<close>)
  have alloc: "steps_to P R (\<lambda>_. storable ?gid) (act (fchain (alloc_game ?gid ?ps) (e2f_err (aoe2ea (map createRound sch))))) s'"
    by (rule steps_to_act) (use g_alloc alloc_storable in \<open>auto simp: guarantees_def\<close>)
  have "steps_keep P R p s'" unfolding p
    by (rule steps_to_chain [OF steps_to_chain [OF alloc row] attacks])
  then show ?thesis using draws [OF s] by (simp add: s')
qed

lemma keep_createSessionGames [steps_intros]: "steps_keep P R (createSessionGames_steps x) s"
  unfolding createSessionGames_steps_def
proof (rule steps_to_start, goal_cases)
  case (1 t)
  then have t: "P t" by simp
  let ?b = "blueParticipant x" and ?r = "redParticipant x" and ?sid = "sessionId x"
  obtain g0 w0 where g0: "createGame_steps ?b ?r ?sid 0 (tutorialSchedules ! 0) True t = (g0, w0)" by fastforce
  obtain g1 w1 where g1: "createGame_steps ?r ?b ?sid 1 (tutorialSchedules ! 1) False w0 = (g1, w1)" by fastforce
  obtain g2 w2 where g2: "createGame_steps ?b ?r ?sid 2 (gameSchedules ! 0) False w1 = (g2, w2)" by fastforce
  obtain g3 w3 where g3: "createGame_steps ?r ?b ?sid 3 (gameSchedules ! 1) False w2 = (g3, w3)" by fastforce
  note k0 = keep_createGame [OF g0 t]
  note k1 = keep_createGame [OF g1 conjunct1 [OF k0]]
  note k2 = keep_createGame [OF g2 conjunct1 [OF k1]]
  note k3 = keep_createGame [OF g3 conjunct1 [OF k2]]
  have later: "R w0 w3" "R w1 w3" "R w2 w3" "R t w3" using k0 k1 k2 k3 R_trans by blast+
  have par: "steps_keep P R (pparallel1 ps) u" if "\<forall>p \<in> set ps. steps_keep P R p w" "R w u" for ps w u
    using that
  proof (induction ps arbitrary: u)
    case (Cons p ps)
    have p: "steps_keep P R p u" using Cons.prems steps_to_later by auto
    show ?case unfolding pparallel1.simps
      by (rule steps_to_chain [OF p], rule keep_combinators(2), rule Cons.IH)
         (use Cons.prems R_trans in auto)
  qed (simp add: pparallel1.simps ends_with_def)
  have "\<forall>p \<in> set [g0, g1, g2, g3]. steps_keep P R p w3"
    using k0 k1 k2 k3 later by (auto intro: steps_to_later)
  from par [OF this R_refl]
  have "steps_keep P R (pmapRej (\<lambda>e. SessionError x (err_message e)) (pmap (\<lambda>_. x) (pparallel1 [g0, g1, g2, g3]))) w3"
    by (intro keep_combinators)
  then show ?case using k3 later(4) by (simp add: Let_def g0 g1 g2 g3 del: One_nat_def)
qed

lemma keep_createSession [steps_intros]: "steps_keep P R (createSession_steps p) s"
proof -
  have undo: "steps_keep P R (case e of SessionError x _ \<Rightarrow> pchain (\<lambda>_. act (reject e)) (removeSession_steps (sessionId x)) | _ \<Rightarrow> act (reject e)) t"
    for e :: err and t by (cases e) (auto intro!: steps_intros)
  show ?thesis unfolding createSession_steps_def by (intro steps_intros undo)
qed

subsubsection \<open>Jobs\<close>

text \<open>What a continuation does to the server keeps the property too.\<close>

definition done_ok :: "(server \<Rightarrow> server) \<Rightarrow> bool" where
  "done_ok g \<longleftrightarrow> (\<forall>s. P (sw s) \<longrightarrow> P (sw (g s)) \<and> R (sw s) (sw (g s)))"

definition job_ok :: "job \<Rightarrow> world \<Rightarrow> bool" where
  "job_ok = steps_to P R (\<lambda>_. done_ok)"

lemma fork_ok:
  assumes "steps_keep P R p s" "\<And>e. done_ok (rej e)" "\<And>a. done_ok (res a)"
  shows "job_ok (fork_steps rej res p) s"
  unfolding job_ok_def fork_steps_def
  by (rule steps_to_seq [OF assms(1)]) (use assms(2,3) in \<open>auto split: sum.split\<close>)

lemma send_done_ok: "done_ok (send m)" "done_ok (emitError sk x)"
  by (simp_all add: done_ok_def R_refl)

lemma jobs_ok:
  "job_ok (create_job sk p) s" "job_ok (remove_job sk sid) s" "job_ok (recordings_job sk sid) s"
  "job_ok (sessions_job sk) s" "job_ok (connect_job sk pid) s"
proof -
  have "done_ok (joins_game sk pid i)" for i
    using listens by (simp add: done_ok_def joins_game_def Let_def)
  then show "job_ok (create_job sk p) s" "job_ok (remove_job sk sid) s" "job_ok (recordings_job sk sid) s"
    "job_ok (sessions_job sk) s" "job_ok (connect_job sk pid) s"
    unfolding create_job_def remove_job_def recordings_job_def sessions_job_def connect_job_def
    by (auto intro!: fork_ok send_done_ok steps_intros)
qed

end

text \<open>A server whose other steps make allowed changes too.\<close>

locale overlapping = request_steps +
  assumes other_steps: "server_step s s' \<Longrightarrow> P (sw s) \<Longrightarrow> P (sw s') \<and> R (sw s) (sw s')"
begin

lemma among_step:
  assumes "among a b" "P (sw (fst a))" "\<forall>j \<in> set (snd a). job_ok j (sw (fst a))"
  shows "P (sw (fst b)) \<and> R (sw (fst a)) (sw (fst b)) \<and> (\<forall>j \<in> set (snd b). job_ok j (sw (fst b)))"
  using assms
proof (cases rule: among.cases)
  case (action k js f s j w)
  then have "job_ok (Act f) (sw s)" using assms(3) nth_mem by fastforce
  then have g: "P w" "R (sw s) w" "job_ok j w"
    using action assms(2) by (auto simp: job_ok_def steps_to_Act R_refl)
  moreover have "job_ok j' w" if "j' \<in> set js" for j'
    using assms(3) action that g(2) by (auto simp: job_ok_def intro: steps_to_later)
  moreover have "set (js[k := j]) \<subseteq> insert j (set js)" by (rule set_update_subset_insert)
  ultimately show ?thesis using action by auto
next
  case (answered k js g s)
  then have "job_ok (Done (Inr g)) (sw s)" using assms(3) nth_mem by fastforce
  then have "done_ok g" using answered assms(2) by (auto simp: job_ok_def R_refl)
  then have g: "P (sw (g s))" "R (sw s) (sw (g s))" using answered assms(2) by (simp_all add: done_ok_def)
  moreover have "job_ok j (sw (g s))" if "j \<in> set js" for j
    using assms(3) answered that g(2) by (auto simp: job_ok_def intro: steps_to_later)
  ultimately show ?thesis using answered by (auto dest: in_set_takeD in_set_dropD)
next
  case (other s s' js)
  then have g: "P (sw s')" "R (sw s) (sw s')" using assms(2) other_steps by auto
  then show ?thesis using other assms(3) by (auto simp: job_ok_def intro: steps_to_later)
qed (use assms(2,3) jobs_ok R_refl in \<open>auto simp: named_socket_def\<close>)

lemma overlap:
  assumes "among\<^sup>*\<^sup>* (s, []) (s', js)" "P (sw s)"
  shows "P (sw s') \<and> R (sw s) (sw s')"
proof -
  have "P (sw (fst b)) \<and> R (sw (fst a)) (sw (fst b)) \<and> (\<forall>j \<in> set (snd b). job_ok j (sw (fst b)))"
    if "among\<^sup>*\<^sup>* a b" "snd a = []" "P (sw (fst a))" for a b
    using that by (induction rule: rtranclp_induct) (auto simp: R_refl dest: among_step intro: R_trans)
  from this [OF assms(1)] assms(2) show ?thesis by simp
qed

end

subsection \<open>The constraints of the schema\<close>

abbreviation schema :: "world \<Rightarrow> bool" where
  "schema \<equiv> \<lambda>w. db_ok (db w)"

lemma keeps_initRows: "keeps schema (\<lambda>w. case initGameRows rows w of (r, w1) \<Rightarrow> e2f_err r w1)"
  by (auto simp: keeps_def initGameRows_def case_prod_unfold Let_def)

lemma alloc_game_db [simp]: "db (snd (alloc_game gid ps rs w)) = db w"
  by (simp add: alloc_game_def Let_def)

interpretation schema: overlapping schema "\<lambda>_ _. True" "\<lambda>_ _. True" "\<lambda>_ _. True"
proof (unfold_locales, unfold guarantees_all)
  show "keeps schema (fchain (alloc_game gid ps) (e2f_err x))" for gid ps x
    by (intro keeps_intros) (simp add: keeps_def)
  show "schema (snd (insertGame row s)) \<and> True" if "schema s" for row s
    using keepsD [OF keeps_insertGame that] by simp
  show "schema (sw s') \<and> True" if "server_step s s'" "schema (sw s)" for s s'
    using server_step_ok that by (simp add: server_ok_def)
qed (auto simp: deleteMurmur_def insertMurmur_def keepsD intro!: keeps_intros keeps_initRows delete_game_ok insert_murmur_ok delete_murmur_ok)

subsection \<open>A given order of actions\<close>

fun advance :: "nat \<Rightarrow> world \<times> job list \<Rightarrow> world \<times> job list" where
  "advance k (w, js) =
     (if k < length js
      then (case js ! k of
              Act f \<Rightarrow> (case f w of (j, w') \<Rightarrow> (w', js[k := j]))
            | Done r \<Rightarrow> (w, js))
      else (w, js))"

lemma advance_among: "advance k (sw s, js) = (w, js') \<Longrightarrow> among\<^sup>*\<^sup>* (s, js) (s\<lparr>sw := w\<rparr>, js')"
  by (auto split: if_splits process.splits prod.splits intro: among.action)

lemma schedule_among: "fold advance ks (sw s, js) = (w, js') \<Longrightarrow> among\<^sup>*\<^sup>* (s, js) (s\<lparr>sw := w\<rparr>, js')"
proof (induction ks arbitrary: s js)
  case (Cons k ks)
  obtain w1 js1 where one: "advance k (sw s, js) = (w1, js1)" by fastforce
  have "among\<^sup>*\<^sup>* (s\<lparr>sw := w1\<rparr>, js1) (s\<lparr>sw := w1\<rparr>\<lparr>sw := w\<rparr>, js')"
    by (rule Cons.IH) (use Cons.prems one in simp)
  then show ?case using advance_among [OF one] by simp
next
  case Nil
  then have "s\<lparr>sw := w\<rparr> = s" "js' = js" by auto
  then show ?case by simp
qed

end
