(* ===== verification/Sound.thy ===== *)
theory Sound
  imports Overlap
begin

text \<open>
  What holds of the games however requests overlap. The invariant of the process (theory Process) does
  not survive that: two requests can bring the same game into memory twice, or leave one there that has
  no row. What does survive: every object is well formed and can be saved, every timer finds its object
  and a round in range, and every state in the database can be restored. From that no request, message
  or timer ever raises an exception that nothing catches, and a process that dies can be started again.
\<close>

subsection \<open>One game\<close>

definition sound_game :: "game \<Rightarrow> bool" where
  "sound_game g \<longleftrightarrow>
     wf_game g \<and> 2 \<le> length (players g) \<and> list_all restorable (rounds g)
     \<and> 0 \<le> currentRound g \<and> currentRound g \<le> int (length (rounds g))
     \<and> (startTime g = None \<longrightarrow>
          currentRound g = 0 \<and> list_all (\<lambda>r. rstartTime r = None) (rounds g) \<and> \<not> both_ready (players g))"

text \<open>A timer of a game is for a game that has started, and does not leave the rounds' range.\<close>

definition timer_of :: "game \<Rightarrow> timer_act \<Rightarrow> bool" where
  "timer_of g tm \<longleftrightarrow> startTime g \<noteq> None \<and>
     (case tm of AnswerTimeout _ _ \<Rightarrow> True | GotoTimeout _ k \<Rightarrow> 0 \<le> k \<and> k \<le> int (length (rounds g)))"

definition acts :: "env \<Rightarrow> timer_act set" where
  "acts e = (\<lambda>(_, _, a). a) ` set (pending e)"

definition sound_change :: "gst \<Rightarrow> gst \<Rightarrow> bool" where
  "sound_change s s' \<longleftrightarrow> (let (g, e) = s; (g', e') = s' in
     sound_game g' \<and> oid g' = oid g \<and> gameId g' = gameId g \<and> length (rounds g') = length (rounds g)
     \<and> (startTime g \<noteq> None \<longrightarrow> startTime g' \<noteq> None)
     \<and> saves e' \<subseteq> {(gameId g, state g), (gameId g, state g')} \<union> saves e
     \<and> (\<forall>tm \<in> acts e'. tm \<in> acts e \<or> act_oid tm = oid g \<and> timer_of g' tm))"

lemma acts_frame [simp]:
  "acts (emit_all xs e) = acts e" "acts (e\<lparr>now := t\<rparr>) = acts e"
  "acts (snd (setTimeout tm ms e)) = insert tm (acts e)"
  by (auto simp: acts_def setTimeout_def)

lemma acts_clearTimeout: "acts (clearTimeout t e) \<subseteq> acts e"
  by (force simp: acts_def pending_clearTimeout split: option.splits)

lemma acts_scheduleTimer: "acts (scheduleTimer gid tm ms e) \<subseteq> insert tm (acts e)"
  using acts_clearTimeout [of "gameTimers e gid" e] by (auto simp: scheduleTimer_eq Let_def acts_def)

lemma sound_stored: "sound_game g \<Longrightarrow> save_ok (gameId g, state g)"
proof -
  assume g: "sound_game g"
  have "\<not> isl (createRound (round_state r))" if "r \<in> set (rounds g)" for r
    using createRound_state g that by (simp add: sound_game_def list_all_iff)
  then show ?thesis using g by (auto simp: save_ok_def stored_ok_def state_def sound_game_def list_all_iff)
qed

lemma sound_gotoRound:
  assumes g: "sound_game (fst s)" and started: "startTime (fst s) \<noteq> None" and k: "0 \<le> k" "k \<le> int (length (rounds (fst s)))"
  shows "sound_change s (gotoRound_fx k s)"
proof -
  obtain g e where s: "s = (g, e)" by fastforce
  obtain g' e' where fx: "gotoRound_fx k (g, e) = (g', e')" by fastforce
  have "cbMap g' = cbMap g" by (metis fx fst_conv fx_cbMap(2))
  then have cb: "wf_game g'" using wf_game_cong [of g' g] g by (simp add: s sound_game_def)
  have ids: "oid g' = oid g" "gameId g' = gameId g" "players g' = players g"
    by (metis fx fst_conv fx_oid(2), metis fx fst_conv fx_gameId(2), metis fx fst_conv gotoRound_fx_players)
  have rs: "list_all restorable (rounds g')" using fx_restorable(1) [of s k] g by (simp add: fx s sound_game_def)
  have rest: "length (rounds g') = length (rounds g)" "startTime g' = startTime g" "currentRound g' = k"
    using fx by (auto simp: s gotoRound_fx_def stop_fx_def Let_def split: option.splits)
  have sv: "saves e' \<subseteq> insert (gameId g, state g') (saves e)" using saves_gotoRound [of k s] by (simp add: fx s)
  have "acts e' \<subseteq> insert (AnswerTimeout (oid g) k) (acts e)"
    using fx acts_scheduleTimer by (fastforce simp: s gotoRound_fx_def stop_fx_def Let_def split: option.splits)
  moreover have "timer_of g' (AnswerTimeout (oid g) k)" using started rest(2) by (simp add: timer_of_def s)
  ultimately show ?thesis using cb ids rs rest sv g started k
    by (auto simp: sound_change_def s fx sound_game_def)
qed

lemma sound_answer:
  assumes g: "sound_game (fst s)" and r: "js_nth (rounds (fst s)) (a_round a) = Some r" "open_round r"
  shows "sound_change s (answer_fx a s)"
proof -
  obtain g e where s: "s = (g, e)" by fastforce
  obtain g' e' where fx: "answer_fx a (g, e) = (g', e')" by fastforce
  have k: "0 \<le> a_round a" "nat (a_round a) < length (rounds g)" "r \<in> set (rounds g)"
    using r(1) by (auto simp: s js_nth_Some_iff)
  have started: "startTime g \<noteq> None"
    using g r(2) k(3) by (auto simp: s sound_game_def list_all_iff open_round_def)
  have "cbMap g' = cbMap g" by (metis fx fst_conv fx_cbMap(4))
  then have cb: "wf_game g'" using wf_game_cong [of g' g] g by (simp add: s sound_game_def)
  have ids: "gameId g' = gameId g" by (metis fx fst_conv fx_gameId(4))
  have rs: "list_all restorable (rounds g')" using fx_restorable(3) [of s a] g by (simp add: fx s sound_game_def)
  have rest: "length (rounds g') = length (rounds g)" "startTime g' = startTime g" "currentRound g' = currentRound g"
    "players g' = players g" "oid g' = oid g"
    using fx by (auto simp: s answer_fx_def Let_def)
  have sv: "saves e' \<subseteq> insert (gameId g, state g) (saves e)" using saves_answer [of a s] by (simp add: fx s)
  have "acts e' \<subseteq> insert (GotoTimeout (oid g) (a_round a + 1)) (acts e)"
    using fx acts_clearTimeout by (fastforce simp: s answer_fx_def Let_def)
  moreover have "timer_of g' (GotoTimeout (oid g) (a_round a + 1))"
    using started rest k by (simp add: timer_of_def)
  ultimately show ?thesis using cb ids rs rest sv g started
    by (auto simp: sound_change_def s fx sound_game_def)
qed

lemma sound_ready:
  assumes g: "sound_game (fst s)"
  shows "sound_change s (playerReady_fx i b s)"
proof -
  obtain g e where s: "s = (g, e)" by fastforce
  let ?ps = "(players g)[i := (players g ! i)\<lparr>ready := b\<rparr>]"
  show ?thesis
  proof (cases "startTime g = None \<and> both_ready ?ps")
    case False
    then show ?thesis using g saves_emit_state [of "g\<lparr>players := ?ps\<rparr>" e]
      by (auto simp: s sound_change_def playerReady_fx_def Let_def sound_game_def)
  next
    case True
    let ?g = "g\<lparr>players := ?ps, startTime := Some (now e)\<rparr>"
    obtain g1 e1 where go: "gotoRound_fx 0 (?g, e) = (g1, e1)" by fastforce
    have "sound_game ?g" using g True by (simp add: s sound_game_def)
    from sound_gotoRound [of "(?g, e)" 0] this
    have "sound_change (?g, e) (g1, e1)" by (simp add: go)
    moreover have "players g1 = ?ps" using gotoRound_fx_players [of 0 "(?g, e)"] by (simp add: go)
    moreover have "playerReady_fx i b s = (g1, emit_all (state_out g1) (emit_all (event_out EvStart GameArg g1) e1))"
      using True go by (simp add: s playerReady_fx_def start_fx_def Let_def)
    moreover have "saves e1 \<subseteq> insert (gameId g, state g1) (saves e)"
      using saves_gotoRound [of 0 "(?g, e)"] by (simp add: go)
    moreover have "saves (emit_all (state_out g1) (emit_all (event_out EvStart GameArg g1) e1)) \<subseteq> insert (gameId g1, state g1) (saves e1)"
      using saves_emit_state saves_emit_event [of EvStart GameArg g1 e1] by blast
    ultimately show ?thesis using True by (auto simp: s sound_change_def)
  qed
qed

subsection \<open>The games of a process\<close>

definition sound_games :: "game list \<Rightarrow> nat list \<Rightarrow> env \<Rightarrow> bool" where
  "sound_games os ms e \<longleftrightarrow>
     (\<forall>i < length os. oid (os ! i) = i \<and> sound_game (os ! i)) \<and> (\<forall>i \<in> set ms. i < length os)
     \<and> (\<forall>tm \<in> acts e. act_oid tm < length os \<and> timer_of (os ! act_oid tm) tm) \<and> (\<forall>x \<in> saves e. save_ok x)"

lemma sound_gamesD:
  assumes "sound_games os ms e"
  shows "i < length os \<Longrightarrow> oid (os ! i) = i" "i < length os \<Longrightarrow> sound_game (os ! i)" "i \<in> set ms \<Longrightarrow> i < length os"
    "tm \<in> acts e \<Longrightarrow> act_oid tm < length os" "tm \<in> acts e \<Longrightarrow> timer_of (os ! act_oid tm) tm"
    "x \<in> saves e \<Longrightarrow> save_ok x"
  using assms by (simp_all add: sound_games_def)

lemma timer_of_later:
  "timer_of g tm \<Longrightarrow> startTime g' \<noteq> None \<Longrightarrow> length (rounds g') = length (rounds g) \<Longrightarrow> timer_of g' tm"
  by (cases tm) (simp_all add: timer_of_def)

lemma sound_games_change:
  assumes inv: "sound_games os ms e" and i: "i < length os" and e0: "acts e0 \<subseteq> acts e" "saves e0 = saves e"
    and ch: "sound_change (os ! i, e0) (g', e')"
  shows "sound_games (os[i := g']) ms e'"
proof -
  note d = sound_gamesD [OF inv]
  have g: "sound_game g'" "oid g' = i" "gameId g' = gameId (os ! i)" "length (rounds g') = length (rounds (os ! i))"
    "startTime (os ! i) \<noteq> None \<Longrightarrow> startTime g' \<noteq> None"
    "saves e' \<subseteq> {(gameId (os ! i), state (os ! i)), (gameId (os ! i), state g')} \<union> saves e"
    "\<forall>tm \<in> acts e'. tm \<in> acts e0 \<or> act_oid tm = i \<and> timer_of g' tm"
    using ch d(1) [OF i] e0(2) by (auto simp: sound_change_def)
  have "timer_of (os[i := g'] ! act_oid tm) tm \<and> act_oid tm < length os" if tm: "tm \<in> acts e'" for tm
  proof (cases "tm \<in> acts e")
    case True
    note t = d(4,5) [OF True]
    show ?thesis
    proof (cases "act_oid tm = i")
      case own: True
      then have "startTime g' \<noteq> None" using t(2) g(5) by (simp add: timer_of_def)
      from timer_of_later [OF _ this g(4)] t own i show ?thesis by simp
    qed (use t in simp)
  next
    case False
    then show ?thesis using g(7) tm e0(1) i by auto
  qed
  moreover have "save_ok x" if "x \<in> saves e'" for x
    using that g(1,3,6) sound_stored [OF g(1)] sound_stored [OF d(2) [OF i]] d(6)
    by (cases x) auto
  moreover have "oid (os[i := g'] ! j) = j \<and> sound_game (os[i := g'] ! j)" if "j < length os" for j
    using that d(1,2) g(1,2) by (cases "j = i") simp_all
  ultimately show ?thesis using d(3) by (simp add: sound_games_def)
qed

lemma sound_change_same: "sound_game (fst s) \<Longrightarrow> sound_change s s"
  by (auto simp: sound_change_def split: prod.split)

text \<open>Messages and timers, on an object that may be in memory or not.\<close>

lemma sound_ops:
  assumes "sound_game (fst s)"
  shows "\<exists>r s'. answer trigger a s = Inr (r, s') \<and> sound_change s s'"
    and "\<exists>r s'. playerReady trigger pid b s = Inr (r, s') \<and> sound_change s s'"
    and "timer_of (fst s) tm \<Longrightarrow> \<exists>s'. fire tm s = Inr s' \<and> sound_change s s'"
proof -
  obtain g e where s: "s = (g, e)" by fastforce
  have wf: "wf_game g" "2 \<le> length (players g)" using assms by (simp_all add: s sound_game_def)
  note same = sound_change_same [OF assms]
  show ans: "\<exists>r s'. answer trigger a s = Inr (r, s') \<and> sound_change s s'" for a
    using sound_answer [OF assms, of a] same
    by (cases "answer_fx a s") (auto simp: s answer_cases [OF wf(1)] split: option.split)
  show "\<exists>r s'. playerReady trigger pid b s = Inr (r, s') \<and> sound_change s s'"
    using sound_ready [OF assms, of "nat (find_index (\<lambda>p. playerId p = pid) (players g))" b] same wf
    by (cases "playerReady_fx (nat (find_index (\<lambda>p. playerId p = pid) (players g))) b s") (auto simp: s method_eqs Let_def)
  show "\<exists>s'. fire tm s = Inr s' \<and> sound_change s s'" if tm: "timer_of (fst s) tm"
  proof (cases tm)
    case (AnswerTimeout i k)
    obtain r s' where "answer trigger \<lparr>a_round = k, a_value = None\<rparr> s = Inr (r, s')" "sound_change s s'"
      using ans by blast
    then show ?thesis using AnswerTimeout by simp
  next
    case (GotoTimeout i k)
    then show ?thesis using sound_gotoRound [OF assms, of k] tm wf(1)
      by (auto simp: s timer_of_def method_eqs)
  qed
qed

text \<open>A new object, created or restored.\<close>

lemma sound_games_alloc:
  assumes "sound_games os ms e" "oid g = length os" "sound_game g"
  shows "sound_games (os @ [g]) ms e"
  using assms by (auto simp: sound_games_def nth_append less_Suc_eq)

lemma sound_new_Game:
  assumes "list_all fresh_round rs" "list_all restorable rs" "2 \<le> length ps"
    and "case cur of None \<Rightarrow> True | Some k \<Rightarrow> 0 \<le> k \<and> k \<le> int (length rs) \<and> (st = None \<longrightarrow> k = 0)"
    and "st = None \<Longrightarrow> \<not> both_ready ps"
  shows "sound_game (new_Game i gid ps rs cur st)"
proof -
  have "wf_game (new_Game i gid ps rs cur st)" by simp
  moreover have "list_all (\<lambda>r. rstartTime r = None) rs" using assms(1) by (auto simp: list_all_iff fresh_round_def)
  ultimately show ?thesis using assms(2-) unfolding sound_game_def
    by (auto simp: new_Game_def split: option.splits)
qed

lemma sound_restored:
  assumes inv: "sound_games os ms e" and gd: "stored_ok gd"
  shows "\<exists>g' e'. deserializeGame (length os) gd e = Inr (Inr g', e') \<and> sound_games (os @ [g']) ms e'
    \<and> gameId g' = gd_gameId gd"
proof -
  let ?i = "length os"
  obtain rs where rs: "aoe2ea (map createRound (gd_rounds gd)) = Inr rs" "length rs = length (gd_rounds gd)"
    using stored_rounds [OF gd] by metis
  let ?g = "new_Game ?i (gd_gameId gd) (gd_players gd) rs (gd_currentRound gd) (gd_startTime gd)"
  have g: "sound_game ?g"
    using gd createRounds_fresh [OF rs(1)] rs(2)
    by (intro sound_new_Game) (auto simp: stored_ok_def split: option.splits)
  have ids: "oid ?g = ?i" "gameId ?g = gd_gameId gd" "rounds ?g = rs" by (simp_all add: new_Game_def)
  have added: "sound_games (os @ [?g]) ms e" by (rule sound_games_alloc [OF inv ids(1) g])
  obtain g' e' where go: "resumeGame (?g, e) = Inr (g', e')" "sound_change (?g, e) (g', e')"
  proof (cases "gd_startTime gd")
    case None
    then have "resumeGame (?g, e) = Inr (?g, e)" by (simp add: resumeGame_def) (simp add: new_Game_def)
    then show thesis using that sound_change_same [of "(?g, e)"] g by simp
  next
    case (Some t)
    have "sound_change (?g, e) (gotoRound_fx (currentRound ?g) (?g, e))"
      using g Some by (intro sound_gotoRound) (simp_all add: sound_game_def, simp_all add: new_Game_def)
    moreover have "resumeGame (?g, e) = Inr (gotoRound_fx (currentRound ?g) (?g, e))"
      using Some by (simp add: resumeGame_def method_eqs) (simp add: new_Game_def)
    ultimately show thesis using that by (metis surj_pair)
  qed
  have "sound_games ((os @ [?g])[?i := g']) ms e'"
    by (rule sound_games_change [OF added]) (use go(2) in simp_all)
  moreover have "deserializeGame ?i gd e = Inr (Inr g', e')" using rs(1) go(1) by (simp add: deserializeGame_def)
  moreover have "gameId g' = gd_gameId gd" using go(2) ids(2) by (simp add: sound_change_def)
  ultimately show ?thesis by simp
qed

subsection \<open>The process\<close>

text \<open>The daemon's answers are objects or lists, when they are JSON at all: never a bare \<open>null\<close>.\<close>

definition polite :: "world \<Rightarrow> bool" where
  "polite w \<longleftrightarrow> (\<forall>log c v. daemon w log = DockerRes c (Some v) \<longrightarrow> \<not> nullish v)"

definition ids_drawn :: "world \<Rightarrow> bool" where
  "ids_drawn w \<longleftrightarrow> inj (uuids w) \<and> (\<forall>n \<ge> uuid_count w. uuids w n \<notin> row_ids w)"

definition sound :: "world \<Rightarrow> bool" where
  "sound w \<longleftrightarrow>
     sound_games (objs w) (memGames w) (genv w) \<and> (\<forall>r \<in> set (t_game (db w)). row_ok r)
     \<and> ids_drawn w \<and> unopened_only w \<and> polite w"

text \<open>What others may do meanwhile: draw ids. What is to become of the accesses to the database stays.\<close>

definition more_drawn :: "world \<Rightarrow> world \<Rightarrow> bool" where
  "more_drawn w w' \<longleftrightarrow> uuids w' = uuids w \<and> dbfate w' = dbfate w \<and> uuid_count w \<le> uuid_count w'"

definition id_drawn :: "world \<Rightarrow> string \<Rightarrow> bool" where
  "id_drawn w gid \<longleftrightarrow> (\<exists>n < uuid_count w. uuids w n = gid)"

type_synonym core =
  "game list \<times> nat list \<times> env \<times> db_game list \<times> (nat \<Rightarrow> string) \<times> nat \<times> (nat \<Rightarrow> db_fate) \<times> (docker_req list \<Rightarrow> docker_res)"

definition core :: "world \<Rightarrow> core" where
  "core w = (objs w, memGames w, genv w, t_game (db w), uuids w, uuid_count w, dbfate w, daemon w)"

definition at_core :: "core \<Rightarrow> world \<Rightarrow> bool" where
  "at_core c w \<longleftrightarrow> core w = c \<and> unopened_only w"

lemma sound_core: "core w' = core w \<Longrightarrow> unopened_only w' = unopened_only w \<Longrightarrow> sound w' = sound w \<and> more_drawn w w'"
  by (simp add: core_def sound_def ids_drawn_def row_ids_def polite_def more_drawn_def)

lemma guarantees_core: "(\<And>c. keeps (at_core c) m) \<Longrightarrow> guarantees sound more_drawn m"
  unfolding guarantees_def keeps_def at_core_def using sound_core by (metis sound_def)

lemma keeps_core_withDb [keeps_intros]:
  "(\<And>d a d'. q d = Inr (a, d') \<Longrightarrow> t_game d' = t_game d) \<Longrightarrow> keeps (at_core c) (withDb q)"
  by (auto simp: keeps_def at_core_def core_def unopened_only_def withDb_def Let_def split: db_fate.split sum.split)

lemma core_dirs [simp]:
  "core (snd (createRecDir m b w)) = core w" "core (snd (removeRecDir m w)) = core w"
  "unopened_only (snd (createRecDir m b w)) = unopened_only w" "unopened_only (snd (removeRecDir m w)) = unopened_only w"
  by (auto simp: core_def createRecDir_def removeRecDir_def mkdirSync_def rmdirSync_def split: option.split)

lemma keeps_core [keeps_intros]:
  "keeps (at_core c) getSessions" "keeps (at_core c) getAttacks"
  "keeps (at_core c) (getSessionById sid)" "keeps (at_core c) (getPlayerSession pid)"
  "keeps (at_core c) (getSessionGames sid)" "keeps (at_core c) (getCurrentGame sid)"
  "keeps (at_core c) (getMurmurBySessionId sid)" "keeps (at_core c) (getRecordings m)"
  "keeps (at_core c) (insertSession p)" "keeps (at_core c) (deleteSession x)"
  "keeps (at_core c) (deleteSessionAttacks x)" "keeps (at_core c) (insertMurmur m)"
  "keeps (at_core c) (deleteMurmur m)"
proof -
  have all: "keeps (at_core c) (withDb (select_all t))" for t
    by (intro keeps_intros) (auto simp: select_all_def)
  show s: "keeps (at_core c) getSessions" "keeps (at_core c) getAttacks"
    unfolding getSessions_def getAttacks_def by (rule all)+
  show "keeps (at_core c) (getSessionById sid)" "keeps (at_core c) (getPlayerSession pid)"
    unfolding getSessionById_def getPlayerSession_def
    by (intro keeps_fchain s; auto intro: keeps_intros split: option.split)+
  show g: "keeps (at_core c) (getSessionGames sid)" for sid
    unfolding getSessionGames_def fchain_fmap by (intro keeps_fchain all keeps_parallel1) (auto intro: keeps_e2f)
  show "keeps (at_core c) (getCurrentGame sid)"
    unfolding getCurrentGame_def by (intro keeps_fchain g keeps_intros) (simp add: keeps_def)
  show "keeps (at_core c) (getMurmurBySessionId sid)"
    unfolding getMurmurBySessionId_def by (intro keeps_fchain all) (auto intro: keeps_intros split: list.split)
  have "keeps (at_core c) (readdirP d)" for d by (simp add: keeps_def readdirP_def)
  then show "keeps (at_core c) (getRecordings m)" unfolding getRecordings_def by (intro keeps_intros)
  show "keeps (at_core c) (insertSession p)" "keeps (at_core c) (deleteSession x)"
    "keeps (at_core c) (deleteSessionAttacks x)" "keeps (at_core c) (insertMurmur m)"
    "keeps (at_core c) (deleteMurmur m)"
    unfolding insertSession_def deleteSession_def deleteSessionAttacks_def insertMurmur_def deleteMurmur_def
    by (intro keeps_intros; auto simp: insert_session_stmt_def delete_session_stmt_def delete_attacks_stmt_def
        insert_murmur_stmt_def delete_murmur_stmt_def Let_def split: if_splits)+
qed

text \<open>Requests to a daemon that is polite.\<close>

lemma dockerReq_sound:
  assumes "sound w"
  shows "sound (snd (dockerReq m ep q b w)) \<and> more_drawn w (snd (dockerReq m ep q b w))"
    and "dockerReq m ep q b w = (Inr v, w') \<Longrightarrow> \<not> nullish v"
proof -
  have v: "\<not> nullish (parseResponseBody body)" if "daemon w log = DockerRes c body" for log c body
    using assms that by (cases body) (auto simp: parseResponseBody_def sound_def polite_def)
  have "core (snd (dockerReq m ep q b w)) = core w" "unopened_only (snd (dockerReq m ep q b w)) = unopened_only w"
    using v by (auto simp: core_def dockerReq_def Let_def split: docker_res.split)
  then show "sound (snd (dockerReq m ep q b w)) \<and> more_drawn w (snd (dockerReq m ep q b w))"
    using sound_core [of "snd (dockerReq m ep q b w)" w] assms by blast
  show "dockerReq m ep q b w = (Inr v, w') \<Longrightarrow> \<not> nullish v"
    using v by (auto simp: dockerReq_def Let_def split: docker_res.splits if_splits)
qed

lemma more_drawn_refl: "more_drawn w w"
  by (simp add: more_drawn_def)

lemma more_drawn_trans: "more_drawn u v \<Longrightarrow> more_drawn v w \<Longrightarrow> more_drawn u w"
  by (simp add: more_drawn_def)

lemma guarantees_docker:
  "guarantees sound more_drawn (docker_stop cs)" "guarantees sound more_drawn (docker_rm cs)"
  "guarantees sound more_drawn (docker_start c)" "guarantees sound more_drawn (createContainer m)"
proof -
  have req: "keeps (\<lambda>t. sound t \<and> more_drawn s t) (dockerReq mt ep q b)" for s mt ep q b
    using dockerReq_sound(1) more_drawn_trans unfolding keeps_def by blast
  show "guarantees sound more_drawn (docker_stop cs)" "guarantees sound more_drawn (docker_rm cs)"
    "guarantees sound more_drawn (docker_start c)"
    by (rule guarantees_keeps [OF _ more_drawn_refl], auto simp: docker_defs intro!: keeps_intros req)+
  show "guarantees sound more_drawn (createContainer m)" unfolding guarantees_def
  proof (intro allI impI)
    fix s assume s: "sound s"
    obtain r t where run: "docker_create (murmurId m) (container_config m) s = (r, t)" by fastforce
    have "sound t \<and> more_drawn s t" using dockerReq_sound(1) [OF s] run by (metis docker_create_def snd_conv)
    moreover have "\<not> nullish v" if "r = Inr v" for v
      using dockerReq_sound(2) [OF s] run that unfolding docker_create_def by metis
    ultimately show "sound (snd (createContainer m s)) \<and> more_drawn s (snd (createContainer m s))"
      using run by (cases r) (simp_all add: createContainer_def fchain_def js_prop_def)
  qed
qed

text \<open>Rows.\<close>

lemma sound_db:
  assumes "sound w" "\<forall>r \<in> set (t_game d). row_ok r"
    and "\<And>n. uuid_count w \<le> n \<Longrightarrow> uuids w n \<notin> row_gameId ` set (t_game d)"
  shows "sound (w\<lparr>dbcount := n, db := d\<rparr>) \<and> more_drawn w (w\<lparr>dbcount := n, db := d\<rparr>)"
  using assms by (simp add: sound_def ids_drawn_def row_ids_def polite_def more_drawn_def)

lemma sound_dbcount: "sound (w\<lparr>dbcount := n\<rparr>) = sound w" "more_drawn w (w\<lparr>dbcount := n\<rparr>)"
  using sound_core [of "w\<lparr>dbcount := n\<rparr>" w] by (simp_all add: core_def)

lemma sound_withDb:
  assumes "sound w"
    and "\<And>a d. q (db w) = Inr (a, d) \<Longrightarrow> (\<forall>r \<in> set (t_game d). row_ok r)
      \<and> (\<forall>n \<ge> uuid_count w. uuids w n \<notin> row_gameId ` set (t_game d))"
  shows "sound (snd (withDb q w)) \<and> more_drawn w (snd (withDb q w))"
proof -
  have "sound (w\<lparr>dbcount := n, db := d\<rparr>) \<and> more_drawn w (w\<lparr>dbcount := n, db := d\<rparr>)" if "q (db w) = Inr (a, d)" for a d n
    using sound_db [OF assms(1)] assms(2) [OF that] by blast
  moreover have "sound (w\<lparr>dbcount := n, crashed := Some CannotOpen\<rparr>) \<and> more_drawn w (w\<lparr>dbcount := n, crashed := Some CannotOpen\<rparr>)"
    if "dbfate w k = OpenFails" for n k
    using assms(1) that by (auto simp: sound_def ids_drawn_def row_ids_def polite_def more_drawn_def unopened_only_def)
  ultimately show ?thesis using assms(1) sound_dbcount
    by (auto simp: withDb_def Let_def split: db_fate.split sum.split)
qed

lemma guarantees_rows_kept: "rows_kept q \<Longrightarrow> guarantees sound more_drawn (withDb q)"
  unfolding guarantees_def
proof (intro allI impI)
  fix w assume q: "rows_kept q" and w: "sound w"
  show "sound (snd (withDb q w)) \<and> more_drawn w (snd (withDb q w))"
  proof (rule sound_withDb [OF w])
    fix a d assume "q (db w) = Inr (a, d)"
    then have "(\<forall>r \<in> set (t_game d). row_ok r) \<and> row_gameId ` set (t_game d) \<subseteq> row_ids w"
      using q w unfolding rows_kept_def sound_def row_ids_def by blast
    then show "(\<forall>r \<in> set (t_game d). row_ok r) \<and> (\<forall>n \<ge> uuid_count w. uuids w n \<notin> row_gameId ` set (t_game d))"
      using w by (auto simp: sound_def ids_drawn_def)
  qed
qed

lemma insertGame_sound:
  assumes w: "sound w" and row: "id_drawn w (gr_gameId row)" "save_ok (gr_gameId row, gr_data row)"
  shows "sound (snd (insertGame row w)) \<and> more_drawn w (snd (insertGame row w))"
proof -
  obtain k where k: "k < uuid_count w" "uuids w k = gr_gameId row" using row(1) by (auto simp: id_drawn_def)
  have new: "uuids w n \<noteq> gr_gameId row" if "uuid_count w \<le> n" for n
    using w k that by (metis ids_drawn_def injD leD sound_def)
  have "sound (snd (withDb (insert_game_stmt r) w)) \<and> more_drawn w (snd (withDb (insert_game_stmt r) w))"
    if "row_gameId r = gr_gameId row" "row_ok r" for r
  proof (rule sound_withDb [OF w])
    fix a d assume "insert_game_stmt r (db w) = Inr (a, d)"
    then have "t_game d = t_game (db w) @ [r]" by (auto simp: insert_game_stmt_def split: if_splits)
    moreover have "\<forall>n \<ge> uuid_count w. uuids w n \<notin> row_gameId ` set (t_game (db w))"
      using w by (simp add: sound_def ids_drawn_def row_ids_def)
    ultimately show "(\<forall>r \<in> set (t_game d). row_ok r) \<and> (\<forall>n \<ge> uuid_count w. uuids w n \<notin> row_gameId ` set (t_game d))"
      using w new that by (simp add: sound_def)
  qed
  then show ?thesis using row(2) by (simp add: insertGame_def fmap_snd row_ok_def)
qed

text \<open>Objects and memory.\<close>

lemma sound_games_world:
  assumes "sound w" "sound_games os ms e"
  shows "sound (w\<lparr>objs := os, memGames := ms, genv := e\<rparr>)"
    and "more_drawn w (w\<lparr>objs := os, memGames := ms, genv := e\<rparr>)"
  using assms by (simp_all add: sound_def ids_drawn_def row_ids_def polite_def more_drawn_def)

lemma sound_gamesI: "sound w \<Longrightarrow> sound_games (objs w) (memGames w) (genv w)"
  by (simp add: sound_def)

lemma listen_sound:
  assumes w: "sound w" and l: "leaf l" "ev \<noteq> EvPlayerReady"
  shows "sound (listen i ev l w) \<and> more_drawn w (listen i ev l w)"
proof (cases "i < length (objs w)")
  case False
  then show ?thesis using w by (simp add: listen_def list_update_beyond more_drawn_def)
next
  case True
  let ?g = "(objs w ! i)\<lparr>cbMap := on ev l (cbMap (objs w ! i))\<rparr>"
  note g = sound_gamesD(2) [OF sound_gamesI [OF w] True]
  have "sound_game ?g" using g wf_game_on [OF _ l] by (simp add: sound_game_def)
  then have "sound_change (objs w ! i, genv w) (?g, genv w)" by (auto simp: sound_change_def)
  from sound_games_change [OF sound_gamesI [OF w] True _ _ this]
  have "sound_games ((objs w)[i := ?g]) (memGames w) (genv w)" by simp
  from sound_games_world [OF w this] show ?thesis by (simp add: listen_def)
qed

lemma set_splice1: "set (splice1 i xs) \<subseteq> set xs"
  by (auto simp: splice1_def Let_def dest: in_set_takeD in_set_dropD)

lemma sound_memory:
  assumes "sound w" "set ms \<subseteq> {..<length (objs w)}"
  shows "sound (w\<lparr>memGames := ms\<rparr>) \<and> more_drawn w (w\<lparr>memGames := ms\<rparr>)"
proof -
  have "sound_games (objs w) ms (genv w)" using sound_gamesI [OF assms(1)] assms(2) by (auto simp: sound_games_def)
  from sound_games_world [OF assms(1) this] show ?thesis by simp
qed

lemma sound_memory_range: "sound w \<Longrightarrow> set (memGames w) \<subseteq> {..<length (objs w)}"
  using sound_gamesD(3) [OF sound_gamesI] by auto

lemma removeMemGame_sound: "sound w \<Longrightarrow> sound (removeMemGame i w) \<and> more_drawn w (removeMemGame i w)"
  unfolding removeMemGame_def mem_remove_def
  by (intro sound_memory order_trans [OF set_splice1 sound_memory_range])

lemma set_mem_set_subset: "set (mem_set key v xs) \<subseteq> insert v (set xs)"
  by (auto simp: mem_set_def Let_def dest!: subsetD [OF set_update_subset_insert])

lemma setMemGame_sound:
  "sound w \<Longrightarrow> i < length (objs w) \<Longrightarrow> sound (setMemGame i w) \<and> more_drawn w (setMemGame i w)"
  unfolding setMemGame_def using sound_memory_range
  by (intro sound_memory order_trans [OF set_mem_set_subset]) simp_all

lemma initGame_sound:
  assumes w: "sound w" and gd: "save_ok (gid, gd)"
  shows "sound (snd (initGame gd w)) \<and> more_drawn w (snd (initGame gd w))"
proof -
  obtain g' e' where run: "deserializeGame (length (objs w)) gd (genv w) = Inr (Inr g', e')"
    and g: "sound_games (objs w @ [g']) (memGames w) e'"
    using sound_restored [OF sound_gamesI [OF w], of gd] gd by (auto simp: save_ok_def)
  let ?w = "w\<lparr>objs := objs w @ [g'], genv := e'\<rparr>"
  have "sound ?w \<and> more_drawn w ?w" using sound_games_world [OF w g] by simp
  moreover have "snd (initGame gd w) = setMemGame (length (objs w)) ?w" using run by (simp add: initGame_def Let_def)
  ultimately show ?thesis using setMemGame_sound [of ?w "length (objs w)"] more_drawn_trans by auto
qed

lemma init_games_sound:
  "sound w \<Longrightarrow> \<forall>gd \<in> set gds. \<exists>gid. save_ok (gid, gd) \<Longrightarrow>
     sound (snd (init_games gds w)) \<and> more_drawn w (snd (init_games gds w))"
proof (induction gds arbitrary: w)
  case (Cons gd gds)
  obtain gid where "save_ok (gid, gd)" using Cons.prems(2) by auto
  note w1 = initGame_sound [OF Cons.prems(1) this]
  show ?case using w1 Cons.IH [of "snd (initGame gd w)"] Cons.prems(2) more_drawn_trans
    by (auto simp: Let_def case_prod_unfold)
qed (simp add: more_drawn_refl)

text \<open>A method call and a timer.\<close>

lemma on_object_sound:
  assumes w: "sound w" and i: "i < length (objs w)" and e0: "acts e0 \<subseteq> acts (genv w)" "saves e0 = saves (genv w)"
    and run: "\<exists>r s'. f (objs w ! i, e0) = Inr (r, s') \<and> sound_change (objs w ! i, e0) s'"
  shows "sound (snd (on_object i f (w\<lparr>genv := e0\<rparr>)))" "more_drawn w (snd (on_object i f (w\<lparr>genv := e0\<rparr>)))"
proof -
  obtain r g' e' where f: "f (objs w ! i, e0) = Inr (r, (g', e'))" "sound_change (objs w ! i, e0) (g', e')"
    using run by force
  note k = sound_games_world [OF w sound_games_change [OF sound_gamesI [OF w] i e0 f(2)]]
  show "sound (snd (on_object i f (w\<lparr>genv := e0\<rparr>)))" "more_drawn w (snd (on_object i f (w\<lparr>genv := e0\<rparr>)))"
    using k f(1) by (simp_all add: on_object_def)
qed

lemma getGame_sound: "sound w \<Longrightarrow> getGame gid w = Inr i \<Longrightarrow> i < length (objs w)"
  using getGame_key sound_gamesD(3) [OF sound_gamesI] by blast

lemma with_game_sound:
  assumes w: "sound (sw s)"
    and f: "\<And>s. sound_game (fst s) \<Longrightarrow> \<exists>r s'. f s = Inr (r, s') \<and> sound_change s s'"
    and bad: "\<And>m t. sw (bad m t) = sw t"
  shows "sound (sw (with_game sk f bad s)) \<and> more_drawn (sw s) (sw (with_game sk f bad s))"
proof -
  have "sound (snd (on_object i f (sw s))) \<and> more_drawn (sw s) (snd (on_object i f (sw s)))"
    if i: "getGame gid (sw s) = Inr i" for gid i
  proof -
    note i = getGame_sound [OF w i]
    from on_object_sound [OF w i, of "genv (sw s)" f] f [of "(objs (sw s) ! i, genv (sw s))"]
      sound_gamesD(2) [OF sound_gamesI [OF w] i] show ?thesis by simp
  qed
  then show ?thesis using w bad by (auto simp: with_game_def more_drawn_refl split: option.split sum.split)
qed

lemma run_timer_sound:
  assumes w: "sound w" and p: "(t, due, tm) \<in> set (pending (genv w))"
  shows "sound (run_timer t tm w) \<and> more_drawn w (run_timer t tm w)"
proof -
  let ?e0 = "(genv w)\<lparr>pending := filter (\<lambda>p. fst p \<noteq> t) (pending (genv w))\<rparr>"
  have tm: "tm \<in> acts (genv w)" using p by (force simp: acts_def)
  note d = sound_gamesD [OF sound_gamesI [OF w]]
  have "\<exists>s'. fire tm (objs w ! act_oid tm, ?e0) = Inr s' \<and> sound_change (objs w ! act_oid tm, ?e0) s'"
    using sound_ops(3) [of "(objs w ! act_oid tm, ?e0)" tm] d(2) d(4,5) [OF tm] by simp
  then have "\<exists>r s'. mapR (\<lambda>s'. ((), s')) (fire tm (objs w ! act_oid tm, ?e0)) = Inr (r, s')
      \<and> sound_change (objs w ! act_oid tm, ?e0) s'" by (auto simp: mapR_def)
  moreover have "acts ?e0 \<subseteq> acts (genv w)" by (force simp: acts_def)
  ultimately show ?thesis unfolding run_timer_def
    using on_object_sound [OF w d(4) [OF tm], of ?e0 "\<lambda>s. mapR (\<lambda>s'. ((), s')) (fire tm s)"] by simp
qed

subsection \<open>Requests\<close>

lemma getSessionGames_sound:
  assumes w: "sound w" and run: "getSessionGames sid w = (Inr rows, w')"
  shows "\<forall>row \<in> set rows. save_ok (gr_gameId row, gr_data row)"
proof
  fix row assume row: "row \<in> set rows"
  let ?rs = "filter (\<lambda>r. row_sessionId r = sid) (t_game (db w))"
  obtain w1 where w1: "parallel1 (map (\<lambda>r. e2f_err (normalizeGameRow r)) ?rs) w1 = (Inr rows, w')"
    using run by (auto simp: getSessionGames_def fchain_fmap fchain_def withDb_def select_all_def Let_def
        split: db_fate.splits)
  have all: "\<forall>row \<in> set rows. \<exists>r \<in> set rs. normalizeGameRow r = Inr row"
    if "parallel1 (map (\<lambda>r. e2f_err (normalizeGameRow r)) rs) v = (Inr rows, v')" for rs rows v v'
    using that
  proof (induction rs arbitrary: rows v)
    case (Cons r rs)
    then obtain b bs where "normalizeGameRow r = Inr b" "rows = b # bs"
      "parallel1 (map (\<lambda>r. e2f_err (normalizeGameRow r)) rs) v = (Inr bs, v')"
      by (cases "normalizeGameRow r") (auto split: prod.splits sum.splits)
    then show ?case using Cons.IH by fastforce
  qed auto
  obtain r where r: "r \<in> set ?rs" "normalizeGameRow r = Inr row" using all [OF w1] row by blast
  then have "row_ok r" using w by (auto simp: sound_def)
  then show "save_ok (gr_gameId row, gr_data row)"
    using r(2) by (auto simp: row_ok_def normalizeGameRow_def parseJSON_def)
qed

lemma alloc_sound:
  fixes blue red gid :: string
  defines "m \<equiv> \<lambda>sch. fchain (alloc_game gid (map (\<lambda>q. createPlayer (Inl q)) [blue, red])) (e2f_err (aoe2ea (map createRound sch)))"
  assumes w: "sound w"
  shows "sound (snd (m sch w)) \<and> more_drawn w (snd (m sch w))"
    and "m sch w = (Inr gd, w') \<Longrightarrow> save_ok (gid, gd)"
proof -
  let ?ps = "[\<lparr>playerId = blue, ready = False\<rparr>, \<lparr>playerId = red, ready = False\<rparr>]"
  have g: "sound_game (new_Game (length (objs w)) gid ?ps rs None None)"
    if "aoe2ea (map createRound sch) = Inr rs" for rs
    using createRounds_fresh [OF that] by (intro sound_new_Game) (simp_all add: both_ready_def)
  have ids: "oid (new_Game i gid ps rs None None) = i" "gameId (new_Game i gid ps rs None None) = gid" for i ps rs
    by (simp_all add: new_Game_def)
  show "sound (snd (m sch w)) \<and> more_drawn w (snd (m sch w))"
  proof (cases "aoe2ea (map createRound sch)")
    case (Inl x)
    then show ?thesis using w by (simp add: m_def fchain_def more_drawn_refl)
  next
    case (Inr rs)
    from sound_games_world [OF w sound_games_alloc [OF sound_gamesI [OF w] ids(1) g [OF Inr]]]
    show ?thesis using Inr by (simp add: m_def fchain_def alloc_game_def Let_def)
  qed
  show "m sch w = (Inr gd, w') \<Longrightarrow> save_ok (gid, gd)"
  proof (cases "aoe2ea (map createRound sch)")
    case (Inr rs)
    then show "m sch w = (Inr gd, w') \<Longrightarrow> save_ok (gid, gd)"
      using sound_stored [OF g [OF Inr]] by (auto simp: m_def fchain_def alloc_game_def Let_def ids)
  qed (simp add: m_def fchain_def)
qed

lemma createAttack_sound:
  assumes row: "save_ok (gr_gameId row, gr_data row)"
  shows "guarantees sound more_drawn (createAttack row wav k)"
proof -
  have ins: "guarantees sound more_drawn (insertAttack a)" for a
    unfolding insertAttack_def guarantees_def using guaranteesD [OF guarantees_rows_kept [OF rows_kept_stmts(5)]]
    by (simp add: fmap_snd)
  have "2 \<le> length (gd_players (gr_data row))" using row by (simp add: save_ok_def stored_ok_def)
  then obtain x y zs where "map playerId (gd_players (gr_data row)) = x # y # zs"
    by (metis Suc_le_length_iff length_map numeral_2_eq_2)
  then show ?thesis using ins by (auto simp: guarantees_def createAttack_def)
qed

lemma initGameRows_sound:
  assumes "\<forall>row \<in> set rows. save_ok (gr_gameId row, gr_data row)"
  shows "guarantees sound more_drawn (\<lambda>w. case initGameRows rows w of (r, w1) \<Rightarrow> e2f_err r w1)"
  unfolding guarantees_def
proof (intro allI impI)
  fix w assume w: "sound w"
  have "\<forall>gd \<in> set (map gr_data (sort_key gr_order rows)). \<exists>gid. save_ok (gid, gd)" using assms by auto
  from init_games_sound [OF w this]
  show "sound (snd (case initGameRows rows w of (r, w1) \<Rightarrow> e2f_err r w1))
      \<and> more_drawn w (snd (case initGameRows rows w of (r, w1) \<Rightarrow> e2f_err r w1))"
    by (simp add: initGameRows_def case_prod_unfold Let_def)
qed

lemma draws_sound:
  assumes w: "sound w"
  defines "w' \<equiv> w\<lparr>uuid_count := Suc (uuid_count w)\<rparr>"
  shows "sound w' \<and> more_drawn w w' \<and> id_drawn w' (uuids w (uuid_count w))"
  using w by (auto simp: w'_def sound_def ids_drawn_def row_ids_def polite_def more_drawn_def id_drawn_def)

lemma dirs_sound:
  "sound w \<Longrightarrow> sound (snd (createRecDir m b w)) \<and> more_drawn w (snd (createRecDir m b w))"
  "sound w \<Longrightarrow> sound (snd (removeRecDir m w)) \<and> more_drawn w (snd (removeRecDir m w))"
  using sound_core [OF core_dirs(1,3)] sound_core [OF core_dirs(2,4)] by blast+

interpretation sound_requests: request_steps sound more_drawn id_drawn "\<lambda>gid gd. save_ok (gid, gd)"
proof unfold_locales
  show "more_drawn s s" for s by (rule more_drawn_refl)
  show "more_drawn s t \<Longrightarrow> more_drawn t u \<Longrightarrow> more_drawn s u" for s t u by (rule more_drawn_trans)
  show "id_drawn s gid \<Longrightarrow> more_drawn s t \<Longrightarrow> id_drawn t gid" for s gid t
    by (force simp: id_drawn_def more_drawn_def)
  show "guarantees sound more_drawn
      (fchain (alloc_game gid (map (\<lambda>q. createPlayer (Inl q)) [blue, red])) (e2f_err (aoe2ea (map createRound sch))))"
    for gid blue red sch unfolding guarantees_def using alloc_sound(1) by blast
  show "save_ok (gid, gd)" if "sound s"
      "fchain (alloc_game gid (map (\<lambda>q. createPlayer (Inl q)) [blue, red])) (e2f_err (aoe2ea (map createRound sch))) s = (Inr gd, t)"
    for gid blue red sch s gd t using alloc_sound(2) that .
  show "sound (snd (insertGame row s)) \<and> more_drawn s (snd (insertGame row s))"
    if "sound s" "id_drawn s (gr_gameId row)" "save_ok (gr_gameId row, gr_data row)" for s row
    using that by (rule insertGame_sound)
  show "guarantees sound more_drawn (createAttack row wav k)" if "save_ok (gr_gameId row, gr_data row)" for row wav k
    using that by (rule createAttack_sound)
qed ((rule guarantees_core, rule keeps_core)
  | (rule guarantees_docker guarantees_rows_kept rows_kept_stmts getSessionGames_sound initGameRows_sound
       removeMemGame_sound dirs_sound listen_sound draws_sound; assumption?))+

subsection \<open>Everything a server does\<close>

lemma prun_sound:
  assumes "\<And>s. steps_keep sound more_drawn p s" "prun p = m" "sound w"
  shows "sound (snd (m w)) \<and> more_drawn w (snd (m w))"
  using sound_requests.steps_to_run [OF assms(1,3) more_drawn_refl] assms(2) by simp

lemma fork_sound:
  assumes "guarantees sound more_drawn m" "sound (sw s)"
    and "\<And>e t. sound (sw t) \<Longrightarrow> sound (sw (rej e t)) \<and> more_drawn (sw t) (sw (rej e t))"
    and "\<And>a t. sound (sw t) \<Longrightarrow> sound (sw (res a t)) \<and> more_drawn (sw t) (sw (res a t))"
  shows "sound (sw (fork_fut m rej res s)) \<and> more_drawn (sw s) (sw (fork_fut m rej res s))"
proof -
  obtain r w where m: "m (sw s) = (r, w)" by fastforce
  then have w: "sound w" "more_drawn (sw s) w" using guaranteesD [OF assms(1,2)] by simp_all
  show ?thesis
    using assms(3,4) [of "s\<lparr>sw := w\<rparr>"] w m more_drawn_trans by (cases r) (auto simp: fork_fut_def)
qed

lemma connect_sound:
  assumes "sound (sw s)"
  shows "sound (sw (onConnect sk query s)) \<and> more_drawn (sw s) (sw (onConnect sk query s))"
proof -
  have player: "sound (sw (onPlayerConnect sk pid t)) \<and> more_drawn (sw t) (sw (onPlayerConnect sk pid t))"
    if "sound (sw t)" for pid t
    unfolding onPlayerConnect_def
    by (rule fork_sound [OF guarantees_core that]) (auto simp: Let_def more_drawn_refl listen_sound intro!: keeps_intros)
  show ?thesis
  proof (cases "getHandshakeQuery query")
    case (Inr pid)
    then show ?thesis using player [of "named_socket sk pid s" pid] assms
      by (simp add: onConnect_def named_socket_def)
  qed (use assms in \<open>simp add: onConnect_def more_drawn_refl\<close>)
qed

lemma listen_all_sound: "sound w \<Longrightarrow> sound (listen_all is sk w) \<and> more_drawn w (listen_all is sk w)"
proof (induction "is" arbitrary: w)
  case (Cons i "is")
  have "sound (listen i EvState (AdminListener sk) w) \<and> more_drawn w (listen i EvState (AdminListener sk) w)"
    using Cons.prems by (rule listen_sound) simp_all
  then show ?case using Cons.IH more_drawn_trans by (metis listen_all.simps(2))
qed (simp add: more_drawn_refl)

lemma run_effect_sound:
  assumes "sound w" "x \<in> set (out (genv w))"
  shows "sound (run_effect x w) \<and> more_drawn w (run_effect x w)"
proof (cases x)
  case (SaveGame gid gd)
  have "save_ok (gid, gd)" using assms SaveGame sound_gamesD(6) [OF sound_gamesI] by (auto simp: saves_def)
  then show ?thesis using guaranteesD [OF guarantees_rows_kept [OF rows_kept_update] assms(1)]
    by (simp add: SaveGame save_row_def)
next
  case (SetCurrentGame sid gid)
  then show ?thesis using guaranteesD [OF guarantees_rows_kept [OF rows_kept_set_current] assms(1)]
    by (simp add: setCurrentGame_def)
qed (use assms in \<open>simp_all add: more_drawn_refl\<close>)

lemma server_step_sound:
  "server_step s s' \<Longrightarrow> sound (sw s) \<Longrightarrow> sound (sw s') \<and> more_drawn (sw s) (sw s')"
proof (induction rule: server_step.induct)
  case (connect s sk query)
  then show ?case by (rule connect_sound)
next
  case (answer_msg s sk a)
  then show ?case unfolding onAnswer_msg_def by (intro with_game_sound sound_ops(1)) simp_all
next
  case (ready_msg s sk b)
  have "sound (sw (with_game sk (playerReady trigger pid b) (emitError sk) s))
      \<and> more_drawn (sw s) (sw (with_game sk (playerReady trigger pid b) (emitError sk) s))" for pid
    using ready_msg(2) by (intro with_game_sound sound_ops(2)) simp_all
  then show ?case using ready_msg(2) by (simp add: onPlayerReady_msg_def more_drawn_refl split: option.split)
next
  case (disconnect s sk)
  have "sound (sw (with_game sk (playerReady trigger pid False) (\<lambda>_ t. t) s))
      \<and> more_drawn (sw s) (sw (with_game sk (playerReady trigger pid False) (\<lambda>_ t. t) s))" for pid
    using disconnect(2) by (intro with_game_sound sound_ops(2)) simp_all
  then show ?case using disconnect(2) by (simp add: onDisconnect_msg_def more_drawn_refl split: option.split sum.split)
next
  case (admin_conn s sk)
  then show ?case by (simp add: admin_connect_def Let_def listen_all_sound)
next
  case (create s sk p)
  have "guarantees sound more_drawn (fchain (\<lambda>_. createSession p) (e2f_err (validateCreateSessionParams (session_params p))))"
    unfolding guarantees_def
    using prun_sound [of "pchain (\<lambda>_. createSession_steps p) (act (e2f_err (validateCreateSessionParams (session_params p))))"]
    by (auto simp: alone intro!: steps_intros)
  from fork_sound [OF this create] show ?case unfolding admin_create_session_def by (simp add: more_drawn_refl)
next
  case (recordings s sk sid)
  show ?case unfolding admin_get_recordings_def
    by (rule fork_sound [OF guarantees_core recordings]) (auto intro!: keeps_intros simp: more_drawn_refl)
next
  case (sessions s sk)
  show ?case unfolding admin_get_sessions_def
    by (rule fork_sound [OF guarantees_core sessions]) (auto intro!: keeps_intros simp: more_drawn_refl)
next
  case (remove s sk sid)
  have "guarantees sound more_drawn (removeSession sid)"
    unfolding guarantees_def using prun_sound [OF sound_requests.keep_removeSession removeSession_alone] by blast
  from fork_sound [OF this remove] show ?case unfolding admin_remove_session_def by (simp add: more_drawn_refl)
next
  case (effect x s)
  then show ?case by (simp add: run_effect_sound)
next
  case (time d s)
  have "sound_games (objs (sw s)) (memGames (sw s)) ((genv (sw s))\<lparr>now := now (genv (sw s)) + d\<rparr>)"
    using sound_gamesI [OF time(2)] by (simp add: sound_games_def)
  from sound_games_world [OF time(2) this] show ?case by (simp add: pass_time_def)
next
  case (timer t due tm s)
  then show ?case by (simp add: run_timer_sound)
qed

interpretation sound_server: overlapping sound more_drawn id_drawn "\<lambda>gid gd. save_ok (gid, gd)"
  by unfold_locales (rule server_step_sound)

subsection \<open>Lives of the process\<close>

text \<open>A process that starts on a database some earlier one has left; any access to it may fail.\<close>

definition starting :: "world \<Rightarrow> bool" where
  "starting w \<longleftrightarrow>
     objs w = [] \<and> memGames w = [] \<and> idle_env (genv w) \<and> out (genv w) = [] \<and> db_ok (db w)
     \<and> (\<forall>r \<in> set (t_game (db w)). row_ok r) \<and> ids_drawn w \<and> crashed w = None \<and> polite w"

text \<open>
  The states of servers and of the requests under way: a process starts and listens, does anything it
  can do, and may die at any moment, which starts the next one.
\<close>

inductive history :: "server \<times> job list \<Rightarrow> bool" where
  boots: "starting w \<Longrightarrow> main_listens w = (True, sw s) \<Longrightarrow> history (s, [])"
| runs: "history a \<Longrightarrow> among a b \<Longrightarrow> history b"
| dies: "history (s, js) \<Longrightarrow> main_listens (restarted (sw s)) = (True, sw s') \<Longrightarrow> history (s', [])"

lemma starting_sound: "starting w \<Longrightarrow> sound w"
  by (simp add: starting_def sound_def sound_games_def idle_env_def acts_def saves_def unopened_only_def)

lemma restarted_starting: "sound w \<Longrightarrow> db_ok (db w) \<Longrightarrow> starting (restarted w)"
  by (simp add: starting_def restarted_def sound_def idle_env_def clock_ok_def ids_drawn_def row_ids_def polite_def)

lemma main_listens_sound: "sound w \<Longrightarrow> sound (snd (main_listens w)) \<and> more_drawn w (snd (main_listens w))"
proof -
  have one: "keeps (\<lambda>t. sound t \<and> more_drawn s t) (initSession x)" for s x
    using prun_sound [OF sound_requests.keep_initSession initSession_alone] more_drawn_trans
    unfolding keeps_def by blast
  have "keeps (\<lambda>t. sound t \<and> more_drawn s t) getSessions" for s
    using sound_requests.g_getSessions more_drawn_trans unfolding keeps_def guarantees_def by blast
  then have "keeps (\<lambda>t. sound t \<and> more_drawn s t) initSessions" for s
    unfolding initSessions_def using one by (intro keeps_fchain keeps_parallel1) (auto intro: keeps_fcoalesce)
  then show "sound w \<Longrightarrow> sound (snd (main_listens w)) \<and> more_drawn w (snd (main_listens w))"
    using more_drawn_refl by (fastforce simp: main_listens_def keeps_def split: prod.split sum.split)
qed

lemma history_sound:
  "history a \<Longrightarrow> sound (sw (fst a)) \<and> db_ok (db (sw (fst a))) \<and>
     (\<forall>j \<in> set (snd a). sound_requests.job_ok j (sw (fst a)) \<and> schema.job_ok j (sw (fst a)))"
proof (induction rule: history.induct)
  case (boots w s)
  then show ?case
    using main_listens_sound [OF starting_sound] main_listens_db [of w] by (simp add: starting_def) (metis snd_conv)
next
  case (runs a b)
  then show ?case using sound_server.among_step [of a b] schema.among_step [of a b] by blast
next
  case (dies s js s')
  then have "starting (restarted (sw s))" by (simp add: restarted_starting)
  then show ?case using dies(2) main_listens_sound [OF starting_sound] main_listens_db [of "restarted (sw s)"]
    by (simp add: starting_def) (metis snd_conv)
qed

text \<open>
  The games a new process has in memory: those of the rows that belong to a session, whatever state
  the overlapping requests of its predecessors left the tables in.
\<close>

lemma main_listens_memory:
  assumes start: "starting w" and works: "db_works w"
  shows "fst (main_listens w)"
    and "(\<exists>i. getGame gid (snd (main_listens w)) = Inr i) \<longleftrightarrow>
      (\<exists>r \<in> set (t_game (db w)). row_gameId r = gid \<and> row_sessionId r \<in> sessionId ` set (t_session (db w)))"
proof -
  have none: "live_ids w = {}" "mem_ids w = {}" using start by (auto simp: starting_def live_ids_def live_def mem_ids_def)
  have inv: "world_inv w"
    using start none by (auto simp: starting_def world_inv_def games_inv_def timers_owned_def idle_env_def
        ids_fresh_def ids_drawn_def saves_def live_def)
  let ?w1 = "w\<lparr>dbcount := Suc (dbcount w)\<rparr>"
  have frame: "live_ids ?w1 = {}" "mem_ids ?w1 = {}" "session_row_ids sid ?w1 = session_row_ids sid w" for sid
    using none by (simp_all add: live_ids_def mem_ids_def game_key_def session_row_ids_def)
  have dis: "distinct (map sessionId (t_session (db w)))" using start by (simp add: starting_def db_ok_def)
  obtain rs w' where run: "parallel1 (map (\<lambda>s. fcoalesce (initSession s)) (t_session (db w))) ?w1 = ((Inr rs, w') :: (err + _) \<times> _)"
    and mem: "mem_ids w' = (\<Union>s \<in> set (t_session (db w)). session_row_ids (sessionId s) w)"
    using init_sessions_inv [of ?w1 "t_session (db w)"] inv works dis start by (auto simp: frame starting_def)
  have "initSessions w = (Inr rs, w')"
    using run works by (simp add: initSessions_def getSessions_def fchain_def select_run)
  then have main: "main_listens w = (True, w')" by (simp add: main_listens_def)
  then show "fst (main_listens w)" by simp
  show "(\<exists>i. getGame gid (snd (main_listens w)) = Inr i) \<longleftrightarrow>
      (\<exists>r \<in> set (t_game (db w)). row_gameId r = gid \<and> row_sessionId r \<in> sessionId ` set (t_session (db w)))"
    unfolding main snd_conv getGame_cases in_memory_ids mem by (auto simp: session_row_ids_def)
qed

lemma booting_starting: "booting w \<Longrightarrow> crashed w = None \<Longrightarrow> polite w \<Longrightarrow> starting w"
  by (simp add: booting_def starting_def ids_drawn_def)

lemma history_runs: "among\<^sup>*\<^sup>* a b \<Longrightarrow> history a \<Longrightarrow> history b"
  by (induction rule: rtranclp_induct) (auto intro: history.runs)

text \<open>The next process, on a database that answers again.\<close>

definition revived :: "world \<Rightarrow> world" where
  "revived w = (restarted w)\<lparr>dbfate := (\<lambda>_. Fine)\<rparr>"

lemma revived_starting: "sound w \<Longrightarrow> db_ok (db w) \<Longrightarrow> starting (revived w) \<and> db_works (revived w) \<and> db (revived w) = db w"
  using restarted_starting [of w]
  by (simp add: revived_def starting_def db_works_def ids_drawn_def row_ids_def polite_def restarted_def)

end
