(* ===== verification/Templates.thy ===== *)
theory Templates
  imports Paths "HOL-Library.Sublist"
begin

text \<open>
  \<open>replaceInStaticFile\<close> of \<open>game/scripts/static.ts\<close> on the text of a file: \<open>replaceAll\<close> of JavaScript
  strings, with the patterns a replacement may hold, for one entry of a map after the other.
\<close>

subsection \<open>\<open>replaceAll\<close>\<close>

text \<open>
  The replacement for one occurrence: a dollar sign starts a pattern that stands for itself, for the
  text matched, for what is before it or for what is after it. There are no groups.
\<close>

fun expand :: "string \<Rightarrow> string \<Rightarrow> string \<Rightarrow> string \<Rightarrow> string" where
  "expand matched before after (d # c # r) =
     (if d \<noteq> CHR ''$'' then d # expand matched before after (c # r)
      else if c = CHR ''$'' then CHR ''$'' # expand matched before after r
      else if c = CHR ''&'' then matched @ expand matched before after r
      else if c = CHR ''`'' then before @ expand matched before after r
      else if c = CHR 0x27 then after @ expand matched before after r
      else d # expand matched before after (c # r))"
| "expand matched before after r = r"

text \<open>The occurrences are found from left to right and do not overlap; \<open>done\<close> is the text left of here.\<close>

function replace_from :: "string \<Rightarrow> string \<Rightarrow> string \<Rightarrow> string \<Rightarrow> string" where
  "replace_from key val left [] = (if key = [] then expand [] left [] val else [])"
| "replace_from key val left (c # cs) =
     (if \<not> prefix key (c # cs) then c # replace_from key val (left @ [c]) cs
      else if key = [] then expand [] left (c # cs) val @ c # replace_from key val (left @ [c]) cs
      else expand key left (drop (length key) (c # cs)) val
             @ replace_from key val (left @ key) (drop (length key) (c # cs)))"
  by pat_completeness auto

termination
  by (relation "measure (\<lambda>(_, _, _, s). length s)") auto

definition replaceAll :: "string \<Rightarrow> string \<Rightarrow> string \<Rightarrow> string" where
  "replaceAll key val s = replace_from key val [] s"

definition replaceInText :: "(string \<times> string) list \<Rightarrow> string \<Rightarrow> string" where
  "replaceInText replaceMap text = foldl (\<lambda>contents (key, val). replaceAll key val contents) text replaceMap"

subsection \<open>Pages with variables\<close>

text \<open>A page is text and variables; a variable's name is a dollar sign and a word without one.\<close>

datatype part = Text string | Var string

definition plain_text :: "string \<Rightarrow> bool" where
  "plain_text s \<longleftrightarrow> CHR ''$'' \<notin> set s"

definition var_name :: "string \<Rightarrow> bool" where
  "var_name k \<longleftrightarrow> (\<exists>w. k = CHR ''$'' # w \<and> w \<noteq> [] \<and> plain_text w)"

definition fill :: "(string \<Rightarrow> string option) \<Rightarrow> part list \<Rightarrow> string" where
  "fill vals ps = concat (map (\<lambda>p. case p of Text t \<Rightarrow> t | Var k \<Rightarrow> (case vals k of Some v \<Rightarrow> v | None \<Rightarrow> k)) ps)"

lemma fill_simps [simp]:
  "fill vals [] = []" "fill vals (Text t # ps) = t @ fill vals ps"
  "fill vals (Var k # ps) = (case vals k of Some v \<Rightarrow> v | None \<Rightarrow> k) @ fill vals ps"
  by (simp_all add: fill_def)

definition part_vars :: "part list \<Rightarrow> string set" where
  "part_vars ps = {k. Var k \<in> set ps}"

text \<open>No name begins another one, so a name is found where it stands and nowhere else.\<close>

definition template_ok :: "part list \<Rightarrow> bool" where
  "template_ok ps \<longleftrightarrow> (\<forall>t. Text t \<in> set ps \<longrightarrow> plain_text t)
     \<and> (\<forall>k \<in> part_vars ps. var_name k) \<and> (\<forall>k \<in> part_vars ps. \<forall>l \<in> part_vars ps. prefix k l \<longrightarrow> k = l)"

lemma expand_plain: "plain_text v \<Longrightarrow> expand m b a v = v"
  by (induction m b a v rule: expand.induct) (auto simp: plain_text_def)

text \<open>Text without a dollar sign is passed over.\<close>

lemma replace_plain:
  "var_name key \<Longrightarrow> plain_text t \<Longrightarrow> replace_from key val left (t @ s) = t @ replace_from key val (left @ t) s"
  by (induction t arbitrary: left) (auto simp: var_name_def plain_text_def)

lemma replace_var:
  assumes "var_name key" "plain_text val"
  shows "replace_from key val left (key @ s) = val @ replace_from key val (left @ key) s"
proof -
  obtain w where w: "key = CHR ''$'' # w" using assms(1) by (auto simp: var_name_def)
  then show ?thesis using assms(2) by (simp add: expand_plain)
qed

text \<open>Another name is passed over, whatever stands after it.\<close>

lemma replace_other:
  assumes "var_name key" "var_name k" "\<not> prefix key k" "\<not> prefix k key"
  shows "replace_from key val left (k @ s) = k @ replace_from key val (left @ k) s"
proof -
  obtain w where w: "k = CHR ''$'' # w" "plain_text w" using assms(2) by (auto simp: var_name_def)
  have "\<not> prefix key (k @ s)" using assms(3,4) by (auto simp: prefix_def append_eq_append_conv2)
  then have "replace_from key val left (k @ s) = CHR ''$'' # replace_from key val (left @ ''$'') (w @ s)" by (simp add: w(1))
  also have "\<dots> = CHR ''$'' # w @ replace_from key val ((left @ ''$'') @ w) s"
    by (simp only: replace_plain [OF assms(1) w(2)])
  finally show ?thesis by (simp add: w(1))
qed

lemma replace_fill:
  assumes "template_ok ps" "key \<in> K" "\<forall>k \<in> K \<union> part_vars ps. var_name k"
    and "\<forall>k \<in> K \<union> part_vars ps. \<forall>l \<in> K \<union> part_vars ps. prefix k l \<longrightarrow> k = l"
    and "\<forall>k v. vals k = Some v \<longrightarrow> plain_text v" "plain_text val" "vals key = None"
  shows "replace_from key val left (fill vals ps) = fill (vals(key \<mapsto> val)) ps"
  using assms(1,3,4)
proof (induction ps arbitrary: left)
  case Nil
  then show ?case using assms(2) Nil.prems(2) by (auto simp: var_name_def)
next
  case (Cons p ps)
  have sub: "part_vars ps \<subseteq> part_vars (p # ps)" by (auto simp: part_vars_def)
  have ok: "template_ok ps" using Cons.prems(1) sub unfolding template_ok_def by (metis (no_types, lifting) list.set_intros(2) subsetD)
  have IH: "replace_from key val left (fill vals ps) = fill (vals(key \<mapsto> val)) ps" for left
    by (rule Cons.IH [OF ok]) (use Cons.prems(2,3) sub in blast)+
  have key: "var_name key" using Cons.prems(2) assms(2) by blast
  show ?case
  proof (cases p)
    case (Text t)
    then have "plain_text t" using Cons.prems(1) by (simp add: template_ok_def)
    then show ?thesis by (simp add: Text IH replace_plain [OF key] fun_upd_def)
  next
    case (Var k)
    then have k: "k \<in> part_vars (p # ps)" by (simp add: part_vars_def)
    then have nk: "var_name k" using Cons.prems(2) by blast
    show ?thesis
    proof (cases "k = key")
      case True
      then show ?thesis using assms(7) by (simp add: Var IH replace_var [OF key assms(6)] fun_upd_def)
    next
      case False
      then have np: "\<not> prefix key k" "\<not> prefix k key" using Cons.prems(3) k assms(2) by blast+
      show ?thesis
      proof (cases "vals k")
        case None
        then show ?thesis using False by (simp add: Var IH replace_other [OF key nk np] fun_upd_def)
      next
        case (Some v)
        then have "plain_text v" using assms(5) by blast
        then show ?thesis using False Some by (simp add: Var IH replace_plain [OF key] fun_upd_def)
      qed
    qed
  qed
qed

text \<open>The entries one after the other: every variable gets its value, and nothing else changes.\<close>

lemma replaceInText_fill:
  assumes "template_ok ps" "distinct (map fst m)" "\<forall>(k, v) \<in> set m. var_name k \<and> plain_text v"
    and "\<forall>k \<in> fst ` set m \<union> part_vars ps. \<forall>l \<in> fst ` set m \<union> part_vars ps. prefix k l \<longrightarrow> k = l"
    and "\<forall>k v. vals k = Some v \<longrightarrow> plain_text v" "\<forall>k \<in> fst ` set m. vals k = None"
  shows "replaceInText m (fill vals ps) = fill (vals ++ map_of m) ps"
  using assms
proof (induction m arbitrary: vals)
  case Nil
  then show ?case by (simp add: replaceInText_def)
next
  case (Cons kv m)
  obtain k v where kv: "kv = (k, v)" by fastforce
  let ?K = "fst ` set (kv # m)"
  have new: "plain_text v" "vals k = None" "k \<notin> fst ` set m" using Cons.prems(2,3,6) kv by auto
  have names: "\<forall>l \<in> ?K \<union> part_vars ps. var_name l" using Cons.prems(1,3) by (fastforce simp: template_ok_def)
  have one: "replaceAll k v (fill vals ps) = fill (vals(k \<mapsto> v)) ps"
    unfolding replaceAll_def
    by (rule replace_fill [OF Cons.prems(1) _ names Cons.prems(4,5) new(1,2)]) (simp add: kv)
  have "replaceInText m (fill (vals(k \<mapsto> v)) ps) = fill (vals(k \<mapsto> v) ++ map_of m) ps"
  proof (rule Cons.IH [OF Cons.prems(1)])
    show "\<forall>j \<in> fst ` set m \<union> part_vars ps. \<forall>l \<in> fst ` set m \<union> part_vars ps. prefix j l \<longrightarrow> j = l"
      using Cons.prems(4) by (meson UnCI UnE image_mono insertCI set_subset_Cons subsetD)
    show "\<forall>j u. (vals(k \<mapsto> v)) j = Some u \<longrightarrow> plain_text u" using Cons.prems(5) new(1) by simp
    show "\<forall>j \<in> fst ` set m. (vals(k \<mapsto> v)) j = None" using Cons.prems(6) new(3) by auto
  qed (use Cons.prems(2,3) in simp_all)
  note rest = this
  have "vals(k \<mapsto> v) ++ map_of m = vals ++ map_of (kv # m)"
  proof -
    have "k \<notin> dom (map_of m)" using Cons.prems(2) kv by (simp add: dom_map_of_conv_image_fst)
    then show ?thesis by (auto simp: kv fun_eq_iff map_add_def split: option.split)
  qed
  note eq = this
  have "replaceInText (kv # m) (fill vals ps) = replaceInText m (replaceAll k v (fill vals ps))"
    by (simp add: replaceInText_def kv)
  then show ?case by (simp only: one rest eq)
qed

end
