(* ===== verification/Build.thy ===== *)
theory Build
  imports Templates
begin

text \<open>
  The build of the clients (\<open>game/scripts\<close>, \<open>admin/scripts\<close>): static files are copied next to the
  esbuild. \<open>copyStaticDir\<close> starts the copies of a directory's entries and does not wait for them, so
  copies are tasks that may run at any time, in any order, also after \<open>copyStatic\<close> has resolved. The
  bundler is a parameter, \<open>esbuild\<close>, for what it does to the files; the sources do not change meanwhile.
\<close>

subsection \<open>Files\<close>

datatype tree = SrcFile string | SrcDir "(string \<times> tree) list"

datatype entry = IsFile string | IsDir

type_synonym path = "string list"
type_synonym files = "path \<Rightarrow> entry option"

definition parent_is_dir :: "files \<Rightarrow> path \<Rightarrow> bool" where
  "parent_is_dir fs p \<longleftrightarrow> p = [] \<or> fs (butlast p) = Some IsDir"

definition is_file :: "entry option \<Rightarrow> bool" where
  "is_file e = (case e of Some (IsFile _) \<Rightarrow> True | _ \<Rightarrow> False)"

lemma is_file_simps [simp]: "is_file (Some (IsFile c))" "\<not> is_file (Some IsDir)" "\<not> is_file None"
  by (simp_all add: is_file_def)

text \<open>A file stands where a directory would have to be.\<close>

definition blocked :: "files \<Rightarrow> path \<Rightarrow> bool" where
  "blocked fs p \<longleftrightarrow> (\<exists>k \<in> {..<length p}. is_file (fs (take k p)))"

text \<open>\<open>copyFile\<close> and \<open>mkdir\<close> with \<open>recursive\<close>; the left side is Node's error code.\<close>

definition copyFile :: "string \<Rightarrow> path \<Rightarrow> files \<Rightarrow> string + files" where
  "copyFile contents dst fs =
     (if fs dst = Some IsDir then Inl ''EISDIR''
      else if blocked fs dst then Inl ''ENOTDIR''
      else if \<not> parent_is_dir fs dst then Inl ''ENOENT''
      else Inr (fs(dst \<mapsto> IsFile contents)))"

definition mkdir_p :: "path \<Rightarrow> files \<Rightarrow> string + files" where
  "mkdir_p dst fs =
     (if blocked fs dst then Inl ''ENOTDIR''
      else if is_file (fs dst) then Inl ''EEXIST''
      else Inr (\<lambda>p. if \<exists>k \<in> {..length dst}. p = take k dst then Some IsDir else fs p))"

subsection \<open>Copies\<close>

text \<open>
  A call of \<open>copyStaticEntry\<close> that has not run: for which run of \<open>copyStatic\<close>, whether that waits for
  it, and the source (\<open>None\<close> when there is none) and destination. \<open>refused\<close> are the runs one of whose
  awaited copies has failed; a failure nobody waits for ends the process.
\<close>

datatype task = Copy nat bool "tree option" path

record copying =
  files :: files
  tasks :: "task list"
  refused :: "nat set"
  stopped :: bool

definition copyStaticDir :: "nat \<Rightarrow> (string \<times> tree) list \<Rightarrow> path \<Rightarrow> files \<Rightarrow> string + task list \<times> files" where
  "copyStaticDir run es dst fs =
     (case mkdir_p dst fs of
        Inl m \<Rightarrow> Inl m
      | Inr fs' \<Rightarrow> Inr (map (\<lambda>(entry, t). Copy run False (Some t) (dst @ [entry])) es, fs'))"

fun copyStaticEntry :: "nat \<Rightarrow> tree option \<Rightarrow> path \<Rightarrow> files \<Rightarrow> string + task list \<times> files" where
  "copyStaticEntry run None dst fs = Inl ''ENOENT''"
| "copyStaticEntry run (Some (SrcDir es)) dst fs = copyStaticDir run es dst fs"
| "copyStaticEntry run (Some (SrcFile c)) dst fs = map_sum id (\<lambda>fs'. ([], fs')) (copyFile c dst fs)"

fun run_task :: "task \<Rightarrow> copying \<Rightarrow> copying" where
  "run_task (Copy run waited src dst) s =
     (case copyStaticEntry run src dst (files s) of
        Inl _ \<Rightarrow> if waited then s\<lparr>refused := insert run (refused s)\<rparr> else s\<lparr>stopped := True\<rparr>
      | Inr (ts, fs) \<Rightarrow> s\<lparr>files := fs, tasks := tasks s @ ts\<rparr>)"

text \<open>\<open>copyStatic\<close> starts the copies of three entries; a name without an entry has no source.\<close>

definition statics :: "string list" where
  "statics = [''index.html'', ''main.css'', ''textures'']"

definition copyStatic :: "nat \<Rightarrow> (string \<times> tree) list \<Rightarrow> path \<Rightarrow> copying \<Rightarrow> copying" where
  "copyStatic run src dst s =
     s\<lparr>tasks := tasks s @ map (\<lambda>file. Copy run True (map_of src file) (dst @ [file])) statics\<rparr>"

text \<open>Its promise is kept when no copy it waits for is left, or, the error printed, one has failed.\<close>

fun awaited :: "nat \<Rightarrow> task \<Rightarrow> bool" where
  "awaited run (Copy r waited _ _) \<longleftrightarrow> r = run \<and> waited"

definition copied :: "nat \<Rightarrow> copying \<Rightarrow> bool" where
  "copied run s \<longleftrightarrow> run \<in> refused s \<or> (\<forall>t \<in> set (tasks s). \<not> awaited run t)"

subsection \<open>The build of the players' client\<close>

definition replaceInStaticFile :: "path \<Rightarrow> (string \<times> string) list \<Rightarrow> copying \<Rightarrow> copying" where
  "replaceInStaticFile p m s =
     (case files s p of
        Some (IsFile c) \<Rightarrow> s\<lparr>files := (files s)(p \<mapsto> IsFile (replaceInText m c))\<rparr>
      | _ \<Rightarrow> s\<lparr>stopped := True\<rparr>)"

text \<open>The build needs two variables of its environment; it raises a text when one is missing.\<close>

definition build_env :: "(string \<Rightarrow> string option) \<Rightarrow> string + (string \<times> string) list" where
  "build_env env =
     (case (env ''DFS_WS_HOSTNAME'', env ''BASE_HREF'') of
        (Some host, Some base) \<Rightarrow> Inr [(''$BASE_HREF'', base), (''$DFS_WS_HOSTNAME'', host)]
      | _ \<Rightarrow> Inl ''Missing build env variables.'')"

datatype stage = Bundling | Copying | Replaced

text \<open>\<open>build\<close>, then \<open>copyStatic\<close> as run 0, then \<open>replaceInStaticFile\<close>; between them any copy may run.\<close>

inductive build_step ::
  "(files \<Rightarrow> files) \<Rightarrow> (string \<times> tree) list \<Rightarrow> path \<Rightarrow> (string \<times> string) list \<Rightarrow>
     stage \<times> copying \<Rightarrow> stage \<times> copying \<Rightarrow> bool"
  for esbuild src dst m where
  bundled: "\<not> stopped s \<Longrightarrow>
    build_step esbuild src dst m (Bundling, s) (Copying, copyStatic 0 src dst (s\<lparr>files := esbuild (files s)\<rparr>))"
| copy: "\<not> stopped s \<Longrightarrow> k < length (tasks s) \<Longrightarrow>
    build_step esbuild src dst m (st, s) (st, run_task (tasks s ! k) (s\<lparr>tasks := take k (tasks s) @ drop (Suc k) (tasks s)\<rparr>))"
| replace: "\<not> stopped s \<Longrightarrow> copied 0 s \<Longrightarrow>
    build_step esbuild src dst m (Copying, s) (Replaced, replaceInStaticFile (dst @ [''index.html'']) m s)"

inductive_cases build_stepE: "build_step esbuild src dst m a b"

text \<open>\<open>serve.ts\<close> loads \<open>build.ts\<close>, which builds, and copies once more at the same time, as run 1.\<close>

definition build_start :: "files \<Rightarrow> stage \<times> copying" where
  "build_start fs = (Bundling, \<lparr>files = fs, tasks = [], refused = {}, stopped = False\<rparr>)"

definition serve_start :: "(string \<times> tree) list \<Rightarrow> path \<Rightarrow> files \<Rightarrow> stage \<times> copying" where
  "serve_start src dst fs = (Bundling, copyStatic 1 src dst (snd (build_start fs)))"

subsection \<open>The build of the administrator's client\<close>

text \<open>
  The copy comes before the directory is made. A failure rejects with an object that holds the error,
  so a result \<open>isError\<close> would look for never arrives.
\<close>

definition copyStaticFile :: "tree option \<Rightarrow> path \<Rightarrow> files \<Rightarrow> (string + string option) \<times> files" where
  "copyStaticFile src dst fs =
     (case src of
        Some (SrcFile c) \<Rightarrow>
          (case copyFile c dst fs of
             Inl m \<Rightarrow> (Inl m, fs)
           | Inr fs1 \<Rightarrow> (case mkdir_p (butlast dst) fs1 of Inl m \<Rightarrow> (Inl m, fs1) | Inr fs2 \<Rightarrow> (Inr None, fs2)))
      | Some (SrcDir _) \<Rightarrow> (Inl ''EISDIR'', fs)
      | None \<Rightarrow> (Inl ''ENOENT'', fs))"

definition isError :: "string option \<Rightarrow> bool" where
  "isError res \<longleftrightarrow> res \<noteq> None"

definition getError :: "string option \<Rightarrow> string option" where
  "getError res = res"

text \<open>One file is copied; what is printed is the errors among the results.\<close>

definition admin_copyStatic :: "(string \<times> tree) list \<Rightarrow> path \<Rightarrow> files \<Rightarrow> (string + string option list) \<times> files" where
  "admin_copyStatic src dst fs =
     (case copyStaticFile (map_of src ''index.html'') (dst @ [''index.html'']) fs of
        (Inl m, fs') \<Rightarrow> (Inl m, fs')
      | (Inr r, fs') \<Rightarrow> (Inr (map getError (filter isError [r])), fs'))"

subsection \<open>What is to be there in the end\<close>

fun at :: "tree \<Rightarrow> path \<Rightarrow> entry option" where
  "at (SrcFile c) [] = Some (IsFile c)"
| "at (SrcFile c) (n # p) = None"
| "at (SrcDir es) [] = Some IsDir"
| "at (SrcDir es) (n # p) = (case map_of es n of None \<Rightarrow> None | Some t \<Rightarrow> at t p)"

fun names_ok :: "tree \<Rightarrow> bool" where
  "names_ok (SrcFile c) = True"
| "names_ok (SrcDir es) \<longleftrightarrow> distinct (map fst es) \<and> (\<forall>x \<in> set es. names_ok (snd x))"

definition wanted :: "(string \<times> tree) list \<Rightarrow> path \<Rightarrow> path \<Rightarrow> entry option" where
  "wanted src dst p =
     (if prefix dst p
      then (case drop (length dst) p of
              [] \<Rightarrow> None
            | n # q \<Rightarrow> if n \<in> set statics then (case map_of src n of None \<Rightarrow> None | Some t \<Rightarrow> at t q) else None)
      else None)"

definition overlaid :: "(path \<Rightarrow> entry option) \<Rightarrow> files \<Rightarrow> files" where
  "overlaid f fs p = (case f p of Some e \<Rightarrow> Some e | None \<Rightarrow> fs p)"

subsection \<open>Every run ends\<close>

fun task_size :: "task \<Rightarrow> nat" where
  "task_size (Copy _ _ None _) = 1"
| "task_size (Copy _ _ (Some t) _) = Suc (size t)"

definition stage_left :: "stage \<Rightarrow> nat" where
  "stage_left st = (case st of Bundling \<Rightarrow> 2 | Copying \<Rightarrow> 1 | Replaced \<Rightarrow> 0)"

definition work_left :: "stage \<times> copying \<Rightarrow> nat \<times> nat" where
  "work_left a = (stage_left (fst a), sum_list (map task_size (tasks (snd a))))"

lemma dir_work: "sum_list (map (\<lambda>(entry, t). Suc (size t)) es) < Suc (size (SrcDir es))"
  by (induction es) auto

lemma run_task_work:
  "sum_list (map task_size (tasks (run_task t s))) < task_size t + sum_list (map task_size (tasks s))"
proof (cases t)
  case (Copy run w src d)
  show ?thesis
  proof (cases src)
    case None
    then show ?thesis by (simp add: Copy)
  next
    case (Some tr)
    show ?thesis
    proof (cases tr)
      case (SrcFile c)
      then show ?thesis by (cases "copyFile c d (files s)") (auto simp: Copy Some)
    next
      case (SrcDir es)
      have "sum_list (map (task_size \<circ> (\<lambda>(entry, t). Copy run False (Some t) (d @ [entry]))) es) < Suc (size (SrcDir es))"
        using dir_work [of es] by (simp add: comp_def case_prod_unfold)
      then show ?thesis by (auto simp: Copy Some SrcDir copyStaticDir_def split: sum.splits)
    qed
  qed
qed

lemma sum_list_without:
  "k < length xs \<Longrightarrow> sum_list (map f xs) = f (xs ! k) + sum_list (map (f :: _ \<Rightarrow> nat) (take k xs @ drop (Suc k) xs))"
  by (subst id_take_nth_drop [of k xs], assumption) simp

lemma build_step_work: "build_step esbuild src dst m a b \<Longrightarrow> (work_left b, work_left a) \<in> less_than <*lex*> less_than"
proof (induction rule: build_step.induct)
  case (copy s k st)
  then show ?case
    using run_task_work [of "tasks s ! k" "s\<lparr>tasks := take k (tasks s) @ drop (Suc k) (tasks s)\<rparr>"]
      sum_list_without [of k "tasks s" task_size] by (simp add: work_left_def)
qed (simp_all add: work_left_def stage_left_def)

lemma build_ends: "wfp (\<lambda>b a. build_step esbuild src dst m a b)"
  unfolding wfp_def
  by (rule wf_subset [OF wf_inv_image [OF wf_lex_prod [OF wf_less_than wf_less_than]], of _ work_left])
     (auto dest: build_step_work)

subsection \<open>Whatever the order, what is wanted is there\<close>

definition dirs_ok :: "files \<Rightarrow> bool" where
  "dirs_ok fs \<longleftrightarrow> (\<forall>p. fs p \<noteq> None \<longrightarrow> parent_is_dir fs p)"

text \<open>Where two trees both have an entry, both have a file or both have a directory.\<close>

definition same_kind :: "(path \<Rightarrow> entry option) \<Rightarrow> files \<Rightarrow> bool" where
  "same_kind f fs \<longleftrightarrow> (\<forall>p e e'. f p = Some e \<longrightarrow> fs p = Some e' \<longrightarrow> (e = IsDir \<longleftrightarrow> e' = IsDir))"

lemma same_kind_upd: "same_kind f fs \<Longrightarrow> f p = Some e \<Longrightarrow> same_kind f (fs(p \<mapsto> e))"
  by (auto simp: same_kind_def)

lemma dirs_ok_take:
  assumes "dirs_ok fs" "fs p = Some e" "k < length p"
  shows "fs (take k p) = Some IsDir"
  using assms(2,3)
proof (induction p arbitrary: e rule: rev_induct)
  case (snoc x p)
  then have dir: "fs p = Some IsDir" using assms(1) by (auto simp: dirs_ok_def parent_is_dir_def)
  with snoc show ?case by (cases "k = length p") auto
qed simp

lemma dirs_ok_below:
  assumes "dirs_ok fs" "parent_is_dir fs p" "k < length p"
  shows "fs (take k p) = Some IsDir"
proof (cases "k = length p - 1")
  case True
  then show ?thesis using assms(2,3) by (auto simp: parent_is_dir_def butlast_conv_take)
next
  case False
  then have "k < length (butlast p)" using assms(3) by simp
  moreover have "fs (butlast p) = Some IsDir" using assms(2,3) by (auto simp: parent_is_dir_def)
  ultimately have "fs (take k (butlast p)) = Some IsDir" using dirs_ok_take [OF assms(1)] by blast
  then show ?thesis by (simp add: take_butlast assms(3))
qed

lemma dirs_ok_not_blocked: "dirs_ok fs \<Longrightarrow> parent_is_dir fs p \<Longrightarrow> \<not> blocked fs p"
  by (auto simp: blocked_def dest: dirs_ok_below)

lemma copyFile_ok:
  "dirs_ok fs \<Longrightarrow> parent_is_dir fs p \<Longrightarrow> fs p \<noteq> Some IsDir \<Longrightarrow> copyFile c p fs = Inr (fs(p \<mapsto> IsFile c))"
  by (simp add: copyFile_def dirs_ok_not_blocked)

lemma mkdir_p_ok:
  assumes "dirs_ok fs" "parent_is_dir fs d" "\<not> is_file (fs d)"
  shows "mkdir_p d fs = Inr (fs(d \<mapsto> IsDir))"
proof -
  have "(if \<exists>k \<in> {..length d}. p = take k d then Some IsDir else fs p) = (fs(d \<mapsto> IsDir)) p" for p
    using dirs_ok_below [OF assms(1,2)] by (force simp: le_less)
  then show ?thesis using dirs_ok_not_blocked [OF assms(1,2)] assms(3) by (auto simp: mkdir_p_def fun_eq_iff)
qed

lemma dirs_ok_upd:
  assumes "dirs_ok fs" "parent_is_dir fs p" "same_kind f fs" "f p = Some e"
  shows "dirs_ok (fs(p \<mapsto> e))"
proof -
  have kept: "parent_is_dir (fs(p \<mapsto> e)) q" if "parent_is_dir fs q" for q
    using that assms(3,4) unfolding parent_is_dir_def same_kind_def
    by (metis entry.exhaust fun_upd_apply)
  show ?thesis using assms(1,2) kept by (auto simp: dirs_ok_def)
qed

text \<open>
  \<open>want\<close> is what is to be there, whichever run of \<open>copyStatic\<close> brings it: a task's entries are among it, the directory it copies into is there,
  and a task nobody waits for lies below one of the entries of \<open>dst\<close>. A path that does not have what
  it is to have is covered by a task.
\<close>

fun covers :: "task \<Rightarrow> path \<Rightarrow> bool" where
  "covers (Copy _ _ None d) p \<longleftrightarrow> False"
| "covers (Copy _ _ (Some t) d) p \<longleftrightarrow> prefix d p \<and> at t (drop (length d) p) \<noteq> None"

fun task_ok :: "(path \<Rightarrow> entry option) \<Rightarrow> path \<Rightarrow> files \<Rightarrow> task \<Rightarrow> bool" where
  "task_ok want dst fs (Copy r w None d) \<longleftrightarrow> False"
| "task_ok want dst fs (Copy r w (Some t) d) \<longleftrightarrow>
     d \<noteq> [] \<and> fs (butlast d) = Some IsDir \<and> names_ok t \<and> length dst < length d \<and> (w \<or> length d > Suc (length dst))
     \<and> (\<forall>q. at t q \<noteq> None \<longrightarrow> want (d @ q) = at t q)"

definition on_the_way :: "(path \<Rightarrow> entry option) \<Rightarrow> path \<Rightarrow> copying \<Rightarrow> bool" where
  "on_the_way want dst s \<longleftrightarrow> refused s = {} \<and> \<not> stopped s \<and> dirs_ok (files s) \<and> same_kind want (files s)
     \<and> (\<forall>t \<in> set (tasks s). task_ok want dst (files s) t)
     \<and> (\<forall>p. files s p \<noteq> want p \<longrightarrow> (\<exists>t \<in> set (tasks s). covers t p))"

lemma task_ok_upd:
  "same_kind want fs \<Longrightarrow> want p = Some e \<Longrightarrow> task_ok want dst fs t \<Longrightarrow> task_ok want dst (fs(p \<mapsto> e)) t"
proof (induction want dst fs t rule: task_ok.induct)
  case (2 want dst fs r w t d)
  then have "(fs(p \<mapsto> e)) (butlast d) = Some IsDir" by (auto simp: same_kind_def)
  then show ?case using 2 by (simp del: fun_upd_apply)
qed simp

lemma at_root: "at t [] \<noteq> None"
  by (cases t) auto

lemma entry_task_ok:
  assumes "task_ok want dst fs (Copy r w (Some (SrcDir es)) d)" "(n, t) \<in> set es"
  shows "task_ok want dst (fs(d \<mapsto> IsDir)) (Copy r False (Some t) (d @ [n]))"
proof -
  have es: "distinct (map fst es)" "names_ok t" using assms(1,2) by fastforce+
  then have n: "map_of es n = Some t" using assms(2) by simp
  have "want ((d @ [n]) @ q) = at t q" if "at t q \<noteq> None" for q
  proof -
    have "at (SrcDir es) (n # q) = at t q" by (simp add: n)
    then show ?thesis using assms(1) that by fastforce
  qed
  then show ?thesis using assms(1) es(2) by auto
qed

text \<open>A copy does not fail and leaves the files on their way.\<close>

lemma run_task_on_the_way:
  assumes "on_the_way want dst (s\<lparr>tasks := t # ts\<rparr>)"
  shows "on_the_way want dst (run_task t (s\<lparr>tasks := ts\<rparr>))"
proof -
  obtain r w src d where t: "t = Copy r w src d" by (cases t)
  have ok: "task_ok want dst (files s) t" "dirs_ok (files s)" "same_kind want (files s)" "refused s = {}" "\<not> stopped s"
    "\<forall>t' \<in> set ts. task_ok want dst (files s) t'"
    and missing: "\<And>p. files s p \<noteq> want p \<Longrightarrow> covers t p \<or> (\<exists>t' \<in> set ts. covers t' p)"
    using assms(1) by (auto simp: on_the_way_def)
  obtain tr where src: "src = Some tr" using ok(1) t by (cases src) auto
  have want: "want (d @ q) = at tr q" if "at tr q \<noteq> None" for q using ok(1) that by (auto simp: t src)
  have wd: "want d = at tr []" using want [of "[]"] at_root [of tr] by simp
  have d: "d \<noteq> []" "files s (butlast d) = Some IsDir" "parent_is_dir (files s) d"
    using ok(1) by (auto simp: t src parent_is_dir_def)
  show ?thesis
  proof (cases tr)
    case (SrcFile c)
    have w: "want d = Some (IsFile c)" using wd SrcFile by simp
    have "files s d \<noteq> Some IsDir" using ok(3) w by (auto simp: same_kind_def)
    then have run: "run_task t (s\<lparr>tasks := ts\<rparr>) = s\<lparr>files := (files s)(d \<mapsto> IsFile c), tasks := ts\<rparr>"
      by (simp add: t src SrcFile copyFile_ok [OF ok(2) d(3)])
    have "\<exists>t' \<in> set ts. covers t' p" if "((files s)(d \<mapsto> IsFile c)) p \<noteq> want p" for p
    proof -
      have p: "p \<noteq> d" "files s p \<noteq> want p" using that w by (auto split: if_splits)
      have "\<not> covers t p"
      proof
        assume "covers t p"
        then obtain q where q: "p = d @ q" "at (SrcFile c) q \<noteq> None" by (auto simp: t src SrcFile prefix_def)
        then show False using p(1) by (cases q) auto
      qed
      then show ?thesis using missing [OF p(2)] by blast
    qed
    then show ?thesis unfolding run
      using ok same_kind_upd [OF ok(3) w] dirs_ok_upd [OF ok(2) d(3) ok(3) w] task_ok_upd [OF ok(3) w]
      by (simp add: on_the_way_def del: fun_upd_apply)
  next
    case (SrcDir es)
    have w: "want d = Some IsDir" using wd SrcDir by simp
    let ?new = "map (\<lambda>(entry, t). Copy r False (Some t) (d @ [entry])) es"
    have nofile: "\<not> is_file (files s d)"
      using ok(3) w by (auto simp: same_kind_def is_file_def split: option.splits entry.splits)
    have run: "run_task t (s\<lparr>tasks := ts\<rparr>) = s\<lparr>files := (files s)(d \<mapsto> IsDir), tasks := ts @ ?new\<rparr>"
      by (simp add: t src SrcDir copyStaticDir_def mkdir_p_ok [OF ok(2) d(3) nofile])
    have new: "\<forall>t' \<in> set ?new. task_ok want dst ((files s)(d \<mapsto> IsDir)) t'"
      using entry_task_ok [OF ok(1) [unfolded t src SrcDir]] by (auto simp del: task_ok.simps fun_upd_apply)
    have "\<exists>t' \<in> set (ts @ ?new). covers t' p" if "((files s)(d \<mapsto> IsDir)) p \<noteq> want p" for p
    proof -
      have p: "p \<noteq> d" "files s p \<noteq> want p" using that w by (auto split: if_splits)
      have "\<exists>t' \<in> set ?new. covers t' p" if c: "covers t p"
      proof -
        obtain q where q: "p = d @ q" using c by (auto simp: t src SrcDir prefix_def)
        then have q': "at (SrcDir es) q \<noteq> None" using c by (simp add: t src SrcDir)
        then obtain n q' where "q = n # q'" using p(1) q by (cases q) auto
        moreover then obtain tn where "map_of es n = Some tn" "at tn q' \<noteq> None" using q' by (auto split: option.splits)
        ultimately show ?thesis using q by (auto simp: case_prod_unfold intro!: bexI [of _ "(n, tn)"] dest: map_of_SomeD)
      qed
      then show ?thesis using missing [OF p(2)] by auto
    qed
    then show ?thesis unfolding run
      using ok same_kind_upd [OF ok(3) w] dirs_ok_upd [OF ok(2) d(3) ok(3) w] task_ok_upd [OF ok(3) w] new
      by (auto simp: on_the_way_def simp del: fun_upd_apply covers.simps task_ok.simps)
  qed
qed

text \<open>What the build relies on: the bundler makes \<open>dst\<close>, and nothing there is in the way.\<close>

definition ready_for :: "(string \<times> tree) list \<Rightarrow> path \<Rightarrow> files \<Rightarrow> bool" where
  "ready_for src dst fs \<longleftrightarrow> dirs_ok fs \<and> fs dst = Some IsDir \<and> same_kind (wanted src dst) fs
     \<and> (\<forall>n \<in> set statics. case map_of src n of None \<Rightarrow> False | Some t \<Rightarrow> names_ok t)"

lemma wanted_below: "n \<in> set statics \<Longrightarrow> map_of src n = Some t \<Longrightarrow> wanted src dst (dst @ n # q) = at t q"
  by (simp add: wanted_def)

lemma wanted_cases:
  assumes "wanted src dst p = Some e"
  obtains n q t where "p = dst @ n # q" "n \<in> set statics" "map_of src n = Some t" "at t q = Some e"
  using assms by (auto simp: wanted_def prefix_def split: if_splits list.splits option.splits)

lemma copyStatic_on_the_way:
  assumes "ready_for src dst fs"
  shows "on_the_way (overlaid (wanted src dst) fs) dst
    (copyStatic run src dst \<lparr>files = fs, tasks = [], refused = {}, stopped = False\<rparr>)"
proof -
  have "same_kind (overlaid (wanted src dst) fs) fs"
    using assms by (auto simp: ready_for_def same_kind_def overlaid_def split: option.splits)
  moreover have "task_ok (overlaid (wanted src dst) fs) dst fs (Copy run True (map_of src n) (dst @ [n]))" if "n \<in> set statics" for n
    using assms that wanted_below [OF that]
    by (cases "map_of src n") (auto simp: ready_for_def overlaid_def)
  moreover have "\<exists>n \<in> set statics. covers (Copy run True (map_of src n) (dst @ [n])) p" if "fs p \<noteq> overlaid (wanted src dst) fs p" for p
  proof -
    obtain e where "wanted src dst p = Some e" using \<open>fs p \<noteq> overlaid _ fs p\<close> by (auto simp: overlaid_def split: option.splits)
    then obtain n q t where "p = dst @ n # q" "n \<in> set statics" "map_of src n = Some t" "at t q = Some e"
      by (rule wanted_cases)
    then show ?thesis by (intro bexI [of _ n]) (auto simp: prefix_def)
  qed
  ultimately show ?thesis using assms by (simp add: on_the_way_def copyStatic_def ready_for_def)
qed

fun run_of :: "task \<Rightarrow> nat" where
  "run_of (Copy r _ _ _) = r"

lemma copyStaticEntry_runs: "copyStaticEntry run src d fs = Inr (ts, fs') \<Longrightarrow> t \<in> set ts \<Longrightarrow> run_of t = run \<and> \<not> awaited r t"
proof (induction run src d fs rule: copyStaticEntry.induct)
  case (3 run c dst fs)
  then show ?case by (cases "copyFile c dst fs") auto
qed (auto simp: copyStaticDir_def split: sum.splits)

lemma run_task_runs: "t' \<in> set (tasks (run_task t s)) \<Longrightarrow> t' \<in> set (tasks s) \<or> run_of t' = run_of t"
  by (cases t) (auto split: sum.splits if_splits dest: copyStaticEntry_runs)

lemma taken_tasks:
  "k < length ts \<Longrightarrow> set (ts ! k # take k ts @ drop (Suc k) ts) = set ts"
  by (metis id_take_nth_drop list.set(2) set_append Un_insert_right)

text \<open>Once the promise of \<open>copyStatic\<close> is kept, the page is there, and no task that is left touches it.\<close>

lemma replace_on_the_way:
  assumes "on_the_way want dst s" "copied 0 s" "want (dst @ [n]) = Some (IsFile c)" "\<forall>t \<in> set (tasks s). run_of t = 0"
  shows "on_the_way (want(dst @ [n] \<mapsto> IsFile (replaceInText m c))) dst (replaceInStaticFile (dst @ [n]) m s)"
proof -
  let ?p = "dst @ [n]"
  let ?e = "IsFile (replaceInText m c)"
  have s: "dirs_ok (files s)" "same_kind want (files s)" "\<forall>t \<in> set (tasks s). task_ok want dst (files s) t"
    and missing: "\<And>p. files s p \<noteq> want p \<Longrightarrow> \<exists>t \<in> set (tasks s). covers t p"
    using assms(1) by (auto simp: on_the_way_def)
  have away: "\<not> covers t ?p \<and> task_ok (want(?p \<mapsto> ?e)) dst ((files s)(?p \<mapsto> ?e)) t" if "t \<in> set (tasks s)" for t
  proof -
    have ok: "task_ok want dst (files s) t" "\<not> awaited 0 t"
      using s(3) that assms(1,2) by (auto simp: copied_def on_the_way_def)
    moreover have "run_of t = 0" using that assms(4) by blast
    ultimately
obtain tr d where t: "t = Copy 0 False (Some tr) d" "length ?p < length d"
      by (cases "(want, dst, files s, t)" rule: task_ok.cases) auto
    have below: "?p \<noteq> d @ q" for q
    proof
      assume "?p = d @ q"
      then have "length ?p = length (d @ q)" by simp
      then show False using t(2) by simp
    qed
    have "files s (butlast d) = Some IsDir" using ok(1) t by simp
    then have "butlast d = ?p \<Longrightarrow> files s ?p = Some IsDir" by simp
    then have "butlast d \<noteq> ?p" using s(2) assms(3) by (auto simp: same_kind_def)
    moreover have "\<not> covers t ?p" using below by (auto simp: t(1) prefix_def)
    ultimately show ?thesis using ok(1) below [symmetric] unfolding t(1) by simp
  qed
  then have page: "files s ?p = Some (IsFile c)" using missing [of ?p] assms(3) by (cases "files s ?p = want ?p") auto
  have "dirs_ok ((files s)(?p \<mapsto> ?e))"
    using s(1) page unfolding dirs_ok_def parent_is_dir_def by (metis entry.distinct(1) fun_upd_apply option.inject option.simps(3))
  moreover have "same_kind (want(?p \<mapsto> ?e)) ((files s)(?p \<mapsto> ?e))" using s(2) by (auto simp: same_kind_def)
  ultimately show ?thesis using assms(1) away missing page
    by (auto simp: on_the_way_def replaceInStaticFile_def)
qed

lemma copy_on_the_way:
  assumes "on_the_way want dst s" "k < length (tasks s)"
  shows "on_the_way want dst (run_task (tasks s ! k) (s\<lparr>tasks := take k (tasks s) @ drop (Suc k) (tasks s)\<rparr>))"
proof (rule run_task_on_the_way)
  show "on_the_way want dst (s\<lparr>tasks := tasks s ! k # take k (tasks s) @ drop (Suc k) (tasks s)\<rparr>)"
    using assms taken_tasks [OF assms(2)] by (simp add: on_the_way_def del: set_append list.set)
qed

definition build_ok :: "(files \<Rightarrow> files) \<Rightarrow> (string \<times> tree) list \<Rightarrow> path \<Rightarrow> (string \<times> string) list \<Rightarrow> string \<Rightarrow> files
    \<Rightarrow> stage \<times> copying \<Rightarrow> bool" where
  "build_ok esbuild src dst m page fs a =
     (let want = overlaid (wanted src dst) (esbuild fs)
      in case fst a of
           Bundling \<Rightarrow> a = build_start fs
         | Copying \<Rightarrow> on_the_way want dst (snd a) \<and> (\<forall>t \<in> set (tasks (snd a)). run_of t = 0)
         | Replaced \<Rightarrow> on_the_way (want(dst @ [''index.html''] \<mapsto> IsFile (replaceInText m page))) dst (snd a))"

lemma build_step_ok:
  assumes "build_step esbuild src dst m a b" "build_ok esbuild src dst m page fs a"
    "ready_for src dst (esbuild fs)" "map_of src ''index.html'' = Some (SrcFile page)"
  shows "build_ok esbuild src dst m page fs b"
  using assms
proof (induction rule: build_step.induct)
  case (bundled s)
  then show ?case using copyStatic_on_the_way [of src dst "esbuild fs"]
    by (simp add: build_ok_def build_start_def copyStatic_def)
next
  case (copy s k st)
  let ?s' = "run_task (tasks s ! k) (s\<lparr>tasks := take k (tasks s) @ drop (Suc k) (tasks s)\<rparr>)"
  have "\<forall>t \<in> set (tasks ?s'). run_of t = 0" if "\<forall>t \<in> set (tasks s). run_of t = 0"
    using run_task_runs [of _ "tasks s ! k" "s\<lparr>tasks := take k (tasks s) @ drop (Suc k) (tasks s)\<rparr>"] that copy(2)
    by (fastforce dest: in_set_takeD in_set_dropD)
  then show ?case using copy copy_on_the_way [OF _ copy(2)]
    by (auto simp: build_ok_def build_start_def Let_def simp del: run_task.simps split: stage.splits)
next
  case (replace s)
  have "wanted src dst (dst @ [''index.html'']) = Some (IsFile page)"
    using wanted_below [of "''index.html''" src "SrcFile page" dst "[]"] replace.prems(3) by (simp add: statics_def)
  then show ?case using replace replace_on_the_way
    by (simp add: build_ok_def overlaid_def)
qed

lemma build_run_ok:
  assumes "(build_step esbuild src dst m)\<^sup>*\<^sup>* (build_start fs) a" "ready_for src dst (esbuild fs)"
    "map_of src ''index.html'' = Some (SrcFile page)"
  shows "build_ok esbuild src dst m page fs a"
  using assms(1)
proof (induction rule: rtranclp_induct)
  case base
  show ?case by (simp add: build_ok_def build_start_def)
next
  case (step b c)
  then show ?case using build_step_ok assms(2,3) by blast
qed

text \<open>When nothing can go on, all has been done.\<close>

lemma build_at_end:
  assumes "build_ok esbuild src dst m page fs a" "\<nexists>b. build_step esbuild src dst m a b"
  shows "a = (Replaced, \<lparr>files = (overlaid (wanted src dst) (esbuild fs))(dst @ [''index.html''] \<mapsto> IsFile (replaceInText m page)),
    tasks = [], refused = {}, stopped = False\<rparr>)"
proof -
  obtain st s where a: "a = (st, s)" by (cases a)
  have st: "\<not> stopped s"
    using assms(1) by (auto simp: a build_ok_def build_start_def on_the_way_def Let_def split: stage.splits)
  have no: "tasks s = []" using assms(2) build_step.copy [OF st, of 0 esbuild src dst m st] by (auto simp: a)
  have "copied 0 s" by (simp add: copied_def no)
  then have "st = Replaced"
    using assms(2) build_step.bundled [OF st, of esbuild src dst m] build_step.replace [OF st, of esbuild src dst m]
    unfolding a by (cases st) blast+
  then have s: "on_the_way ((overlaid (wanted src dst) (esbuild fs))(dst @ [''index.html''] \<mapsto> IsFile (replaceInText m page))) dst s"
    using assms(1) by (simp add: a build_ok_def)
  then have "files s = (overlaid (wanted src dst) (esbuild fs))(dst @ [''index.html''] \<mapsto> IsFile (replaceInText m page))"
    unfolding on_the_way_def using no by (metis bex_empty ext empty_set)
  then show ?thesis using s no \<open>st = Replaced\<close> by (simp add: a on_the_way_def)
qed

lemma env_page:
  assumes "build_env env = Inr m" "\<forall>t. Text t \<in> set ps \<longrightarrow> plain_text t"
    "part_vars ps \<subseteq> {''$BASE_HREF'', ''$DFS_WS_HOSTNAME''}" "\<forall>(k, v) \<in> set m. plain_text v"
  shows "replaceInText m (fill Map.empty ps) = fill (map_of m) ps"
proof -
  let ?K = "{''$BASE_HREF'', ''$DFS_WS_HOSTNAME''}"
  obtain host base where m: "m = [(''$BASE_HREF'', base), (''$DFS_WS_HOSTNAME'', host)]"
    using assms(1) by (auto simp: build_env_def split: option.splits)
  have names: "\<forall>k \<in> ?K. var_name k" "\<forall>k \<in> ?K. \<forall>l \<in> ?K. prefix k l \<longrightarrow> k = l"
    by (simp_all add: var_name_def plain_text_def)
  have keys: "fst ` set m = ?K" by (simp add: m)
  have "replaceInText m (fill Map.empty ps) = fill (Map.empty ++ map_of m) ps"
  proof (rule replaceInText_fill)
    show "template_ok ps" unfolding template_ok_def using assms(2,3) names by blast
    show "\<forall>k \<in> fst ` set m \<union> part_vars ps. \<forall>l \<in> fst ` set m \<union> part_vars ps. prefix k l \<longrightarrow> k = l"
      using names(2) assms(3) unfolding keys by blast
    show "\<forall>(k, v) \<in> set m. var_name k \<and> plain_text v" using assms(4) names(1) by (simp add: m)
  qed (simp_all add: m)
  then show ?thesis by simp
qed

lemma build_reaches_end:
  "\<exists>b. (build_step esbuild src dst m)\<^sup>*\<^sup>* a b \<and> (\<nexists>c. build_step esbuild src dst m b c)"
proof (induction a rule: wfp_induct_rule [OF build_ends [of esbuild src dst m]])
  case (1 a)
  then show ?case by (cases "\<exists>b. build_step esbuild src dst m a b") (blast intro: converse_rtranclp_into_rtranclp)+
qed

subsection \<open>Where nobody waits\<close>

lemma at_end: "tasks s = [] \<Longrightarrow> \<nexists>b. build_step esbuild src dst m (Replaced, s) b"
  by (auto elim: build_stepE)

text \<open>A copy changes the path it is for and no other, and nothing that is there goes away.\<close>

lemma run_task_elsewhere:
  assumes "on_the_way want dst s" "Copy r w src d \<in> set (tasks s)" "p \<noteq> d"
  shows "files (run_task (Copy r w src d) (s\<lparr>tasks := ts\<rparr>)) p = files s p"
proof -
  have ok: "dirs_ok (files s)" "same_kind want (files s)" "task_ok want dst (files s) (Copy r w src d)"
    using assms(1,2) by (auto simp: on_the_way_def)
  obtain t where t: "src = Some t" using ok(3) by (cases src) auto
  have d: "parent_is_dir (files s) d" using ok(3) by (simp add: t parent_is_dir_def)
  show ?thesis
  proof (cases t)
    case (SrcFile c)
    then show ?thesis using assms(3) by (auto simp: t copyFile_def)
  next
    case (SrcDir es)
    have "want (d @ []) = at t []" using ok(3) at_root [of t] unfolding t task_ok.simps by blast
    then have "want d = Some IsDir" by (simp add: SrcDir)
    then have "\<not> is_file (files s d)"
      using ok(2) by (auto simp: same_kind_def is_file_def split: option.splits entry.splits)
    then show ?thesis using mkdir_p_ok [OF ok(1) d] assms(3) by (simp add: t SrcDir copyStaticDir_def)
  qed
qed

lemma run_task_keeps: "files s p \<noteq> None \<Longrightarrow> files (run_task t s) p \<noteq> None"
proof (induction t s rule: run_task.induct)
  case (1 run waited src dst s)
  then show ?case
    by (cases src; cases "the src")
       (auto simp: copyStaticDir_def mkdir_p_def copyFile_def split: sum.splits)
qed

lemma copies_after:
  assumes "(build_step esbuild src dst m)\<^sup>*\<^sup>* (Replaced, s) b" "on_the_way want dst s"
  shows "fst b = Replaced \<and> on_the_way want dst (snd b)"
  using assms
proof (induction rule: rtranclp_induct)
  case (step b c)
  from step(2) step.IH [OF step.prems] copy_on_the_way show ?case by (cases rule: build_step.cases) auto
qed simp

text \<open>The bundler and the two rounds of copies, in the order that suits the page of a build.\<close>

lemma copyFile_over:
  assumes "files s p = Some (IsFile c0)"
  shows "copyFile c p ((files s)(p \<mapsto> IsFile c')) = copyFile c p (files s)"
proof -
  have "take k p \<noteq> p" if "k < length p" for k using that by (metis length_take min.absorb4 nat_neq_iff)
  moreover have "butlast p \<noteq> p" if "p \<noteq> []" using that by (metis append_butlast_last_id not_Cons_self2 self_append_conv)
  ultimately show ?thesis using assms by (auto simp: copyFile_def blocked_def parent_is_dir_def)
qed

lemma on_the_way_more:
  assumes "on_the_way want dst (s\<lparr>tasks := ts\<rparr>)" "on_the_way want dst (s\<lparr>tasks := us\<rparr>)"
  shows "on_the_way want dst (s\<lparr>tasks := us @ ts\<rparr>)"
  using assms by (auto simp: on_the_way_def)

lemma copyFile_there:
  assumes "on_the_way want dst s" "Copy r w (Some (SrcFile c)) d \<in> set (tasks s)"
  shows "copyFile c d (files s) = Inr ((files s)(d \<mapsto> IsFile c))"
proof -
  have ok: "dirs_ok (files s)" "same_kind want (files s)" "task_ok want dst (files s) (Copy r w (Some (SrcFile c)) d)"
    using assms by (auto simp: on_the_way_def)
  have "want (d @ []) = at (SrcFile c) []" using ok(3) at_root [of "SrcFile c"] unfolding task_ok.simps by blast
  then have "files s d \<noteq> Some IsDir" using ok(2) by (auto simp: same_kind_def)
  then show ?thesis using copyFile_ok [OF ok(1), of d c] ok(3) by (simp add: parent_is_dir_def)
qed

lemma run_file_task:
  assumes "on_the_way want dst s" "Copy r w (Some (SrcFile c)) d \<in> set (tasks s)"
  shows "run_task (Copy r w (Some (SrcFile c)) d) (s\<lparr>tasks := ts\<rparr>) = s\<lparr>files := (files s)(d \<mapsto> IsFile c), tasks := ts\<rparr>"
  using copyFile_there [OF assms] by simp

lemma run_middle:
  assumes "on_the_way want dst s" "tasks s = xs @ t # ys"
  obtains new where "build_step esbuild src dst m (st, s) (st, run_task t (s\<lparr>tasks := xs @ ys\<rparr>))"
    and "on_the_way want dst (run_task t (s\<lparr>tasks := xs @ ys\<rparr>))"
    and "tasks (run_task t (s\<lparr>tasks := xs @ ys\<rparr>)) = xs @ ys @ new" and "\<forall>u \<in> set new. \<not> awaited r u"
proof -
  have k: "length xs < length (tasks s)" using assms(2) by simp
  have parts: "tasks s ! length xs = t" "take (length xs) (tasks s) @ drop (Suc (length xs)) (tasks s) = xs @ ys"
    by (simp_all add: assms(2))
  have ns: "\<not> stopped s" using assms(1) by (simp add: on_the_way_def)
  obtain r' w tr d where t: "t = Copy r' w tr d" by (cases t)
  obtain new where "tasks (run_task t (s\<lparr>tasks := xs @ ys\<rparr>)) = xs @ ys @ new" "\<forall>u \<in> set new. \<not> awaited r u"
  proof (cases "copyStaticEntry r' tr d (files s)")
    case (Inl e)
    then show ?thesis using that [of "[]"] by (simp add: t)
  next
    case (Inr p)
    obtain ts f where p: "p = (ts, f)" by (cases p)
    have "\<not> awaited r u" if "u \<in> set ts" for u using copyStaticEntry_runs [OF Inr [unfolded p] that] by blast
    then show ?thesis using that [of ts] Inr by (simp add: t p)
  qed
  then show ?thesis
    using that build_step.copy [OF ns k, of esbuild src dst m st] copy_on_the_way [OF assms(1) k] unfolding parts by blast
qed

fun dest :: "task \<Rightarrow> path" where
  "dest (Copy _ _ _ d) = d"

lemma run_several:
  assumes "on_the_way want dst s" "tasks s = xs @ us @ ys"
  shows "\<exists>s' new. (build_step esbuild src dst m)\<^sup>*\<^sup>* (st, s) (st, s') \<and> on_the_way want dst s' \<and> tasks s' = xs @ ys @ new
    \<and> (\<forall>u \<in> set new. \<not> awaited r u) \<and> (\<forall>p. files s p \<noteq> None \<longrightarrow> files s' p \<noteq> None)
    \<and> (\<forall>p. p \<notin> dest ` set us \<longrightarrow> files s' p = files s p)"
  using assms
proof (induction us arbitrary: s ys)
  case Nil
  then show ?case by (intro exI [of _ s] exI [of _ "[]"]) simp
next
  case (Cons u us)
  let ?s1 = "run_task u (s\<lparr>tasks := xs @ us @ ys\<rparr>)"
  obtain new where s1: "build_step esbuild src dst m (st, s) (st, ?s1)" "on_the_way want dst ?s1"
      "tasks ?s1 = xs @ (us @ ys) @ new" "\<forall>u \<in> set new. \<not> awaited r u"
    by (rule run_middle [OF Cons.prems(1), of xs u "us @ ys" esbuild src m st r]) (simp_all add: Cons.prems(2))
  have t: "tasks ?s1 = xs @ us @ (ys @ new)" using s1(3) by simp
  obtain s' new' where s': "(build_step esbuild src dst m)\<^sup>*\<^sup>* (st, ?s1) (st, s')" "on_the_way want dst s'"
      "tasks s' = xs @ (ys @ new) @ new'" "\<forall>u \<in> set new'. \<not> awaited r u" "\<forall>p. files ?s1 p \<noteq> None \<longrightarrow> files s' p \<noteq> None"
      "\<forall>p. p \<notin> dest ` set us \<longrightarrow> files s' p = files ?s1 p"
    using Cons.IH [OF s1(2) t] by blast
  have "files ?s1 p \<noteq> None" if "files s p \<noteq> None" for p using that by (intro run_task_keeps) simp
  moreover have "files ?s1 p = files s p" if "p \<noteq> dest u" for p
    using that run_task_elsewhere [OF Cons.prems(1)] Cons.prems(2) by (cases u) (simp del: run_task.simps)
  moreover have "(build_step esbuild src dst m)\<^sup>*\<^sup>* (st, s) (st, s')"
    using s1(1) s'(1) by (meson converse_rtranclp_into_rtranclp)
  ultimately show ?case using s' s1(4) by (intro exI [of _ s'] exI [of _ "new @ new'"]) auto
qed

text \<open>
  The copies \<open>serve.ts\<close> starts can all come after the build: then the page is the one without values.
\<close>

lemma served_unreplaced:
  assumes "ready_for src dst (esbuild fs)" "map_of src ''index.html'' = Some (SrcFile page)"
  shows "\<exists>s. (build_step esbuild src dst m)\<^sup>*\<^sup>* (serve_start src dst fs) (Replaced, s) \<and> \<not> stopped s
    \<and> (\<nexists>b. build_step esbuild src dst m (Replaced, s) b) \<and> files s (dst @ [''index.html'']) = Some (IsFile page)"
proof -
  let ?step = "build_step esbuild src dst m"
  let ?I = "dst @ [''index.html'']"
  let ?idx = "\<lambda>r. Copy r True (Some (SrcFile page)) ?I"
  let ?css = "\<lambda>r. Copy r True (map_of src ''main.css'') (dst @ [''main.css''])"
  let ?tex = "\<lambda>r. Copy r True (map_of src ''textures'') (dst @ [''textures''])"
  define want where "want = overlaid (wanted src dst) (esbuild fs)"
  define s0 where "s0 = \<lparr>files = esbuild fs, tasks = [?idx 1, ?css 1, ?tex 1] @ [?idx 0, ?css 0, ?tex 0], refused = {}, stopped = False\<rparr>"
  have want: "want ?I = Some (IsFile page)"
    using wanted_below [of "''index.html''" src "SrcFile page" dst "[]"] assms(2) by (simp add: want_def overlaid_def statics_def)
  have bundled: "?step (serve_start src dst fs) (Copying, s0)"
    using build_step.bundled [of "snd (serve_start src dst fs)" esbuild src dst m] assms(2)
    by (simp add: serve_start_def build_start_def copyStatic_def statics_def s0_def)
  have o: "on_the_way want dst (s0\<lparr>tasks := [?idx r, ?css r, ?tex r]\<rparr>)" for r
    using copyStatic_on_the_way [OF assms(1), of r] assms(2) by (simp add: copyStatic_def s0_def want_def statics_def)
  have s0: "on_the_way want dst s0" using on_the_way_more [OF o [of 0] o [of 1]] by (simp add: s0_def)
  define s1 where "s1 = run_task (?idx 0) (s0\<lparr>tasks := [?idx 1, ?css 1, ?tex 1] @ [?css 0, ?tex 0]\<rparr>)"
  obtain n1 where s1: "?step (Copying, s0) (Copying, s1)" "on_the_way want dst s1"
      "tasks s1 = [?idx 1, ?css 1, ?tex 1] @ [?css 0, ?tex 0] @ n1" "\<forall>u \<in> set n1. \<not> awaited 0 u"
    unfolding s1_def
    by (rule run_middle [OF s0, of "[?idx 1, ?css 1, ?tex 1]" "?idx 0" "[?css 0, ?tex 0]" esbuild src m Copying 0])
       (simp_all add: s0_def)
  obtain n3 s3 where s3: "?step\<^sup>*\<^sup>* (Copying, s1) (Copying, s3)" "on_the_way want dst s3"
      "tasks s3 = [?idx 1, ?css 1, ?tex 1] @ n1 @ n3" "\<forall>u \<in> set n3. \<not> awaited 0 u"
      "\<forall>p. files s1 p \<noteq> None \<longrightarrow> files s3 p \<noteq> None"
    using run_several [OF s1(2,3), of esbuild src m Copying 0] by blast
  have "files s1 ?I \<noteq> None" unfolding s1_def by (subst run_file_task [OF s0]) (simp_all add: s0_def)
  then have "files s3 ?I \<noteq> None" using s3(5) by blast
  then obtain c0 where c0: "files s3 ?I = Some (IsFile c0)"
    using s3(2) want by (auto simp: on_the_way_def same_kind_def) (metis entry.exhaust)
  define s4 where "s4 = s3\<lparr>files := (files s3)(?I \<mapsto> IsFile (replaceInText m c0))\<rparr>"
  have ns: "\<not> stopped s3" using s3(2) by (simp add: on_the_way_def)
  have "copied 0 s3" using s1(4) s3(3,4) by (auto simp: copied_def)
  from build_step.replace [OF ns this, of esbuild src dst m] have replaced: "?step (Copying, s3) (Replaced, s4)"
    by (simp add: replaceInStaticFile_def c0 s4_def)
  let ?rest = "[?css 1, ?tex 1] @ n1 @ n3"
  define s5 where "s5 = run_task (?idx 1) (s3\<lparr>tasks := ?rest\<rparr>)"
  have s5: "on_the_way want dst s5" using copy_on_the_way [OF s3(2), of 0] by (simp add: s3(3) s5_def)
  have "run_task (?idx 1) (s4\<lparr>tasks := ?rest\<rparr>) = s5"
    using copyFile_over [OF c0, of page "replaceInText m c0"] copyFile_there [OF s3(2), of 1 True page ?I]
    by (simp add: s5_def s4_def s3(3))
  with build_step.copy [of s4 0 esbuild src dst m Replaced] have again: "?step (Replaced, s4) (Replaced, s5)"
    using ns by (simp add: s4_def s3(3) del: run_task.simps)
  obtain b where b: "?step\<^sup>*\<^sup>* (Replaced, s5) b" "\<nexists>c. ?step b c" using build_reaches_end by blast
  from copies_after [OF b(1) s5] obtain s where s: "b = (Replaced, s)" "on_the_way want dst s" by (cases b) auto
  have "tasks s = []" "\<not> stopped s" using b(2) s build_step.copy [of s 0 esbuild src dst m Replaced] by (auto simp: on_the_way_def)
  then have "files s ?I = Some (IsFile page)" using s(2) want by (auto simp: on_the_way_def)
  moreover have "?step\<^sup>*\<^sup>* (serve_start src dst fs) (Replaced, s)"
    using bundled s1(1) s3(1) replaced again b(1) unfolding s(1)
    by (meson converse_rtranclp_into_rtranclp rtranclp_trans)
  ultimately show ?thesis using b(2) \<open>\<not> stopped s\<close> unfolding s(1) by blast
qed

text \<open>The build itself can be over before anything in the directory of textures has been copied.\<close>

lemma built_unfinished:
  assumes "ready_for src dst (esbuild fs)" "map_of src ''index.html'' = Some (SrcFile page)"
    and "map_of src ''textures'' = Some (SrcDir es)" "(n, t) \<in> set es"
  shows "\<exists>s. (build_step esbuild src dst m)\<^sup>*\<^sup>* (build_start fs) (Replaced, s) \<and> \<not> stopped s
    \<and> tasks s \<noteq> [] \<and> files s (dst @ [''textures'', n]) = esbuild fs (dst @ [''textures'', n])"
proof -
  let ?step = "build_step esbuild src dst m"
  let ?idx = "Copy 0 True (map_of src ''index.html'') (dst @ [''index.html''])"
  let ?css = "Copy 0 True (map_of src ''main.css'') (dst @ [''main.css''])"
  let ?tex = "Copy 0 True (Some (SrcDir es)) (dst @ [''textures''])"
  let ?p = "dst @ [''textures'', n]"
  define want where "want = overlaid (wanted src dst) (esbuild fs)"
  define s0 where "s0 = \<lparr>files = esbuild fs, tasks = [?idx, ?css, ?tex], refused = {}, stopped = False\<rparr>"
  have bundled: "?step (build_start fs) (Copying, s0)"
    using build_step.bundled [of "snd (build_start fs)" esbuild src dst m] assms(3)
    by (simp add: build_start_def copyStatic_def statics_def s0_def)
  have s0: "on_the_way want dst s0"
    using copyStatic_on_the_way [OF assms(1), of 0] assms(3) by (simp add: copyStatic_def s0_def want_def statics_def)
  have t0: "tasks s0 = [] @ [?idx, ?css] @ [?tex]" by (simp add: s0_def)
  obtain n2 s2 where s2: "?step\<^sup>*\<^sup>* (Copying, s0) (Copying, s2)" "on_the_way want dst s2"
      "tasks s2 = [] @ [?tex] @ n2" "\<forall>u \<in> set n2. \<not> awaited 0 u"
      "\<forall>p. p \<notin> dest ` set [?idx, ?css] \<longrightarrow> files s2 p = files s0 p"
    using run_several [OF s0 t0, of esbuild src m Copying 0] by blast
  define s3 where "s3 = run_task ?tex (s2\<lparr>tasks := [] @ n2\<rparr>)"
  obtain n3 where s3: "?step (Copying, s2) (Copying, s3)" "on_the_way want dst s3" "tasks s3 = [] @ n2 @ n3"
      "\<forall>u \<in> set n3. \<not> awaited 0 u"
    unfolding s3_def by (rule run_middle [OF s2(2), of "[]" ?tex n2 esbuild src m Copying 0]) (simp_all add: s2(3))
  have "files s3 ?p = files s2 ?p" unfolding s3_def by (rule run_task_elsewhere [OF s2(2)]) (simp_all add: s2(3))
  then have p: "files s3 ?p = esbuild fs ?p" using s2(5) by (simp add: s0_def)
  have "n3 \<noteq> []"
  proof -
    obtain ts fs' where run: "copyStaticEntry 0 (Some (SrcDir es)) (dst @ [''textures'']) (files s2) = Inr (ts, fs')"
      using s3(2) s3_def by (cases "copyStaticEntry 0 (Some (SrcDir es)) (dst @ [''textures'']) (files s2)") (auto simp: on_the_way_def)
    then have "ts \<noteq> []" using assms(4) by (auto simp: copyStaticDir_def split: sum.splits)
    moreover have "tasks s3 = n2 @ ts" using run unfolding s3_def by simp
    ultimately show ?thesis using s3(3) by simp
  qed
  let ?s = "replaceInStaticFile (dst @ [''index.html'']) m s3"
  have "\<not> stopped s3" "copied 0 s3" using s3(2,3,4) s2(4) by (auto simp: on_the_way_def copied_def)
  from build_step.replace [OF this, of esbuild src dst m] have "?step (Copying, s3) (Replaced, ?s)" .
  then have run: "?step\<^sup>*\<^sup>* (build_start fs) (Replaced, ?s)"
    using bundled s2(1) s3(1) by (meson converse_rtranclp_into_rtranclp rtranclp.rtrancl_into_rtrancl)
  have "\<not> stopped ?s" using build_run_ok [OF run assms(1,2)] by (simp add: build_ok_def on_the_way_def Let_def)
  moreover have "tasks ?s = tasks s3" "files ?s ?p = files s3 ?p"
    by (auto simp: replaceInStaticFile_def split: option.splits entry.splits)
  ultimately show ?thesis using run p s3(3) \<open>n3 \<noteq> []\<close> by auto
qed

subsection \<open>The administrator's client\<close>

text \<open>The directory is never made: the copy needs it, and what is made after the copy is there already.\<close>

lemma copyStaticFile_ok:
  assumes "dirs_ok fs" "fs dst = Some IsDir" "fs (dst @ [n]) \<noteq> Some IsDir"
  shows "copyStaticFile (Some (SrcFile c)) (dst @ [n]) fs = (Inr None, fs(dst @ [n] \<mapsto> IsFile c))"
proof -
  let ?fs = "fs(dst @ [n] \<mapsto> IsFile c)"
  have "parent_is_dir fs dst" using assms(1,2) by (simp add: dirs_ok_def)
  then have "fs (take k dst) = Some IsDir" if "k \<le> length dst" for k
    using dirs_ok_below [OF assms(1), of dst k] assms(2) that by (cases "k = length dst") auto
  then have there: "?fs (take k dst) = Some IsDir" if "k \<le> length dst" for k
  proof -
    have "length (take k dst) \<noteq> length (dst @ [n])" using that by simp
    then have "take k dst \<noteq> dst @ [n]" by metis
    then show ?thesis using \<open>k \<le> length dst \<Longrightarrow> fs (take k dst) = Some IsDir\<close> that by simp
  qed
  have "mkdir_p dst ?fs = Inr ?fs"
  proof -
    have "\<not> blocked ?fs dst" "\<not> is_file (?fs dst)" using there [of "length dst"] there
      by (auto simp: blocked_def simp del: fun_upd_apply)
    moreover have "(\<lambda>p. if \<exists>k \<in> {..length dst}. p = take k dst then Some IsDir else ?fs p) = ?fs"
      using there by (auto simp: fun_eq_iff simp del: fun_upd_apply)
    ultimately show ?thesis by (simp add: mkdir_p_def del: fun_upd_apply)
  qed
  then show ?thesis using copyFile_ok [OF assms(1), of "dst @ [n]" c] assms(2,3)
    by (simp add: copyStaticFile_def parent_is_dir_def)
qed

lemma copyStaticFile_no_dir:
  "fs dst \<noteq> Some IsDir \<Longrightarrow> \<exists>m. copyStaticFile src (dst @ [n]) fs = (Inl m, fs)"
  by (cases src rule: option.exhaust; cases "the src"; simp add: copyStaticFile_def copyFile_def parent_is_dir_def)

end
