(* ===== verification/Calibration.thy ===== *)
theory Calibration
  imports Prelude
begin

text \<open>
  The page that records a participant's voice (\<open>calibration_app/js/app.js\<close>): two buttons, the stream
  of the microphone and a recorder. Streams and recorders are numbered in the order they are made; the
  browser may answer a request for the microphone at any time, and set-up after it may raise. The parts
  of \<open>WebAudioRecorder\<close> the page calls are modelled from its source beside it: whether it is recording,
  and the blobs it is still encoding.
\<close>

subsection \<open>The page\<close>

record recorder =
  rec_input :: nat     \<comment> \<open>the stream it records\<close>
  isRecording :: bool

record link =
  link_href :: nat     \<comment> \<open>the recorder whose blob it is\<close>
  download :: string
  innerHTML :: string

record page =
  recordDisabled :: bool
  stopDisabled :: bool
  gumStream :: "nat option"
  the_recorder :: "nat option"
  live :: "bool list"           \<comment> \<open>of every stream so far, whether its track still runs\<close>
  recorders :: "recorder list"
  asked :: nat                  \<comment> \<open>requests for the microphone the browser has not answered\<close>
  loading :: nat                \<comment> \<open>encoders the browser is still loading\<close>
  encoding :: "nat list"        \<comment> \<open>recorders whose blob is still to come\<close>
  recordingsList :: "link list"
  console :: "string list"

definition page_loaded :: page where
  "page_loaded =
     \<lparr>recordDisabled = False, stopDisabled = True, gumStream = None, the_recorder = None, live = [],
      recorders = [], asked = 0, loading = 0, encoding = [], recordingsList = [], console = []\<rparr>"

definition page_log :: "string \<Rightarrow> page \<Rightarrow> page" where
  "page_log m p = p\<lparr>console := console p @ [char_of (10 :: nat) # m @ '' '']\<rparr>"

subsection \<open>The recorder\<close>

definition lib_finishRecording :: "nat \<Rightarrow> page \<Rightarrow> page" where
  "lib_finishRecording r p =
     (if isRecording (recorders p ! r)
      then p\<lparr>recorders := (recorders p)[r := (recorders p ! r)\<lparr>isRecording := False\<rparr>], encoding := encoding p @ [r]\<rparr>
      else p\<lparr>console := console p @ [''WebAudioRecorder.min.js:finishRecording: no recording is running'']\<rparr>)"

subsection \<open>Start\<close>

definition startRecording :: "page \<Rightarrow> page" where
  "startRecording p =
     (let p1 = p\<lparr>console := console p @ [''startRecording() called''], asked := Suc (asked p)\<rparr>
      in p1\<lparr>recordDisabled := True, stopDisabled := False\<rparr>)"

text \<open>The handler of a rejection, of the request or of what follows it.\<close>

definition start_failed :: "page \<Rightarrow> page" where
  "start_failed p = p\<lparr>recordDisabled := False, stopDisabled := True\<rparr>"

definition stream_refused :: "page \<Rightarrow> page" where
  "stream_refused p = start_failed (p\<lparr>asked := asked p - 1\<rparr>)"

text \<open>
  Where the set-up of a stream raises: at the context, before the stream is kept; at the source, after
  that; or at the worker, which the recorder starts when it has announced its encoder.
\<close>

datatype set_up = SetupWorks | ContextRaises | SourceRaises | WorkerRaises

definition onEncoderLoading :: "string \<Rightarrow> page \<Rightarrow> page" where
  "onEncoderLoading enc p = page_log (''Loading '' @ enc @ '' encoder...'') p"

definition stream_given :: "set_up \<Rightarrow> page \<Rightarrow> page" where
  "stream_given how p =
     (let s = length (live p); r = length (recorders p);
          p1 = page_log ''getUserMedia() success, stream created, initializing WebAudioRecorder...''
                 (p\<lparr>asked := asked p - 1, live := live p @ [True]\<rparr>)
      in if how = ContextRaises then start_failed p1
         else
           let p2 = p1\<lparr>gumStream := Some s\<rparr>
           in if how = SourceRaises then start_failed p2
              else
                let p3 = onEncoderLoading ''wav'' p2
                in if how = WorkerRaises then start_failed p3
                   else page_log ''Recording started''
                     (p3\<lparr>loading := Suc (loading p3), recorders := recorders p3 @ [\<lparr>rec_input = s, isRecording = True\<rparr>], the_recorder := Some r\<rparr>))"

definition onEncoderLoaded :: "string \<Rightarrow> page \<Rightarrow> page" where
  "onEncoderLoaded enc p = page_log (enc @ '' encoder loaded'') (p\<lparr>loading := loading p - 1\<rparr>)"

subsection \<open>Stop\<close>

text \<open>An exception ends the handler and leaves what it has done.\<close>

definition stopRecording :: "page \<Rightarrow> exn option \<times> page" where
  "stopRecording p =
     (let p0 = p\<lparr>console := console p @ [''stopRecording() called'']\<rparr>
      in case gumStream p0 of
           None \<Rightarrow> (Some TypeError, p0)
         | Some s \<Rightarrow>
             let p1 = p0\<lparr>live := (live p0)[s := False], stopDisabled := True, recordDisabled := False\<rparr>
             in case the_recorder p1 of
                  None \<Rightarrow> (Some TypeError, p1)
                | Some r \<Rightarrow> (None, page_log ''Recording stopped'' (lib_finishRecording r p1)))"

subsection \<open>The blob\<close>

text \<open>\<open>date\<close> is the time as \<open>toISOString\<close> gives it.\<close>

definition recording_name :: "string \<Rightarrow> string \<Rightarrow> string" where
  "recording_name date enc = ''SaoIP-Voice-Recording-'' @ take 19 date @ ''.'' @ enc"

definition createDownloadLink :: "string \<Rightarrow> nat \<Rightarrow> string \<Rightarrow> page \<Rightarrow> page" where
  "createDownloadLink date blob enc p =
     (let fileName = recording_name date enc
      in p\<lparr>recordingsList := recordingsList p @
             [\<lparr>link_href = blob, download = fileName, innerHTML = ''Download: '' @ fileName\<rparr>]\<rparr>)"

definition onComplete :: "string \<Rightarrow> nat \<Rightarrow> page \<Rightarrow> page" where
  "onComplete date r p =
     createDownloadLink date r ''wav''
       (page_log ''Encoding complete'' (p\<lparr>encoding := remove1 r (encoding p)\<rparr>))"

subsection \<open>What can happen\<close>

text \<open>
  A disabled button does not react. The recorder stops itself at its time limit. The first flag is for
  the user: a patient one does not press stop before the browser has answered. The second is for the
  browser: with it, the set-up after the microphone has been given does not raise.
\<close>

inductive page_step :: "bool \<Rightarrow> bool \<Rightarrow> page \<Rightarrow> page \<Rightarrow> bool" for patient :: bool and works :: bool where
  press_record: "\<not> recordDisabled p \<Longrightarrow> page_step patient works p (startRecording p)"
| press_stop: "\<not> stopDisabled p \<Longrightarrow> patient \<longrightarrow> asked p = 0 \<Longrightarrow> page_step patient works p (snd (stopRecording p))"
| given: "0 < asked p \<Longrightarrow> works \<longrightarrow> how = SetupWorks \<Longrightarrow> page_step patient works p (stream_given how p)"
| refused: "0 < asked p \<Longrightarrow> page_step patient works p (stream_refused p)"
| loaded: "0 < loading p \<Longrightarrow> page_step patient works p (onEncoderLoaded ''wav'' p)"
| timeout: "r < length (recorders p) \<Longrightarrow> isRecording (recorders p ! r) \<Longrightarrow> page_step patient works p (lib_finishRecording r p)"
| complete: "r \<in> set (encoding p) \<Longrightarrow> page_step patient works p (onComplete date r p)"

inductive_cases page_stepE: "page_step b k p q"

lemmas page_defs = page_log_def lib_finishRecording_def startRecording_def start_failed_def stream_refused_def
  onEncoderLoading_def onEncoderLoaded_def stream_given_def stopRecording_def createDownloadLink_def onComplete_def Let_def

text \<open>A recorder exists for every stream a working set-up was made for, and keeps its stream.\<close>

definition page_ok :: "page \<Rightarrow> bool" where
  "page_ok p \<longleftrightarrow>
     (\<forall>s. gumStream p = Some s \<longrightarrow> s < length (live p)) \<and> (\<forall>r. the_recorder p = Some r \<longrightarrow> r < length (recorders p))
     \<and> set (encoding p) \<subseteq> {..<length (recorders p)}"

lemma page_step_ok: "page_step b k p q \<Longrightarrow> page_ok p \<Longrightarrow> page_ok q"
  by (erule page_stepE)
     (auto simp: page_ok_def page_defs nth_append split: option.splits if_splits set_up.splits dest: set_remove1_subset [THEN subsetD])

subsection \<open>A patient user, whose set-ups work\<close>

text \<open>Ready, waiting for the browser, or recording.\<close>

definition idle_page :: "page \<Rightarrow> bool" where
  "idle_page p \<longleftrightarrow> \<not> recordDisabled p \<and> stopDisabled p \<and> asked p = 0 \<and> True \<notin> set (live p)"

definition waiting_page :: "page \<Rightarrow> bool" where
  "waiting_page p \<longleftrightarrow> recordDisabled p \<and> \<not> stopDisabled p \<and> asked p = 1 \<and> True \<notin> set (live p)"

definition recording_page :: "page \<Rightarrow> bool" where
  "recording_page p \<longleftrightarrow> recordDisabled p \<and> \<not> stopDisabled p \<and> asked p = 0
     \<and> (\<exists>s r. gumStream p = Some s \<and> the_recorder p = Some r \<and> s < length (live p) \<and> r < length (recorders p)
          \<and> rec_input (recorders p ! r) = s \<and> (\<forall>i < length (live p). live p ! i \<longleftrightarrow> i = s))"

lemmas page_phases = idle_page_def waiting_page_def recording_page_def

lemma recording_stops:
  assumes "recording_page p"
  shows "fst (stopRecording p) = None \<and> idle_page (snd (stopRecording p))"
proof -
  obtain s r where sr: "gumStream p = Some s" "the_recorder p = Some r"
    "\<forall>i < length (live p). live p ! i \<longleftrightarrow> i = s" "asked p = 0"
    using assms by (auto simp: recording_page_def)
  then have "True \<notin> set ((live p)[s := False])" by (auto simp: in_set_conv_nth nth_list_update split: if_splits)
  then show ?thesis using sr by (simp add: idle_page_def page_defs)
qed

lemma patient_phases:
  assumes "page_step True True p q" "idle_page p \<or> waiting_page p \<or> recording_page p"
  shows "idle_page q \<or> waiting_page q \<or> recording_page q"
  using assms
proof (cases rule: page_step.cases)
  case press_record
  then show ?thesis using assms(2) by (auto simp: page_phases page_defs)
next
  case press_stop
  then have "recording_page p" using assms(2) by (auto simp: page_phases)
  then show ?thesis using press_stop recording_stops by blast
next
  case (given how)
  then have w: "waiting_page p" using assms(2) by (auto simp: page_phases)
  then have "\<not> live p ! i" if "i < length (live p)" for i using that by (auto simp: waiting_page_def in_set_conv_nth)
  then show ?thesis using given w by (auto simp: page_phases page_defs nth_append less_Suc_eq)
next
  case refused
  then show ?thesis using assms(2) by (auto simp: page_phases page_defs)
next
  case loaded
  then show ?thesis using assms(2) by (auto simp: page_phases page_defs)
next
  case (timeout r)
  then show ?thesis using assms(2) by (auto simp: page_phases page_defs nth_list_update)
next
  case (complete r date)
  then show ?thesis using assms(2) by (auto simp: page_phases page_defs)
qed

lemma patient_run:
  "(page_step True True)\<^sup>*\<^sup>* page_loaded p \<Longrightarrow> idle_page p \<or> waiting_page p \<or> recording_page p"
proof (induction rule: rtranclp_induct)
  case base
  then show ?case by (simp add: page_phases page_loaded_def)
next
  case (step p q)
  then show ?case using patient_phases by blast
qed

lemma none_live: "True \<notin> set xs \<Longrightarrow> filter id xs = []"
  by (induction xs) auto

lemma one_live:
  assumes "recording_page p"
  shows "length (filter id (live p)) \<le> 1"
proof -
  obtain s where "\<forall>i < length (live p). live p ! i \<longleftrightarrow> i = s" using assms by (auto simp: recording_page_def)
  then have "{i. i < length (live p) \<and> live p ! i} \<subseteq> {s}" by auto
  then show ?thesis using card_mono [of "{s}"] by (simp add: length_filter_conv_card)
qed

subsection \<open>A stream nobody can stop\<close>

text \<open>The page stops only the stream it keeps, and only a new one takes its place.\<close>

lemma leaked_step:
  assumes "page_step b k p q" "s < length (live p)" "live p ! s" "gumStream p \<noteq> Some s"
  shows "s < length (live q) \<and> live q ! s \<and> gumStream q \<noteq> Some s"
  using assms
  by (cases rule: page_step.cases)
     (auto simp: page_defs nth_append nth_list_update split: option.splits if_splits set_up.splits)

lemma leaked_run:
  "(page_step b k)\<^sup>*\<^sup>* p q \<Longrightarrow> s < length (live p) \<Longrightarrow> live p ! s \<Longrightarrow> gumStream p \<noteq> Some s \<Longrightarrow>
     s < length (live q) \<and> live q ! s \<and> gumStream q \<noteq> Some s"
  by (induction rule: rtranclp_induct) (auto dest: leaked_step)

text \<open>
  A set-up that raises leaves its stream live while the record button is enabled again: the handler of
  the rejection resets the buttons and does not stop the stream.
\<close>

lemma failed_set_up_leaks:
  assumes "0 < asked p" "how \<noteq> SetupWorks"
  shows "page_step b False p (stream_given how p) \<and> last (live (stream_given how p)) \<and> \<not> recordDisabled (stream_given how p)"
  using assms page_step.given [of p False how b] by (cases how) (auto simp: page_defs)

end
