(* ===== verification/Config.thy ===== *)
theory Config
  imports Commands World
begin

text \<open>
  The configuration: what the variables of the build and of the environment make of the server
  (\<open>config.ts\<close> and the modules that read it when they are loaded), of the administrator's client
  (\<open>lib/config.ts\<close>, \<open>lib/remote.ts\<close>) and of the players' client (\<open>lib/game.ts\<close>). And the connections
  to the database \<open>withDb\<close> leaves open.
\<close>

type_synonym vars = "string \<Rightarrow> string option"

subsection \<open>The server\<close>

text \<open>The variables of the process win over those of the build.\<close>

definition config :: "vars \<Rightarrow> vars \<Rightarrow> vars" where
  "config buildenv process_env = buildenv ++ process_env"

definition dbFile :: "vars \<Rightarrow> string + string" where
  "dbFile c = (case c ''DFS_DB_FILE'' of None \<Rightarrow> Inl ''Missing DFS_DB_FILE env variable.'' | Some f \<Rightarrow> Inr f)"

text \<open>Where the recordings are kept; an empty variable is not a missing one.\<close>

definition rec_root :: "string \<Rightarrow> vars \<Rightarrow> string + string" where
  "rec_root dirname c =
     (case c ''DFS_REC_DIR'' of
        None \<Rightarrow> Inl ''Invalid/missing DFS_REC_DIR env variable.''
      | Some d \<Rightarrow> Inr (path_resolve dirname [d]))"

record settings =
  set_db :: string
  set_rec :: string
  set_path :: "string option"
  set_port :: int

text \<open>The modules are loaded in the order of the imports, each raises when its variable is missing.\<close>

definition load_server :: "string \<Rightarrow> vars \<Rightarrow> string + settings" where
  "load_server dirname c =
     (case dbFile c of
        Inl m \<Rightarrow> Inl m
      | Inr f \<Rightarrow>
          (case rec_root dirname c of
             Inl m \<Rightarrow> Inl m
           | Inr d \<Rightarrow>
               (case wsPort (c ''DFS_WS_PORT'') of
                  None \<Rightarrow> Inl ''Missing/invalid DFS_WS_PORT env variable...''
                | Some p \<Rightarrow> Inr \<lparr>set_db = f, set_rec = d, set_path = c ''DFS_WS_PATH'', set_port = p\<rparr>)))"

lemma load_server_iff:
  "(\<exists>s. load_server dirname c = Inr s) \<longleftrightarrow>
     c ''DFS_DB_FILE'' \<noteq> None \<and> c ''DFS_REC_DIR'' \<noteq> None \<and> wsPort (c ''DFS_WS_PORT'') \<noteq> None"
  by (auto simp: load_server_def dbFile_def rec_root_def split: option.split)

text \<open>A port without a number in front is refused, also when the build had a good one.\<close>

lemma load_server_bad_port:
  "load_server dirname (config b (p(''DFS_WS_PORT'' \<mapsto> ''''))) \<noteq> Inr s"
  using load_server_iff [of dirname "config b (p(''DFS_WS_PORT'' \<mapsto> ''''))"]
  by (auto simp: config_def wsPort_missing)

text \<open>Variables the build has and the process does not have are enough.\<close>

lemma load_server_built:
  "load_server dirname b = Inr s \<Longrightarrow> load_server dirname (config b Map.empty) = Inr s"
  by (simp add: config_def)

subsection \<open>The clients\<close>

definition has_text :: "string option \<Rightarrow> bool" where
  "has_text v \<longleftrightarrow> v \<noteq> None \<and> v \<noteq> Some []"

text \<open>The address of the socket, and its path, or the text raised.\<close>

definition admin_socket :: "vars \<Rightarrow> string + (string \<times> string option)" where
  "admin_socket c =
     (case (c ''DFS_WS_PORT'', c ''DFS_WS_HOST'') of
        (Some port, Some host) \<Rightarrow> Inr (''wss://'' @ host @ '':'' @ port @ ''/admin'', c ''DFS_WS_PATH'')
      | _ \<Rightarrow> Inl ''Invalid/missing env variables'')"

definition wsProtocol :: "vars \<Rightarrow> string" where
  "wsProtocol c = (if c ''DFS_USE_TLS'' = Some ''1'' then ''wss'' else ''ws'')"

definition player_socket :: "vars \<Rightarrow> string + (string \<times> string option)" where
  "player_socket c =
     (if \<not> has_text (c ''DFS_WS_HOSTNAME'') \<or> \<not> has_text (c ''DFS_WS_PORT'') then Inl ''Missing env variables... ''
      else Inr (wsProtocol c @ ''://'' @ the (c ''DFS_WS_HOSTNAME'') @ '':'' @ the (c ''DFS_WS_PORT'') @ ''/client'',
        c ''DFS_WS_PATH''))"

text \<open>The shipped environments.\<close>

definition server_env :: vars where
  "server_env = map_of [(''DFS_WS_PORT'', ''8001''), (''DFS_HTTP_PORT'', ''8002''), (''DFS_REC_DIR'', ''../var/rec/''),
     (''DFS_DB_FILE'', ''./db/main.db''), (''DFS_WS_PATH'', ''/voice_study-api/socket.io/'')]"

definition admin_env :: vars where
  "admin_env = map_of [(''DFS_WS_PORT'', ''443''), (''DFS_WS_HOST'', ''hcc.cs.ox.ac.uk''),
     (''DFS_WS_PATH'', ''/voice_study-api/socket.io/'')]"

definition game_env :: vars where
  "game_env = map_of [(''DFS_WS_HOSTNAME'', ''hcc.cs.ox.ac.uk''), (''DFS_USE_TLS'', ''1''), (''DFS_WS_PORT'', ''443''),
     (''DFS_WS_PATH'', ''/voice_study-api/socket.io/''), (''BASE_HREF'', ''./saoip-study-game/'')]"

lemma shipped_server: "load_server ''/server/build'' server_env =
    Inr \<lparr>set_db = ''./db/main.db'', set_rec = ''/server/var/rec'',
      set_path = Some ''/voice_study-api/socket.io/'', set_port = 8001\<rparr>"
  by code_simp

lemma shipped_clients:
  "admin_socket admin_env = Inr (''wss://hcc.cs.ox.ac.uk:443/admin'', Some ''/voice_study-api/socket.io/'')"
  "player_socket game_env = Inr (''wss://hcc.cs.ox.ac.uk:443/client'', Some ''/voice_study-api/socket.io/'')"
  by code_simp+

subsection \<open>Connections\<close>

text \<open>
  \<open>withDb\<close> opens a connection, and \<open>chain(closeDb)\<close> closes it after a statement that succeeds; a failure
  passes \<open>chain\<close> by. \<open>withDb_conns\<close> counts the connections that are open.
\<close>

definition withDb_conns :: "'a stmt \<Rightarrow> nat \<times> world \<Rightarrow> (err + 'a) \<times> nat \<times> world" where
  "withDb_conns fn nw =
     (let n = Suc (fst nw); w = snd nw; w1 = w\<lparr>dbcount := Suc (dbcount w)\<rparr>
      in case dbfate w (dbcount w) of
           OpenFails \<Rightarrow> (Inl (PlainError ''SQLITE_CANTOPEN''), n, w1\<lparr>crashed := Some CannotOpen\<rparr>)
         | StatementFails \<Rightarrow> (Inl (PlainError ''SQLITE_ERROR''), n, w1)
         | Fine \<Rightarrow>
             (case fn (db w) of
                Inl m \<Rightarrow> (Inl (PlainError m), n, w1)
              | Inr (a, d) \<Rightarrow> (Inr a, n - 1, w1\<lparr>db := d\<rparr>))
         | CloseFails \<Rightarrow>
             (case fn (db w) of
                Inl m \<Rightarrow> (Inl (PlainError m), n, w1)
              | Inr (a, d) \<Rightarrow> (Inl (PlainError ''SQLITE_BUSY''), n, w1\<lparr>db := d\<rparr>)))"

text \<open>It is \<open>withDb\<close>, and every access that is rejected leaves its connection open.\<close>

lemma withDb_conns_refines:
  "withDb_conns fn (n, w) = (r, n', w') \<Longrightarrow> withDb fn w = (r, w') \<and> n' = n + (case r of Inl _ \<Rightarrow> 1 | Inr _ \<Rightarrow> 0)"
  by (auto simp: withDb_conns_def withDb_def Let_def split: db_fate.splits sum.splits)

fun accesses :: "'a stmt list \<Rightarrow> nat \<times> world \<Rightarrow> (err + 'a) list \<times> nat \<times> world" where
  "accesses [] nw = ([], nw)"
| "accesses (fn # fns) nw = (case withDb_conns fn nw of (r, nw') \<Rightarrow> (case accesses fns nw' of (rs, nw2) \<Rightarrow> (r # rs, nw2)))"

lemma connections_left_open:
  "accesses fns (n, w) = (rs, n', w') \<Longrightarrow> n' = n + length (filter (\<lambda>r. \<exists>e. r = Inl e) rs)"
proof (induction fns arbitrary: n w rs)
  case (Cons fn fns)
  obtain r n1 w1 where one: "withDb_conns fn (n, w) = (r, n1, w1)" by (metis prod.exhaust)
  obtain rs' where rest: "accesses fns (n1, w1) = (rs', n', w')" "rs = r # rs'"
    using Cons.prems one by (auto split: prod.splits)
  show ?case using Cons.IH [OF rest(1)] withDb_conns_refines [OF one] rest(2) by (cases r) simp_all
qed simp

end
