(* ===== verification/ErrorBar.thy ===== *)
theory ErrorBar
  imports AdminClient
begin

text \<open>
  The administrator's errors from the socket to the status bar: the emitter of \<open>lib/globalerr.ts\<close>, the
  handlers of \<open>lib/remote.ts\<close>, and the effect of \<open>StatusBar\<close> that registers its callback and takes it
  away. The bar is there at most once, so one constructor stands for its callback.
\<close>

datatype err_cb = BarCb

record error_page =
  err_cbs :: "(string, err_cb) cb_map"
  mounted :: bool
  bar :: status_bar
  bar_clock :: "bar_act clock"

definition onError :: "err_cb \<Rightarrow> error_page \<Rightarrow> error_page" where
  "onError cb p = p\<lparr>err_cbs := on ''error'' cb (err_cbs p)\<rparr>"

definition offError :: "err_cb \<Rightarrow> error_page \<Rightarrow> error_page" where
  "offError cb p = p\<lparr>err_cbs := off ''error'' cb (err_cbs p)\<rparr>"

fun run_err_cb :: "string \<Rightarrow> err_cb \<Rightarrow> error_page \<Rightarrow> exn + error_page" where
  "run_err_cb msg BarCb p = (let (b, c) = onErrorCb msg (bar p, bar_clock p) in Inr (p\<lparr>bar := b, bar_clock := c\<rparr>))"

definition showError :: "string \<Rightarrow> error_page \<Rightarrow> exn + error_page" where
  "showError msg p = trigger_with (run_err_cb msg) (err_cbs p) ''error'' p"

text \<open>The socket is lost, or cannot connect.\<close>

definition on_disconnect :: "error_page \<Rightarrow> exn + error_page" where
  "on_disconnect p = showError (connectionError ''disconnected'') p"

definition on_connect_error :: "string \<Rightarrow> error_page \<Rightarrow> exn + error_page" where
  "on_connect_error m p = showError (connectionError m) p"

text \<open>The effect of the bar, and its cleanup.\<close>

definition bar_mount :: "error_page \<Rightarrow> error_page" where
  "bar_mount p = onError BarCb (p\<lparr>mounted := True, bar := \<lparr>warning = [], warnTimeout = None\<rparr>\<rparr>)"

definition bar_unmount :: "error_page \<Rightarrow> error_page" where
  "bar_unmount p =
     (let p1 = offError BarCb p
      in p1\<lparr>mounted := False, bar_clock := clearTimeout (warnTimeout (bar p1)) (bar_clock p1)\<rparr>)"

text \<open>A timer of the bar runs.\<close>

definition bar_timer :: "nat \<Rightarrow> error_page \<Rightarrow> error_page" where
  "bar_timer i p = p\<lparr>bar := bar_fire ClearWarning (bar p), bar_clock := clearTimeout (Some i) (bar_clock p)\<rparr>"

inductive error_step :: "error_page \<Rightarrow> error_page \<Rightarrow> bool" where
  mount: "\<not> mounted p \<Longrightarrow> error_step p (bar_mount p)"
| unmount: "mounted p \<Longrightarrow> error_step p (bar_unmount p)"
| lost: "on_disconnect p = Inr p' \<Longrightarrow> error_step p p'"
| refused: "on_connect_error m p = Inr p' \<Longrightarrow> error_step p p'"
| timer: "(i, ClearWarning) \<in> waiting (bar_clock p) \<Longrightarrow> error_step p (bar_timer i p)"

definition error_page_init :: "int \<Rightarrow> error_page" where
  "error_page_init t = \<lparr>err_cbs = no_cbs, mounted = False, bar = \<lparr>warning = [], warnTimeout = None\<rparr>,
     bar_clock = \<lparr>now = t, pending = [], nextTimer = 0, gameTimers = (\<lambda>_. None)\<rparr>\<rparr>"

text \<open>
  The bar listens exactly while it is there, and its text is waiting to be cleared exactly while there
  is one; a bar that is gone leaves neither a callback nor a timer.
\<close>

definition error_page_ok :: "error_page \<Rightarrow> bool" where
  "error_page_ok p \<longleftrightarrow>
     clock_ok (bar_clock p) \<and> subs (err_cbs p) ''error'' = (if mounted p then [BarCb] else [])
     \<and> waiting (bar_clock p) =
         (if mounted p \<and> warning (bar p) \<noteq> [] then {(the (warnTimeout (bar p)), ClearWarning)} else {})
     \<and> (warning (bar p) \<noteq> [] \<longrightarrow> warnTimeout (bar p) \<noteq> None)"

lemma showError_shows:
  assumes "error_page_ok p" "msg \<noteq> []"
  shows "\<exists>p'. showError msg p = Inr p' \<and> error_page_ok p' \<and> mounted p' = mounted p
    \<and> warning (bar p') = (if mounted p then msg else warning (bar p))"
proof (cases "mounted p")
  case False
  then show ?thesis using assms by (simp add: showError_def trigger_with_subs error_page_ok_def)
next
  case True
  obtain b c where bc: "onErrorCb msg (bar p, bar_clock p) = (b, c)" by fastforce
  have "waiting (bar_clock p) \<subseteq> {(t, ClearWarning) | t. warnTimeout (bar p) = Some t}"
    using assms(1) by (auto simp: error_page_ok_def split: if_splits)
  from bar_one_timer [OF _ this bc] assms(1)
  have "warning b = msg \<and> (\<exists>t. warnTimeout b = Some t \<and> waiting c = {(t, ClearWarning)}) \<and> clock_ok c"
    by (simp add: error_page_ok_def)
  then show ?thesis using True assms by (auto simp: showError_def trigger_with_subs error_page_ok_def bc)
qed

lemma connectionError_text: "connectionError m \<noteq> []"
  by (simp add: connectionError_def)

lemma error_step_ok: "error_step p q \<Longrightarrow> error_page_ok p \<Longrightarrow> error_page_ok q"
proof (induction rule: error_step.induct)
  case (mount p)
  then show ?case by (simp add: error_page_ok_def bar_mount_def onError_def ev.listeners_reg)
next
  case (unmount p)
  then have "waiting (clearTimeout (warnTimeout (bar p)) (bar_clock p)) = {}"
    by (cases "warnTimeout (bar p)") (auto simp: error_page_ok_def tm.stop_none tm.stop_live split: if_splits)
  then show ?case using unmount
    by (auto simp: error_page_ok_def bar_unmount_def offError_def ev.listeners_unreg Let_def tm.stop_ok)
next
  case (lost p p')
  then show ?case using showError_shows [OF lost(2) connectionError_text [of "''disconnected''"]] by (auto simp: on_disconnect_def)
next
  case (refused m p p')
  then show ?case using showError_shows [OF refused(2) connectionError_text [of m]] by (auto simp: on_connect_error_def)
next
  case (timer i p)
  then show ?case by (auto simp: error_page_ok_def bar_timer_def tm.stop_live tm.stop_ok split: if_splits)
qed

lemma error_page_run: "error_step\<^sup>*\<^sup>* (error_page_init t) p \<Longrightarrow> error_page_ok p"
proof (induction rule: rtranclp_induct)
  case base
  show ?case by (simp add: error_page_ok_def error_page_init_def clock_ok_def waiting_def subs_def no_cbs_def)
next
  case (step p q)
  then show ?case using error_step_ok by blast
qed

text \<open>
  At any time a connection that is lost is shown while the bar is there, by one timer that clears it,
  and nothing raises.
\<close>

lemma lost_connection_shown:
  assumes "error_step\<^sup>*\<^sup>* (error_page_init t) p" "mounted p"
  shows "\<exists>p' i. on_disconnect p = Inr p' \<and> warning (bar p') = ''Connection Error: disconnected''
    \<and> waiting (bar_clock p') = {(i, ClearWarning)} \<and> warning (bar (bar_timer i p')) = []"
  using showError_shows [OF error_page_run [OF assms(1)] connectionError_text [of "''disconnected''"]] assms(2)
  by (auto simp: on_disconnect_def connectionError_def error_page_ok_def bar_timer_def)

end
