(* ===== verification/Quiet.thy ===== *)
theory Quiet
  imports ServerProps
begin

text \<open>
  A server nobody talks to: only its timers run, each when it is due, in whatever order the event loop
  takes them. How many of them are still to come, that they end, and how the games are then.
\<close>

subsection \<open>The timers a game has left\<close>

definition game_work :: "game \<Rightarrow> nat" where
  "game_work g = (if startTime g = None then 0 else timers_left g)"

definition server_work :: "world \<Rightarrow> nat" where
  "server_work w = sum_list (map game_work (objs w))"

lemma game_work_bound: "game_work g \<le> 2 * length (rounds g)"
  by (auto simp: game_work_def timers_left_def Let_def)

lemma server_work_bound: "server_work w \<le> 2 * sum_list (map (\<lambda>g. length (rounds g)) (objs w))"
proof -
  have "sum_list (map game_work gs) \<le> 2 * sum_list (map (\<lambda>g. length (rounds g)) gs)" for gs
    using game_work_bound by (induction gs) (simp, fastforce simp: add_mono)
  then show ?thesis by (simp add: server_work_def)
qed

text \<open>A game that waits for its players, or is over.\<close>

definition at_rest :: "game \<Rightarrow> bool" where
  "at_rest g \<longleftrightarrow> startTime g = None \<or> endTime g \<noteq> None"

lemma at_rest_pending:
  assumes "game_inv (g, e)"
  shows "at_rest g \<longleftrightarrow> pending e = []" "at_rest g \<longleftrightarrow> game_work g = 0"
proof -
  have base: "0 \<le> currentRound g" "currentRound g \<le> int (length (rounds g))"
    using assms by (simp_all add: game_inv_def game_base_def)
  consider "startTime g = None" | "startTime g \<noteq> None" "currentRound g < int (length (rounds g))"
    | "startTime g \<noteq> None" "currentRound g = int (length (rounds g))" using base by linarith
  then have "(at_rest g \<longleftrightarrow> pending e = []) \<and> (at_rest g \<longleftrightarrow> game_work g = 0)"
  proof cases
    case 1
    then show ?thesis using game_inv_lobby [OF assms 1] by (simp add: at_rest_def lobby_inv_def game_work_def)
  next
    case 2
    have run: "running_inv (g, e)" by (rule game_inv_running [OF assms 2])
    then have "endTime g = None" "pending e \<noteq> []"
      by (auto simp: running_inv_def round_timer_def Let_def split: if_splits)
    moreover have "timers_left g \<noteq> 0" using 2(2) base by (auto simp: timers_left_def Let_def)
    ultimately show ?thesis using 2 by (simp add: at_rest_def game_work_def)
  next
    case 3
    then have "ended_inv (g, e)" using game_inv_ended [OF assms 3(1)] by simp
    then show ?thesis using 3 by (simp add: at_rest_def ended_inv_def game_work_def timers_left_def)
  qed
  then show "at_rest g \<longleftrightarrow> pending e = []" "at_rest g \<longleftrightarrow> game_work g = 0" by blast+
qed

subsection \<open>One timer\<close>

lemma run_timer_work:
  assumes inv: "world_inv w" and p: "(t, due, act) \<in> set (pending (genv w))"
  shows "Suc (server_work (run_timer t act w)) = server_work w"
proof -
  let ?i = "act_oid act" and ?os = "objs w" and ?e = "genv w"
  let ?e1 = "?e\<lparr>pending := filter (\<lambda>p. fst p \<noteq> t) (pending ?e)\<rparr>"
  have gi: "games_inv ?os (memGames w) ?e" using inv by (simp add: world_inv_def)
  note own = owner_live [OF gi p]
  note gd = games_invD [OF gi own(1)]
  have "(t, due, act) \<in> set (pending (view ?i ?e))" using p by (simp add: pending_view)
  note pc = pending_cases [OF gd(2) this]
  have v1: "view ?i ?e1 = (view ?i ?e)\<lparr>pending := []\<rparr>" using pc(1) by simp
  obtain g' e' where run: "fire act (?os ! ?i, ?e1) = Inr (g', e')" using fire_games_inv [OF gi p] by blast
  then have "fire act (?os ! ?i, (view ?i ?e)\<lparr>pending := []\<rparr>) = Inr (viewed (g', e'))"
    using fire_viewed [of "(?os ! ?i, ?e1)" act] gd(1,3) v1 by (simp add: viewed_pair)
  note left = fire_left [OF gd(2) pc(1) this]
  have g: "startTime g' = startTime (?os ! ?i)" "Suc (timers_left g') = timers_left (?os ! ?i)"
    using left by (simp_all add: viewed_def)
  have "objs (run_timer t act w) = ?os[?i := g']" using run by (simp add: run_timer_def on_object_def)
  moreover have "sum_list (map game_work (?os[?i := g'])) + game_work (?os ! ?i) = game_work g' + sum_list (map game_work ?os)"
  proof -
    have "game_work (?os ! ?i) \<le> sum_list (map game_work ?os)" using own(1) by (simp add: member_le_sum_list)
    then show ?thesis using own(1) by (simp add: map_update sum_list_update)
  qed
  moreover have "Suc (game_work g') = game_work (?os ! ?i)" using g own(2) by (auto simp: game_work_def)
  ultimately show ?thesis by (simp add: server_work_def)
qed

text \<open>The event loop waits for a timer to be due, and runs it.\<close>

inductive timer_runs :: "server \<Rightarrow> server \<Rightarrow> bool" where
  timer_runs: "(t, due, act) \<in> set (pending (genv (sw s))) \<Longrightarrow> 0 \<le> d \<Longrightarrow> due \<le> now (genv (sw s)) + d \<Longrightarrow>
    timer_runs s (s\<lparr>sw := run_timer t act (pass_time d (sw s))\<rparr>)"

lemma pass_time_pending [simp]: "pending (genv (pass_time d w)) = pending (genv w)"
  by (simp add: pass_time_def)

lemma timer_runs_steps: "timer_runs s s' \<Longrightarrow> server_step\<^sup>*\<^sup>* s s'"
proof (induction rule: timer_runs.induct)
  case (timer_runs t due act s d)
  let ?s = "s\<lparr>sw := pass_time d (sw s)\<rparr>"
  have "server_step s ?s" by (rule server_step.time [OF timer_runs(2)])
  moreover have "server_step ?s (?s\<lparr>sw := run_timer t act (sw ?s)\<rparr>)"
    by (rule server_step.timer) (use timer_runs in \<open>simp_all add: pass_time_def\<close>)
  ultimately show ?case by (simp add: converse_rtranclp_into_rtranclp)
qed

lemma timer_runs_work:
  assumes "timer_runs s s'" "server_inv (sw s)"
  shows "server_inv (sw s')" "Suc (server_work (sw s')) = server_work (sw s)"
proof -
  show "server_inv (sw s')" by (rule server_steps_inv [OF timer_runs_steps [OF assms(1)] assms(2)])
  have inv: "world_inv (pass_time d (sw s))" for d using assms(2) by (simp add: server_inv_def pass_time_inv)
  have work: "server_work (pass_time d w) = server_work w" for d w by (simp add: server_work_def pass_time_def)
  from assms(1) show "Suc (server_work (sw s')) = server_work (sw s)"
  proof (cases rule: timer_runs.cases)
    case (timer_runs t due act d)
    then show ?thesis using run_timer_work [OF inv, of t due act d] by (simp add: work)
  qed
qed

lemma timers_run_work:
  assumes "(timer_runs ^^ n) s s'" "server_inv (sw s)"
  shows "server_inv (sw s')" "server_work (sw s') + n = server_work (sw s)"
proof -
  have "server_inv (sw s') \<and> server_work (sw s') + n = server_work (sw s)"
    using assms
  proof (induction n arbitrary: s')
    case (Suc n)
    then obtain s1 where s1: "(timer_runs ^^ n) s s1" "timer_runs s1 s'" by (auto elim: relpowp_Suc_E)
    then show ?case using Suc.IH [OF s1(1) Suc.prems(2)] timer_runs_work [OF s1(2)] by simp
  qed simp
  then show "server_inv (sw s')" "server_work (sw s') + n = server_work (sw s)" by simp_all
qed

subsection \<open>When no timer is left\<close>

lemma rest_iff:
  assumes "server_inv w"
  shows "pending (genv w) = [] \<longleftrightarrow> (\<forall>g \<in> set (objs w). at_rest g)"
    "server_work w = 0 \<longleftrightarrow> (\<forall>g \<in> set (objs w). at_rest g)"
proof -
  note gi = server_invD(2) [OF assms]
  have each: "at_rest (objs w ! i) \<longleftrightarrow> pending (view i (genv w)) = []"
    "at_rest (objs w ! i) \<longleftrightarrow> game_work (objs w ! i) = 0" if "i < length (objs w)" for i
    using at_rest_pending [OF games_invD(2) [OF gi that]] by blast+
  have "pending (genv w) = [] \<longleftrightarrow> (\<forall>i < length (objs w). pending (view i (genv w)) = [])"
  proof
    assume none: "\<forall>i < length (objs w). pending (view i (genv w)) = []"
    have "p \<notin> set (pending (genv w))" for p
    proof
      assume "p \<in> set (pending (genv w))"
      moreover obtain t due act where "p = (t, due, act)" by (cases p)
      ultimately have p: "(t, due, act) \<in> set (pending (genv w))" by simp
      then have "(t, due, act) \<in> set (pending (view (act_oid act) (genv w)))" by (simp add: pending_view)
      then show False using none owner_live(1) [OF gi p] by simp
    qed
    then show "pending (genv w) = []" by (metis list.set_intros(1) neq_Nil_conv)
  qed (simp add: pending_view)
  then show "pending (genv w) = [] \<longleftrightarrow> (\<forall>g \<in> set (objs w). at_rest g)" using each(1) by (simp add: all_set_conv_all_nth)
  show "server_work w = 0 \<longleftrightarrow> (\<forall>g \<in> set (objs w). at_rest g)"
    using each(2) by (simp add: server_work_def all_set_conv_all_nth)
qed

text \<open>Unless all is quiet some timer can run, so there is a run of any length up to all the work.\<close>

lemma timer_can_run:
  assumes "server_work (sw s) \<noteq> 0" "server_inv (sw s)"
  shows "\<exists>s'. timer_runs s s'"
proof -
  have "pending (genv (sw s)) \<noteq> []" using assms(1) rest_iff [OF assms(2)] by simp
  then obtain p ps where ps: "pending (genv (sw s)) = p # ps" by (cases "pending (genv (sw s))") auto
  obtain t due act where "p = (t, due, act)" by (cases p)
  then have p: "(t, due, act) \<in> set (pending (genv (sw s)))" using ps by simp
  let ?d = "max 0 (due - now (genv (sw s)))"
  have "0 \<le> ?d" "due \<le> now (genv (sw s)) + ?d" by simp_all
  from timer_runs.intros [OF p this] show ?thesis by blast
qed

lemma runs_to_rest:
  "server_inv (sw s) \<Longrightarrow> \<exists>s'. (timer_runs ^^ server_work (sw s)) s s' \<and> server_work (sw s') = 0"
proof (induction "server_work (sw s)" arbitrary: s)
  case 0
  then show ?case by auto
next
  case (Suc n)
  obtain s1 where s1: "timer_runs s s1" using timer_can_run [of s] Suc by auto
  note t = timer_runs_work [OF s1 Suc.prems]
  then have n: "n = server_work (sw s1)" using Suc.hyps(2) by simp
  from Suc.hyps(1) [OF n t(1)] obtain s' where "(timer_runs ^^ n) s1 s'" "server_work (sw s') = 0" using n by auto
  then show ?case using s1 Suc.hyps(2) by (metis relpowp_Suc_I2)
qed

text \<open>All of it is steps of the server.\<close>

lemma timers_run_steps: "(timer_runs ^^ n) s s' \<Longrightarrow> server_step\<^sup>*\<^sup>* s s'"
proof (induction n arbitrary: s')
  case (Suc n)
  then obtain x where "(timer_runs ^^ n) s x" "timer_runs x s'" by auto
  then show ?case using Suc.IH timer_runs_steps rtranclp_trans by metis
qed simp

lemma timers_run_reaches: "server_reaches w s \<Longrightarrow> (timer_runs ^^ n) s s' \<Longrightarrow> server_reaches w s'"
  using timers_run_steps rtranclp_trans unfolding server_reaches_def by metis

end
