(* ===== verification/Saved.thy ===== *)
theory Saved
  imports Persist
begin

text \<open>
  What of a game reaches the database: between an answer and the event that follows it the answer has
  not been saved; at any other time of a started game its state is the last one saved, and so the
  whole of a game that has ended is in its row once its effects have run.
\<close>

text \<open>The current round has ended and the change to the next one is still to come.\<close>

definition just_answered :: "game \<Rightarrow> bool" where
  "just_answered g \<longleftrightarrow> currentRound g < int (length (rounds g)) \<and> rendTime (rounds g ! nat (currentRound g)) \<noteq> None"

definition saved_or_answered :: "gst \<Rightarrow> bool" where
  "saved_or_answered s \<longleftrightarrow> (startTime (fst s) \<noteq> None \<longrightarrow> saves_state s \<or> just_answered (fst s))"

lemma saved_or_answeredI: "saves_state s \<Longrightarrow> saved_or_answered s"
  by (simp add: saved_or_answered_def)

lemma saves_state_frame [simp]:
  "saves_state (g, e\<lparr>now := t\<rparr>) = saves_state (g, e)"
  "saves_state (g\<lparr>cbMap := m\<rparr>, e) = saves_state (g, e)"
  by (simp_all add: saves_state_def state_def)

lemma answered_now:
  assumes inv: "game_inv (g, e)" and r: "js_nth (rounds g) (a_round a) = Some r" "open_round r"
  shows "just_answered (fst (answer_fx a (g, e)))"
proof -
  let ?k = "nat (a_round a)"
  have k: "?k < length (rounds g)" "rounds g ! ?k = r" using r(1) by (auto simp: js_nth_Some_iff)
  note cur = answer_fx_inv(1) [OF inv r] open_round_current(4) [OF inv k(1), unfolded k(2), OF r(2)]
  have "single_round r" using inv k by (auto simp: game_inv_def game_base_def list_all_length)
  then show ?thesis using k cur by (auto simp: just_answered_def answer_fx_def Let_def onAnswer_single)
qed

lemma step_saved:
  assumes "game_step s s'" "game_inv s" "saving (fst s)" "saved_or_answered s"
  shows "saved_or_answered s'"
  using assms
proof (induction rule: game_step.induct)
  case (client_answer a s res s')
  obtain g e where s: "s = (g, e)" by fastforce
  have wf: "wf_game g" using game_inv_wf [OF client_answer.prems(1)] s by simp
  show ?case
    using client_answer answered_now [of g e a]
    by (auto simp: s answer_cases [OF wf] saved_or_answered_def split: option.splits if_splits)
next
  case (client_ready pid b s res s')
  then show ?case
    using game_inv_wf [OF client_ready.prems(1)] playerReady_fx_saves [OF client_ready.prems(2), THEN saved_or_answeredI]
    by (cases s) (auto simp: method_eqs Let_def split: if_splits)
next
  case (timer i due act e g s')
  note pc = pending_cases [OF timer.prems(1) timer.hyps(1)]
  have f: "fire act (g, e\<lparr>pending := []\<rparr>) = Inr s'" using timer.hyps(3) pc(1) by simp
  show ?case
  proof (cases "rendTime (rounds g ! nat (currentRound g)) = None")
    case True
    have "0 \<le> currentRound g" using timer.prems(1) by (simp add: game_inv_def game_base_def)
    then have "js_nth (rounds g) (currentRound g) = Some (rounds g ! nat (currentRound g))"
      using pc(4) by (simp add: js_nth_def)
    moreover have "open_round (rounds g ! nat (currentRound g))"
      using pc(3) True by (simp add: running_inv_def open_round_def Let_def)
    ultimately show ?thesis
      using f fire_eq [OF timer.prems(1) pc(1)] True
        answered_now [OF timer.prems(1), of "\<lparr>a_round = currentRound g, a_value = None\<rparr>"]
      by (simp add: saved_or_answered_def)
  next
    case False
    then show ?thesis
      using f fire_eq [OF timer.prems(1) pc(1)] timer.prems(2)
        gotoRound_fx_saves [of "(g, e\<lparr>pending := []\<rparr>)" "currentRound g + 1", THEN saved_or_answeredI]
      by auto
  qed
qed (simp_all add: saved_or_answered_def just_answered_def)

lemma reachable_saved: "reachable s \<Longrightarrow> saved_or_answered s"
proof (induction rule: reachable.induct)
  case (created rs ps e i gid)
  then show ?case by (simp add: saved_or_answered_def new_Game_def)
next
  case (resumed rs ps e cur i gid t res s)
  let ?g = "new_Game i gid ps rs (Some cur) (Some t)"
  have "s = gotoRound_fx cur (?g, e)" using resumed(7) by (simp add: method_eqs)
  then show ?case using gotoRound_fx_saves [of "(?g, e)" cur, THEN saved_or_answeredI] by simp
next
  case (step s s')
  then show ?case using step_saved reachable_inv reachable_saving by blast
qed

text \<open>A game that has ended is past its last round, so nothing of it is unsaved.\<close>

lemma ended_saved:
  assumes "reachable (g, e)" "endTime g \<noteq> None"
  shows "last_saved (gameId g) (out e) = Some (state g)"
proof -
  note inv = reachable_inv [OF assms(1)]
  have started: "startTime g \<noteq> None" using game_inv_lobby [OF inv] assms(2) by (auto simp: lobby_inv_def)
  have "\<not> currentRound g < int (length (rounds g))"
    using game_inv_running [OF inv started] assms(2) by (auto simp: running_inv_def Let_def)
  then have "\<not> just_answered g" by (simp add: just_answered_def)
  then show ?thesis using reachable_saved [OF assms(1)] started by (simp add: saved_or_answered_def saves_state_def)
qed

end
