(* ===== verification/Markup.thy ===== *)
theory Markup
  imports JsValue
begin

text \<open>
  What the components of the clients draw: trees of elements with their attributes, the class being the
  name of a styled component, and what a click on an element does. The style sheets themselves are left
  out; where a style depends on a component's properties, the value is an attribute.
\<close>

datatype 'a node = Txt string | Elem string "(string \<times> string) list" "'a option" "'a node list"

definition bare :: "string \<Rightarrow> 'a node list \<Rightarrow> 'a node" where
  "bare tag ns = Elem tag [] None ns"

definition styled :: "string \<Rightarrow> string \<Rightarrow> 'a node list \<Rightarrow> 'a node" where
  "styled tag name ns = Elem tag [(''class'', name)] None ns"

definition on_click :: "'a \<Rightarrow> string \<Rightarrow> 'a node" where
  "on_click act label = Elem ''button'' [] (Some act) [Txt label]"

fun text_of :: "'a node \<Rightarrow> string" where
  "text_of (Txt s) = s"
| "text_of (Elem _ _ _ ns) = concat (map text_of ns)"

text \<open>The elements one can click, with their text and what they do; a disabled one does nothing.\<close>

fun clicks :: "'a node \<Rightarrow> (string \<times> 'a) list" where
  "clicks (Txt _) = []"
| "clicks (Elem tag atts act ns) =
     (case act of None \<Rightarrow> [] | Some a \<Rightarrow> if map_of atts ''disabled'' = None then [(concat (map text_of ns), a)] else [])
       @ concat (map clicks ns)"

text \<open>The elements of a class or tag, from left to right.\<close>

fun of_class :: "string \<Rightarrow> 'a node \<Rightarrow> 'a node list" where
  "of_class c (Txt _) = []"
| "of_class c (Elem tag atts act ns) =
     (if map_of atts ''class'' = Some c then [Elem tag atts act ns] else []) @ concat (map (of_class c) ns)"

fun of_tag :: "string \<Rightarrow> 'a node \<Rightarrow> 'a node list" where
  "of_tag t (Txt _) = []"
| "of_tag t (Elem tag atts act ns) =
     (if tag = t then [Elem tag atts act ns] else []) @ concat (map (of_tag t) ns)"

lemma element_simps [simp]:
  "text_of (bare tag ns) = concat (map text_of ns)" "text_of (styled tag name ns) = concat (map text_of ns)"
  "text_of (on_click act l) = l"
  "clicks (bare tag ns) = concat (map clicks ns)" "clicks (styled tag name ns) = concat (map clicks ns)"
  "clicks (on_click act l) = [(l, act)]"
  "of_class c (bare tag ns) = concat (map (of_class c) ns)"
  "of_class c (styled tag name ns) = (if name = c then [styled tag name ns] else []) @ concat (map (of_class c) ns)"
  "of_class c (on_click act l) = []"
  "of_tag t (bare tag ns) = (if tag = t then [bare tag ns] else []) @ concat (map (of_tag t) ns)"
  "of_tag t (styled tag name ns) = (if tag = t then [styled tag name ns] else []) @ concat (map (of_tag t) ns)"
  "of_tag t (on_click act l) = (if t = ''button'' then [on_click act l] else [])"
  by (simp_all add: bare_def styled_def on_click_def)

text \<open>
  A value as a child of an element: a text or number is text, a list its children, nothing is drawn for
  what is absent or a truth value or a function, and an object makes the component raise.
\<close>

fun child :: "jsval \<Rightarrow> exn + string" where
  "child (JNum n) = Inr (show_int n)"
| "child (JStr s) = Inr s"
| "child (JArr vs) = fold (\<lambda>v acc. bindR acc (\<lambda>s. mapR (\<lambda>t. s @ t) (child v))) vs (Inr [])"
| "child (JObj _) = Inl TypeError"
| "child _ = Inr []"

fun has_object :: "jsval \<Rightarrow> bool" where
  "has_object (JObj _) \<longleftrightarrow> True"
| "has_object (JArr vs) \<longleftrightarrow> (\<exists>v \<in> set vs. has_object v)"
| "has_object _ \<longleftrightarrow> False"

lemma children_raise:
  "(\<exists>t. fold (\<lambda>v acc. bindR acc (\<lambda>s. mapR (\<lambda>t. s @ t) (f v))) vs acc = Inr t) \<longleftrightarrow>
     (\<exists>t. acc = Inr t) \<and> (\<forall>v \<in> set vs. \<exists>t. f v = Inr t)"
  by (induction vs arbitrary: acc) (auto simp: bindR_eq_Inr_iff mapR_eq_Inr_iff)

lemma child_drawn_iff: "(\<exists>t. child v = Inr t) \<longleftrightarrow> \<not> has_object v"
  by (induction v rule: child.induct) (simp_all add: children_raise)

text \<open>Children of which one may raise: the first that does ends the drawing.\<close>

fun all_drawn :: "(exn + 'b) list \<Rightarrow> exn + 'b list" where
  "all_drawn [] = Inr []"
| "all_drawn (x # xs) = bindR x (\<lambda>a. mapR (\<lambda>as. a # as) (all_drawn xs))"

lemma all_drawn_Inr [simp]: "all_drawn (map (\<lambda>x. Inr (f x)) xs) = Inr (map f xs)"
  by (induction xs) simp_all

lemma all_drawn_cong: "(\<And>x. x \<in> set xs \<Longrightarrow> f x = Inr (g x)) \<Longrightarrow> all_drawn (map f xs) = Inr (map g xs)"
  by (induction xs) simp_all

definition upper_char :: "char \<Rightarrow> char" where
  "upper_char c = (if 97 \<le> (of_char c :: nat) \<and> (of_char c :: nat) \<le> 122 then char_of (of_char c - 32 :: nat) else c)"

text \<open>\<open>toUpperCase\<close> of ASCII text.\<close>

definition toUpperCase :: "string \<Rightarrow> string" where
  "toUpperCase s = map upper_char s"

end
