(* ===== verification/Pages.thy ===== *)
theory Pages
  imports Markup Screens
begin

text \<open>
  The pages of the players' client, component by component (\<open>game/src/js/components\<close>), from the data
  their decisions are about (theory Screens): what is on them, and what a click does.
\<close>

subsection \<open>Buttons, questions, rounds\<close>

datatype deed = DoNothing | DoAnswer answer | DoReady bool | DoSubmit | DoToggle

definition bombButton :: "deed \<Rightarrow> int \<Rightarrow> string \<Rightarrow> exn + deed node" where
  "bombButton onPress option className =
     mapR (\<lambda>color. Elem ''button'' [(''class'', className), (''color'', color)] (Some onPress) [Txt (toUpperCase color)])
       (button_color option)"

definition spacer :: "string \<Rightarrow> deed node" where
  "spacer height = Elem ''div'' [(''class'', ''Spacer''), (''height'', height)] None []"

text \<open>The index a solution makes, of an array as of its only number; -1 stands for no index.\<close>

fun sol_index :: "solution \<Rightarrow> int" where
  "sol_index (SNum s) = s"
| "sol_index (SSeq [s]) = s"
| "sol_index _ = -1"

text \<open>\<open>xs[i] = v\<close>: a negative index makes a property of another name, one past the end extends the array.\<close>

definition js_put :: "int \<Rightarrow> 'a option \<Rightarrow> 'a option list \<Rightarrow> 'a option list" where
  "js_put i v xs =
     (if i < 0 then xs
      else if nat i < length xs then xs[nat i := v]
      else xs @ replicate (nat i - length xs) None @ [v])"

definition shown_labels :: "equation \<Rightarrow> solution \<Rightarrow> string option list" where
  "shown_labels equation solution =
     (let eqAnswerIndex = find_index (\<lambda>x. x = eq_answer equation) (options equation);
          solutionIndex = sol_index solution;
          temp = js_nth (options equation) eqAnswerIndex
      in js_put solutionIndex temp
           (js_put eqAnswerIndex (js_nth (options equation) solutionIndex) (map Some (options equation))))"

lemma shown_labels_options:
  "shown_options q s = Some opts \<Longrightarrow> shown_labels q (SNum s) = map Some opts"
  by (auto simp: shown_options_def shown_labels_def js_put_def js_nth_def Let_def map_update split: option.splits if_splits)

definition buttonSolution :: "int \<Rightarrow> string option \<Rightarrow> exn + deed node" where
  "buttonSolution value lbl =
     mapR (\<lambda>b. styled ''div'' ''ButtonSolutionDiv'' [bare ''span'' [Txt (case lbl of None \<Rightarrow> [] | Some l \<Rightarrow> l)], b])
       (bombButton DoNothing value ''OptionColor'')"

definition eqInstructions :: "equation option \<Rightarrow> round_data \<Rightarrow> exn + deed node" where
  "eqInstructions equation roundData =
     (case equation of
        None \<Rightarrow> Inl TypeError
      | Some q \<Rightarrow>
          mapR (\<lambda>bs. bare ''div'' [bare ''div'' [Txt (label q)], spacer ''50px'', styled ''div'' ''OptionsContainer'' bs])
            (all_drawn (map (\<lambda>(i, l). buttonSolution (int i) l) (enumerate 0 (shown_labels q (rd_solution roundData))))))"

definition buttonRound :: "nat \<Rightarrow> int \<Rightarrow> round_data \<Rightarrow> bool \<Rightarrow> exn + deed node" where
  "buttonRound draw round roundData isBlue =
     mapR (\<lambda>body. styled ''div'' ''Center''
         [Elem ''div'' [(''class'', ''Container''), (''width'', if isBlue then ''80vw'' else ''60vw''),
            (''background'', if isBlue then ''beige'' else ''url(./textures/BROWNHUG.png)'')] None
           ((if isBlue then []
             else [styled ''div'' ''InstructionsContainer'' [Txt ''Press the correct button to defuse the bomb.''], spacer ''100px''])
            @ [body])])
       (if isBlue
        then mapR (\<lambda>n. styled ''div'' ''BlueContainer'' [n]) (eqInstructions (getEquation draw round roundData) roundData)
        else case rd_options roundData of
               None \<Rightarrow> Inl TypeError
             | Some opts \<Rightarrow>
                 mapR (styled ''div'' ''RedContainer'')
                   (all_drawn (map (\<lambda>option. bombButton (DoAnswer \<lparr>a_round = round, a_value = Some (JNum option)\<rparr>) option ''Button'') opts)))"

definition roundNode :: "nat \<Rightarrow> round_view \<Rightarrow> bool \<Rightarrow> exn + deed node" where
  "roundNode draw v slid =
     mapR (\<lambda>content. styled ''div'' ''RoundContainer''
         [styled ''div'' ''ClockContainer'' [bare ''span'' []],
          Elem ''div'' [(''class'', ''RoundContentContainer''), (''animation'', if slid then ''slideOut'' else ''slideIn''),
            (''transform'', if slid then ''translateX(0)'' else ''translateX(100%)'')] None [content]])
       (case round_body (rv_data v) of
          Some ButtonBody \<Rightarrow> buttonRound draw (rv_round v) (rv_data v) (rv_isBlue v)
        | _ \<Rightarrow> Inr (bare ''p'' [Txt ''Unknown Round...'']))"

subsection \<open>The screens of a game\<close>

definition barSquare :: "deed node list \<Rightarrow> deed node" where
  "barSquare ns = styled ''div'' ''BarSquare'' ns"

text \<open>\<open>clock\<close> is what the clock has said last, \<open>slid\<close> whether the round slides out (theory Screens).\<close>

definition round_page :: "nat \<Rightarrow> string option \<Rightarrow> bool \<Rightarrow> round_view \<Rightarrow> exn + deed node" where
  "round_page draw clock slid v =
     mapR (\<lambda>r. styled ''div'' ''Screen''
         [styled ''div'' ''Background''
            [styled ''div'' ''Room'' (map (\<lambda>w. styled ''div'' w []) [''BackWall'', ''LeftWall'', ''RightWall'', ''BottomWall'']),
             styled ''div'' ''Table'' [styled ''div'' ''TopTableFace'' []]],
          styled ''div'' ''GameDataContainer''
            [styled ''div'' ''StatusBar''
               [barSquare [bare ''div'' [Txt ''Round''], bare ''div'' [Txt (show_int (rv_round v))]],
                barSquare [bare ''div'' [Txt ''Score''],
                  bare ''div'' [Txt (show_int (rv_score v)), Txt ''/'', Txt (show_int (rv_total v))]]],
             styled ''div'' ''StatusBar''
               [barSquare [Txt ''Time''], barSquare [Txt (case clock of None \<Rightarrow> [] | Some c \<Rightarrow> c)]]],
          r])
       (roundNode draw v slid)"

definition lobbyPlayerLI :: "player \<Rightarrow> deed node" where
  "lobbyPlayerLI p =
     bare ''div'' [bare ''span'' [Txt (playerId p)], Txt '':'', bare ''span'' [Txt (if ready p then ''R'' else ''N'')]]"

lemma lobbyPlayerLI_text: "text_of (lobbyPlayerLI p) = lobby_line p"
  by (simp add: lobbyPlayerLI_def lobby_line_def)

definition redLobbyInstructions :: "deed node" where
  "redLobbyInstructions =
     bare ''div'' [Txt ''Your task is to '', bare ''strong'' [Txt ''listen''], Txt '' to your team-mates instructions '',
       bare ''strong'' [Txt ''and press the correct button''],
       Txt ''. There are multiple rounds, you need to do this for each round.'']"

definition blueLobbyInstructions :: "deed node" where
  "blueLobbyInstructions =
     bare ''div'' [Txt ''Your task is to '', bare ''strong'' [Txt ''find the correct color''],
       Txt '' and communicate it to your team-mate. There will be multiple rounds, you need to do this for each round.'']"

definition instructions_link :: string where
  "instructions_link =
     ''https://docs.google.com/document/d/1gZoliNJS8Oj21dPFiekFg0aboQnWKLgN/edit?usp=sharing&ouid=112740454555108283105&rtpof=true&sd=true''"

definition lobby_page :: "string \<Rightarrow> game_data \<Rightarrow> exn + deed node" where
  "lobby_page pid gd =
     bindR (gameLobby pid gd) (\<lambda>v. case v of
       None \<Rightarrow> Inr (bare ''p'' [Txt ''Invalid game state: player missing from game.''])
     | Some v \<Rightarrow> Inr (styled ''div'' ''StoneScreen'' [styled ''div'' ''Center'' [styled ''div'' ''LobbyContainer''
         [bare ''div'' [bare ''h1'' [Txt ''You are '',
            (if lv_isBlue v then Elem ''span'' [(''class'', ''ColorSpan''), (''color'', ''blue'')] None [Txt ''BLUE'']
             else Elem ''span'' [(''class'', ''ColorSpan''), (''color'', ''red'')] None [Txt ''RED'']), Txt ''!'']],
          styled ''div'' ''InstructionsContainer''
            [if lv_isBlue v then blueLobbyInstructions else redLobbyInstructions,
             spacer ''5vh'',
             bare ''div'' [Txt ''For detailed instructions on the game, please click the following '',
               Elem ''a'' [(''href'', instructions_link)] None [bare ''u'' [Txt ''link'']], Txt ''.''],
             spacer ''5vh'',
             bare ''div'' [Txt ''When you're ready, please press the '',
               Elem ''button'' [(''disabled'', [])] None [Txt ''READY''], Txt '' button.'']],
          bare ''div''
            [styled ''div'' ''PlayerContainer'' (map lobbyPlayerLI (gd_players gd)),
             on_click (case toggleReady pid gd of None \<Rightarrow> DoNothing | Some flag \<Rightarrow> DoReady flag) (lv_button v)]]]]))"

definition sol_child :: "solution \<Rightarrow> jsval" where
  "sol_child s = (case s of SNum n \<Rightarrow> JNum n | SSeq ns \<Rightarrow> JArr (map JNum ns))"

definition roundReviewRow :: "nat \<Rightarrow> round_data \<Rightarrow> exn + deed node" where
  "roundReviewRow i r =
     (case review_row i r of (n, ans, sol) \<Rightarrow>
        mapR (\<lambda>ts. bare ''tr'' (map (\<lambda>t. bare ''td'' [Txt t]) ts)) (all_drawn [Inr (show_nat n), child ans, child (sol_child sol)]))"

definition review_page :: "game_data \<Rightarrow> exn + deed node" where
  "review_page gd =
     mapR (\<lambda>rows. styled ''div'' ''Screen'' [styled ''div'' ''Center'' [bare ''div''
         [bare ''div'' [Txt ''Game finished''],
          bare ''div'' [Txt (show_nat (correctLen gd)), Txt ''/'', Txt (show_nat (length (gd_rounds gd))), Txt '' correct''],
          styled ''table'' ''ReviewTable''
            [bare ''thead'' [bare ''tr'' (map (\<lambda>h. bare ''th'' [Txt h]) [''Round'', ''Answer'', ''Correct''])],
             bare ''tbody'' rows]]]])
       (all_drawn (map (\<lambda>(i, r). roundReviewRow i r) (enumerate 0 (gd_rounds gd))))"

definition game_page :: "nat \<Rightarrow> string option \<Rightarrow> bool \<Rightarrow> string \<Rightarrow> screen \<Rightarrow> exn + deed node" where
  "game_page draw clock slid pid s =
     (case s of
        Loading \<Rightarrow> Inr (bare ''p'' [Txt ''Loading''])
      | NotFound \<Rightarrow> Inr (bare ''p'' [Txt ''Game not found''])
      | Lobby gd \<Rightarrow> lobby_page pid gd
      | Review gd \<Rightarrow> review_page gd
      | Playing gd \<Rightarrow> bindR (roundScreen pid gd) (round_page draw clock slid))"

text \<open>\<open>Home\<close>: the button of the form is an input, which has a value and no text.\<close>

definition home_page :: "string \<Rightarrow> deed node" where
  "home_page pid =
     styled ''div'' ''StoneScreen'' [styled ''div'' ''Center'' [styled ''form'' ''Form''
       [bare ''label'' [bare ''h2'' [Txt ''Enter your player ID:'']],
        Elem ''input'' [(''class'', ''Input''), (''name'', ''id''), (''type'', ''text''), (''value'', pid)] None [],
        Elem ''input'' [(''class'', ''Input''), (''type'', ''submit''), (''value'', ''Submit'')] (Some DoSubmit) []]]]"

text \<open>
  \<open>TestScreen\<close>: the selector and the component selected. The functions the components are given there do
  nothing; what a click would have asked for is still what they are called with.
\<close>

fun test_name :: "test_component \<Rightarrow> string" where
  "test_name (TestLobby _ _) = ''GameLobby''"
| "test_name (TestRound _ _) = ''RoundScreen''"
| "test_name (TestButton _ _ _) = ''ButtonRound''"

fun draw_component :: "nat \<Rightarrow> string option \<Rightarrow> bool \<Rightarrow> test_component \<Rightarrow> exn + deed node" where
  "draw_component draw clock slid (TestLobby pid gd) = lobby_page pid gd"
| "draw_component draw clock slid (TestRound pid gd) = bindR (roundScreen pid gd) (round_page draw clock slid)"
| "draw_component draw clock slid (TestButton isBlue round rd) = buttonRound draw round rd isBlue"

definition test_page :: "nat \<Rightarrow> string option \<Rightarrow> bool \<Rightarrow> test_screen \<Rightarrow> exn + deed node list" where
  "test_page draw clock slid t =
     bindR (testComponent t) (\<lambda>c. mapR (\<lambda>n.
       [styled ''div'' ''SelectorContainer''
          [Elem ''div'' ((''class'', ''ComponentSelector'') # (if showSelector t then [] else [(''display'', ''none'')])) None
             [Elem ''select'' [(''value'', case componentIndx t of None \<Rightarrow> ''NaN'' | Some i \<Rightarrow> show_int i), (''name'', ''component'')] None
                (map (\<lambda>(i, x). Elem ''option'' [(''value'', show_nat i)] None [Txt (test_name x)]) (enumerate 0 test_components))],
           Elem ''button'' [(''class'', ''ShowSelectorButton'')] (Some DoToggle) [Txt ''Components'']],
        n]) (draw_component draw clock slid c))"

subsection \<open>What can be clicked\<close>

text \<open>What rounds have to be for their pages: a question, the three colours, a solution among them.\<close>

definition showable :: "game_data \<Rightarrow> bool" where
  "showable gd \<longleftrightarrow> length (gd_rounds gd) \<le> 20 \<and>
     (\<forall>r \<in> set (gd_rounds gd). rd_name r = Button \<and> rd_options r = Some [0, 1, 2]
        \<and> (\<exists>sol. rd_solution r = SNum sol \<and> 0 \<le> sol \<and> sol < 3))"

definition color_text :: "int \<Rightarrow> string" where
  "color_text option = toUpperCase (colorMap ! nat option)"

lemma color_texts: "color_text 0 = ''RED''" "color_text 1 = ''BLUE''" "color_text 2 = ''GREEN''"
  by code_simp+

lemma bombButton_drawn:
  assumes "0 \<le> i" "i < 3"
  shows "bombButton act i c = Inr (Elem ''button'' [(''class'', c), (''color'', colorMap ! nat i)] (Some act) [Txt (color_text i)])"
  using assms by (simp add: bombButton_def button_color_def js_nth_def colorMap_def color_text_def)

text \<open>The round of the red player: a button of each colour, which sends the answer of its index.\<close>

definition red_clicks :: "int \<Rightarrow> (string \<times> deed) list" where
  "red_clicks k = map (\<lambda>j. (color_text j, DoAnswer \<lparr>a_round = k, a_value = Some (JNum j)\<rparr>)) [0, 1, 2]"

lemma red_round:
  assumes "rd_options rd = Some [0, 1, 2]"
  shows "\<exists>n. buttonRound draw k rd False = Inr n \<and> clicks n = red_clicks k"
  using assms by (simp add: buttonRound_def bombButton_drawn red_clicks_def spacer_def)

text \<open>The round of the blue player: each label beside the button of its index, which does nothing.\<close>

lemma blue_round:
  assumes "getEquation draw k rd = Some q" "good_equation q" "rd_solution rd = SNum sol" "0 \<le> sol" "sol < 3"
  shows "\<exists>opts n. shown_options q sol = Some opts \<and> mset opts = mset (options q)
    \<and> (\<forall>j < 3. opts ! j = eq_answer q \<longleftrightarrow> int j = sol)
    \<and> buttonRound draw k rd True = Inr n \<and> clicks n = map (\<lambda>j. (color_text j, DoNothing)) [0, 1, 2]
    \<and> map text_of (of_class ''ButtonSolutionDiv'' n) = map (\<lambda>j. opts ! j @ color_text (int j)) [0, 1, 2]"
proof -
  obtain opts where o: "shown_options q sol = Some opts" "mset opts = mset (options q)"
    "\<forall>j < 3. opts ! j = eq_answer q \<longleftrightarrow> int j = sol"
    using shown_options_right [OF assms(2,4,5)] by blast
  have "length opts = 3" using mset_eq_length [OF o(2)] assms(2) by (simp add: good_equation_def)
  then obtain a b c where abc: "opts = [a, b, c]" by (auto simp: length_Suc_conv numeral_3_eq_3)
  have "shown_labels q (rd_solution rd) = map Some opts" using shown_labels_options [OF o(1)] assms(3) by simp
  then show ?thesis using o assms(1)
    by (simp add: buttonRound_def eqInstructions_def abc buttonSolution_def bombButton_drawn spacer_def)
qed

lemma playing_page:
  assumes "showable gd" "gd_currentRound gd = Some k" "js_nth (gd_rounds gd) k = Some rd" "gd_players gd = b # ps"
  shows "\<exists>n. game_page draw clock slid pid (Playing gd) = Inr n
    \<and> clicks n = (if pid = playerId b then map (\<lambda>j. (color_text j, DoNothing)) [0, 1, 2] else red_clicks k)"
proof -
  have k: "0 \<le> k" "nat k < length (gd_rounds gd)" "rd = gd_rounds gd ! nat k"
    using assms(3) by (auto simp: js_nth_Some_iff)
  then have "rd \<in> set (gd_rounds gd)" by simp
  then obtain sol where rd: "rd_name rd = Button" "rd_options rd = Some [0, 1, 2]" "rd_solution rd = SNum sol" "0 \<le> sol" "sol < 3"
    using assms(1) by (auto simp: showable_def)
  have "nat k < length equations" using k assms(1) by (simp add: showable_def)
  then have q: "getEquation draw k rd = Some (equations ! nat k)" "good_equation (equations ! nat k)"
    using k(1) rd(1) equations_good(1) by (simp_all add: getEquation_def js_nth_def)
  have body: "round_body rd = Some ButtonBody" by (simp add: round_body_def switch_child_def rd(1))
  define content where "content = buttonRound draw k rd (pid = playerId b)"
  obtain n where n: "content = Inr n"
    "clicks n = (if pid = playerId b then map (\<lambda>j. (color_text j, DoNothing)) [0, 1, 2] else red_clicks k)"
    using blue_round [OF q rd(3,4,5)] red_round [OF rd(2), of draw k] unfolding content_def
    by (cases "pid = playerId b") auto
  show ?thesis using n unfolding content_def
    by (simp add: game_page_def roundScreen_def assms(2,3,4) round_page_def roundNode_def body barSquare_def)
qed

lemma lobbyPlayerLI_clicks [simp]: "clicks (lobbyPlayerLI p) = []"
  by (simp add: lobbyPlayerLI_def)

lemma no_clicks [simp]: "concat (map (\<lambda>x. []) xs) = []"
  by (induction xs) simp_all

lemma lobby_page_drawn:
  assumes "gameLobby pid gd = Inr (Some v)" "toggleReady pid gd = Some flag"
  shows "\<exists>n. game_page draw clock slid pid (Lobby gd) = Inr n \<and> clicks n = [(lv_button v, DoReady flag)]"
  using assms
  by (simp add: game_page_def lobby_page_def spacer_def blueLobbyInstructions_def redLobbyInstructions_def comp_def)

lemma toggleReady_player: "p \<in> set (gd_players gd) \<Longrightarrow> \<exists>flag. toggleReady (playerId p) gd = Some flag"
  by (auto simp: toggleReady_def find_None_iff simp flip: not_None_eq)

text \<open>The review can be drawn when no answer is an object or a list with an object in it.\<close>

definition plain_answers :: "game_data \<Rightarrow> bool" where
  "plain_answers gd \<longleftrightarrow> (\<forall>r \<in> set (gd_rounds gd). \<forall>a. rd_answer r = Some a \<longrightarrow> \<not> has_object a)"

lemma sol_child_drawn: "\<exists>t. child (sol_child s) = Inr t"
proof (cases s)
  case (SSeq ns)
  have "\<exists>t. fold (\<lambda>v acc. bindR acc (\<lambda>s. mapR (\<lambda>t. s @ t) (child v))) (map JNum ns) (Inr t0) = Inr t" for t0
    by (induction ns arbitrary: t0) simp_all
  then show ?thesis by (simp add: sol_child_def SSeq)
qed (simp add: sol_child_def)

lemma row_drawn:
  assumes "\<forall>a. rd_answer r = Some a \<longrightarrow> (\<exists>t. child a = Inr t)"
  shows "\<exists>n. roundReviewRow i r = Inr n \<and> clicks n = []"
  using assms sol_child_drawn [of "rd_solution r"]
  by (cases "rd_answer r") (auto simp: roundReviewRow_def review_row_def)

lemma all_drawn_ex:
  "(\<And>x. x \<in> set xs \<Longrightarrow> \<exists>n. f x = Inr n \<and> P n) \<Longrightarrow> \<exists>ns. all_drawn (map f xs) = Inr ns \<and> length ns = length xs \<and> list_all P ns"
  by (induction xs) fastforce+

lemma review_page_drawn:
  assumes "plain_answers gd"
  shows "\<exists>n. game_page draw clock slid pid (Review gd) = Inr n \<and> clicks n = []"
proof -
  have "\<exists>n. (\<lambda>(i, r). roundReviewRow i r) x = Inr n \<and> clicks n = []" if "x \<in> set (enumerate 0 (gd_rounds gd))" for x
  proof -
    obtain i r where x: "x = (i, r)" by (cases x)
    then have "r \<in> set (gd_rounds gd)" using that by (auto simp: in_set_enumerate_eq)
    then show ?thesis using row_drawn [of r i] assms by (auto simp: x plain_answers_def child_drawn_iff)
  qed
  from all_drawn_ex [of "enumerate 0 (gd_rounds gd)" "\<lambda>(i, r). roundReviewRow i r" "\<lambda>n. clicks n = []", OF this]
  obtain ns where "all_drawn (map (\<lambda>(i, r). roundReviewRow i r) (enumerate 0 (gd_rounds gd))) = Inr ns" "list_all (\<lambda>n. clicks n = []) ns"
    by blast
  moreover from this(2) have "concat (map clicks ns) = []" by (induction ns) simp_all
  ultimately show ?thesis by (simp add: game_page_def review_page_def comp_def)
qed

text \<open>One answer with an object in it, and the review cannot be drawn for anybody.\<close>

lemma all_drawn_each: "all_drawn xs = Inr ns \<Longrightarrow> x \<in> set xs \<Longrightarrow> \<exists>n. x = Inr n"
  by (induction xs arbitrary: ns) (auto simp: bindR_eq_Inr_iff mapR_eq_Inr_iff)

lemma row_raises:
  assumes "roundReviewRow i r = Inr n" "rd_answer r = Some a"
  shows "\<not> has_object a"
  using assms child_drawn_iff [of a] by (auto simp: roundReviewRow_def review_row_def bindR_eq_Inr_iff mapR_eq_Inr_iff)

lemma review_page_raises:
  assumes "game_page draw clock slid pid (Review gd) = Inr n"
  shows "plain_answers gd"
  unfolding plain_answers_def
proof (intro ballI allI impI)
  fix r a assume r: "r \<in> set (gd_rounds gd)" "rd_answer r = Some a"
  obtain ns where rows: "all_drawn (map (\<lambda>(i, r). roundReviewRow i r) (enumerate 0 (gd_rounds gd))) = Inr ns"
    using assms by (auto simp: game_page_def review_page_def mapR_eq_Inr_iff)
  obtain i where "i < length (gd_rounds gd)" "gd_rounds gd ! i = r" using r(1) by (auto simp: in_set_conv_nth)
  then have "(i, r) \<in> set (enumerate 0 (gd_rounds gd))" by (simp add: in_set_enumerate_eq)
  then have "roundReviewRow i r \<in> set (map (\<lambda>(i, r). roundReviewRow i r) (enumerate 0 (gd_rounds gd)))" by force
  from all_drawn_each [OF rows this] row_raises r(2) show "\<not> has_object a" by blast
qed

subsection \<open>What the red player's page says of the solutions\<close>

definition hide_solution :: "round_data \<Rightarrow> round_data" where
  "hide_solution r = (if rd_answer r = None then r\<lparr>rd_solution := SNum 0\<rparr> else r)"

definition hide_solutions :: "game_data \<Rightarrow> game_data" where
  "hide_solutions gd = gd\<lparr>gd_rounds := map hide_solution (gd_rounds gd)\<rparr>"

lemma hide_solutions_frame [simp]:
  "gd_players (hide_solutions gd) = gd_players gd" "gd_currentRound (hide_solutions gd) = gd_currentRound gd"
  "gd_startTime (hide_solutions gd) = gd_startTime gd" "gd_endTime (hide_solutions gd) = gd_endTime gd"
  "gd_rounds (hide_solutions gd) = map hide_solution (gd_rounds gd)"
  by (simp_all add: hide_solutions_def)

lemma hide_solution_simps [simp]:
  "rd_name (hide_solution r) = rd_name r" "rd_options (hide_solution r) = rd_options r"
  "rd_answer (hide_solution r) = rd_answer r" "answer_correct (hide_solution r) = answer_correct r"
  by (auto simp: hide_solution_def answer_correct_def split: option.splits solution.splits)

lemma hide_scores [simp]: "score (hide_solutions gd) = score gd" "total (hide_solutions gd) = total gd"
  by (simp_all add: score_def total_def comp_def)

lemma red_round_hides: "buttonRound draw k (hide_solution rd) False = buttonRound draw k rd False"
  by (simp add: buttonRound_def)

lemma round_page_hides:
  assumes "\<not> rv_isBlue v"
  shows "round_page draw clock slid (v\<lparr>rv_data := hide_solution (rv_data v)\<rparr>) = round_page draw clock slid v"
proof -
  have "round_body (hide_solution (rv_data v)) = round_body (rv_data v)" by (simp add: round_body_def)
  then have "roundNode draw (v\<lparr>rv_data := hide_solution (rv_data v)\<rparr>) slid = roundNode draw v slid"
    using assms by (cases "round_body (rv_data v)"; cases "the (round_body (rv_data v))")
      (simp_all add: roundNode_def red_round_hides)
  then show ?thesis by (simp add: round_page_def)
qed

lemma playing_hides:
  assumes "gd_players gd = b # ps" "pid \<noteq> playerId b"
  shows "game_page draw clock slid pid (Playing (hide_solutions gd)) = game_page draw clock slid pid (Playing gd)"
proof (cases "roundScreen pid gd")
  case (Inl e)
  then have "\<exists>e. roundScreen pid (hide_solutions gd) = Inl e"
    by (auto simp: roundScreen_def js_nth_def split: option.splits list.splits if_splits)
  moreover have "e = TypeError" using Inl by (auto simp: roundScreen_def split: option.splits list.splits)
  moreover have "roundScreen pid (hide_solutions gd) = Inl e' \<Longrightarrow> e' = TypeError" for e'
    by (auto simp: roundScreen_def split: option.splits list.splits)
  ultimately show ?thesis using Inl by (auto simp: game_page_def)
next
  case (Inr v)
  then have v: "\<not> rv_isBlue v" using assms
    by (auto simp: roundScreen_def split: option.splits)
  have "roundScreen pid (hide_solutions gd) = Inr (v\<lparr>rv_data := hide_solution (rv_data v)\<rparr>)"
    using Inr by (auto simp: roundScreen_def js_nth_def split: option.splits list.splits if_splits)
  then show ?thesis using Inr round_page_hides [OF v] by (simp add: game_page_def)
qed

lemma lobby_hides: "game_page draw clock slid pid (Lobby (hide_solutions gd)) = game_page draw clock slid pid (Lobby gd)"
proof -
  have "gameLobby pid (hide_solutions gd) = gameLobby pid gd" "toggleReady pid (hide_solutions gd) = toggleReady pid gd"
    unfolding gameLobby_def toggleReady_def hide_solutions_frame by (rule refl)+
  then show ?thesis unfolding game_page_def lobby_page_def screen.case hide_solutions_frame by (simp only:)
qed

subsection \<open>The pages with nothing behind them\<close>

lemma home_page_clicks: "clicks (home_page pid) = [([], DoSubmit)]"
  by (simp add: home_page_def)

text \<open>
  Every component of the selector is drawn. The sample game has the player \<open>red\<close> first, so that the round of
  \<open>red\<close> is drawn as blue's, and the lobby of \<open>blue\<close> calls the player red.
\<close>

lemma test_components_pages:
  assumes "componentIndx t = Some i" "0 \<le> i" "i < 3"
  shows "\<exists>c n. test_page draw clock slid t = Inr [c, n] \<and> clicks c = [(''Components'', DoToggle)]
    \<and> clicks n = (if i = 0 then [(''Unready'', DoReady False)]
        else if i = 1 then map (\<lambda>j. (color_text j, DoNothing)) [0, 1, 2] else red_clicks 1)"
proof -
  note sample = sampleGameData_def sample_round_def test_components_def js_nth_def gameLobby_def roundScreen_def
  have rd: "getEquation draw 0 sample_round = Some (equations ! 0)" "good_equation (equations ! 0)"
    using equations_good(1) by (simp_all add: getEquation_def js_nth_def sample_round_def equations_def)
  consider "i = 0" | "i = 1" | "i = 2" using assms by linarith
  then show ?thesis
  proof cases
    case 1
    then show ?thesis
      by (simp add: test_page_def testComponent_def assms(1) sample lobby_page_def toggleReady_def is_blue_def spacer_def
          redLobbyInstructions_def)
  next
    case 2
    obtain n where n: "buttonRound draw 0 sample_round True = Inr n" "clicks n = map (\<lambda>j. (color_text j, DoNothing)) [0, 1, 2]"
      using blue_round [OF rd, of 1] by (auto simp: sample_round_def)
    have "round_body sample_round = Some ButtonBody" by (simp add: round_body_def switch_child_def sample_round_def)
    then show ?thesis using 2 n
      by (simp add: test_page_def testComponent_def assms(1) test_components_def js_nth_def roundScreen_def
          sampleGameData_def round_page_def roundNode_def barSquare_def)
  next
    case 3
    have "rd_options (sample_round\<lparr>rd_name := Button\<rparr>) = Some [0, 1, 2]" by (simp add: sample_round_def)
    from red_round [OF this, of draw 1] 3 show ?thesis
      by (auto simp: test_page_def testComponent_def assms(1) test_components_def js_nth_def)
  qed
qed

end
