(* ===== verification/AdminPages.thy ===== *)
theory AdminPages
  imports Markup ErrorBar Screens
begin

text \<open>
  The pages of the administration client (\<open>admin/src/ts/components\<close>) from the state of their components
  (theories AdminClient and ErrorBar): what is on them and what a click does; then the way from the
  server's table of sessions to the list of sessions, and from a row of it to the screen of the session.
\<close>

text \<open>A click goes to a hash with parameters, or asks the server for something.\<close>

datatype admin_deed = GoTo string jsval | AskCreate | AskDelete "jsval option"

type_synonym drawn = "admin_deed node list"

definition loading_page :: "admin_deed node" where
  "loading_page = bare ''div'' [Txt ''Loading...'']"

subsection \<open>The route\<close>

text \<open>The administrator's \<open>Router\<close> reads the hash as the players' does (theory Screens).\<close>

definition admin_parseParamString :: "(string \<Rightarrow> string) \<Rightarrow> (string \<Rightarrow> exn + jsval) \<Rightarrow> string option \<Rightarrow> exn + jsval" where
  "admin_parseParamString decodeURI parse paramString =
     (case paramString of None \<Rightarrow> Inr (JObj []) | Some s \<Rightarrow> parse (decodeURI s))"

record route_state =
  route_name :: string
  route_params :: jsval

definition route_init :: route_state where
  "route_init = \<lparr>route_name = ''#home'', route_params = JUndef\<rparr>"

definition admin_onHashChange ::
  "(string \<Rightarrow> string) \<Rightarrow> (string \<Rightarrow> exn + jsval) \<Rightarrow> string \<Rightarrow> route_state \<Rightarrow> exn + route_state" where
  "admin_onHashChange decodeURI parse hash r =
     (let parts = split_on CHR ''?'' hash
      in mapR (\<lambda>params. r\<lparr>route_name := hd parts, route_params := params\<rparr>)
           (admin_parseParamString decodeURI parse (js_nth parts 1)))"

definition shown_route :: "route_state \<Rightarrow> admin_route" where
  "shown_route r = admin_router (route_name r, route_params r)"

lemma admin_hash_same:
  "mapR shown_route (admin_onHashChange dec parse hash r) = mapR admin_router (onHashChange dec parse hash)"
  by (simp add: admin_onHashChange_def onHashChange_def admin_parseParamString_def parseParamString_def shown_route_def mapR_def Let_def
      split: sum.split option.split)

subsection \<open>The list of sessions\<close>

definition sessionListRow :: "jsval \<Rightarrow> exn + admin_deed node" where
  "sessionListRow s =
     (if nullish s then Inl TypeError
      else mapR (\<lambda>ts. Elem ''tr'' [] (Some (GoTo ''#session'' (JObj [(''sessionId'', fld s ''sessionId'')])))
                  (map (\<lambda>t. bare ''td'' [Txt t]) ts))
        (all_drawn (map (\<lambda>k. child (fld s k)) [''sessionId'', ''blueParticipant'', ''redParticipant'', ''murmurPort'', ''grpcPort''])))"

fun js_length :: "jsval \<Rightarrow> jsval" where
  "js_length (JArr xs) = JNum (int (length xs))"
| "js_length (JStr s) = JNum (int (length s))"
| "js_length v = fld v ''length''"

definition sessionList :: "jsval \<Rightarrow> bool \<Rightarrow> exn + admin_deed node" where
  "sessionList sessions isLoading =
     (if isLoading then Inr loading_page
      else if nullish sessions then Inl TypeError
      else if js_length sessions = JNum 0 then Inr (bare ''div'' [Txt ''No sessions''])
      else case sessions of
             JArr xs \<Rightarrow>
               mapR (\<lambda>rows. styled ''table'' ''Gtable''
                   [styled ''thead'' ''Gthead'' [bare ''tr'' (map (\<lambda>h. bare ''th'' [Txt h])
                      [''Session Id'', ''Blue Participant'', ''Red Participant'', ''Murmur Port'', ''GRPC Port''])],
                    bare ''tbody'' rows])
                 (all_drawn (map sessionListRow xs))
           | _ \<Rightarrow> Inl TypeError)"

definition home_screen_page :: "home_screen \<Rightarrow> exn + drawn" where
  "home_screen_page h =
     mapR (\<lambda>n. [bare ''div'' [on_click (GoTo ''#create_pair'' (JObj [])) ''Create Session'', n]])
       (sessionList (hs_sessions h) (hs_loading h))"

subsection \<open>The screen of a session\<close>

definition recordingLI :: "jsval \<Rightarrow> exn + admin_deed node" where
  "recordingLI rec =
     (if nullish rec then Inl TypeError
      else mapR (\<lambda>t. bare ''div'' [bare ''div'' [Txt t],
                   bare ''div'' [bare ''button'' [Txt ''play/pause''], bare ''span'' [Txt (show_int 0)]]])
        (child (fld rec ''name'')))"

definition recordingList :: "jsval \<Rightarrow> exn + admin_deed node" where
  "recordingList recordings =
     (case recordings of JArr rs \<Rightarrow> mapR (bare ''ul'') (all_drawn (map recordingLI rs)) | _ \<Rightarrow> Inl TypeError)"

definition session_page :: "session_screen \<Rightarrow> exn + drawn" where
  "session_page m =
     (case view_session m of
        ViewLoading \<Rightarrow> Inr [loading_page]
      | ViewNotFound \<Rightarrow> Inr [Txt ''Session not found'']
      | ViewSession session recordings \<Rightarrow>
          if session = JNull then Inl TypeError
          else bindR (child (fld session ''blueParticipant'')) (\<lambda>blue.
               bindR (child (fld session ''redParticipant'')) (\<lambda>red.
               mapR (\<lambda>list.
                 [styled ''div'' ''PlayerContainer''
                    [bare ''div'' [Txt ''Blue: '', Txt blue], bare ''div'' [Txt ''Red: '', Txt red]],
                  list,
                  on_click (AskDelete (onDelete m)) ''Delete session'']) (recordingList recordings))))"

subsection \<open>The form, the status bar, the application\<close>

definition port_value :: "int option \<Rightarrow> (string \<times> string) list" where
  "port_value v = (case v of None \<Rightarrow> [] | Some n \<Rightarrow> [(''value'', show_int n)])"

definition form_row :: "string \<Rightarrow> string \<Rightarrow> string \<Rightarrow> (string \<times> string) list \<Rightarrow> admin_deed node" where
  "form_row name title type val =
     bare ''div'' [Elem ''label'' [(''for'', name)] None [Txt title],
       Elem ''input'' (val @ [(''name'', name), (''type'', type)]) None []]"

definition form_page :: "form \<Rightarrow> drawn" where
  "form_page f =
     [bare ''div''
       [bare ''h1'' [Txt ''Create Session''],
        bare ''div'' [on_click (GoTo ''#home'' (JObj [])) ''Cancel''],
        bare ''div'' [Txt (f_error f)],
        bare ''div''
          [form_row ''grpc'' ''GRPC Port'' ''number'' (port_value (f_grpcPort f)),
           form_row ''murmur'' ''MurmurPort'' ''number'' (port_value (f_murmurPort f)),
           form_row ''blue'' ''Blue Participant'' ''text'' [(''value'', f_blue f)],
           form_row ''red'' ''Red participant'' ''text'' [(''value'', f_red f)],
           on_click AskCreate ''Create'']]]"

definition status_page :: "status_bar \<Rightarrow> admin_deed node" where
  "status_page b = bare ''div'' [bare ''div'' [Txt (warning b)]]"

text \<open>\<open>App\<close>: the bar above the screen of the route.\<close>

definition admin_page :: "status_bar \<Rightarrow> admin_route \<Rightarrow> home_screen \<Rightarrow> session_screen \<Rightarrow> form \<Rightarrow> exn + admin_deed node" where
  "admin_page b r h m f =
     mapR (\<lambda>ns. bare ''div'' (status_page b # ns))
       (case r of
          CreatePairRoute \<Rightarrow> Inr (form_page f)
        | SessionRoute _ \<Rightarrow> session_page m
        | AdminHome \<Rightarrow> home_screen_page h)"

subsection \<open>From the server's sessions to the list\<close>

definition session_texts :: "session \<Rightarrow> string list" where
  "session_texts s =
     [show_int (sessionId s), blueParticipant s, redParticipant s, show_int (murmurPort s), show_int (grpcPort s)]"

definition row_click :: "session \<Rightarrow> string \<times> admin_deed" where
  "row_click s = (concat (session_texts s), GoTo ''#session'' (JObj [(''sessionId'', JNum (sessionId s))]))"

lemma sessions_arrive: "getSessions_ack (wire (ack_args extra (AckSessions sk ss))) = Inr (JArr (map session_obj ss))"
proof -
  have "jclone_list (map session_obj ss) = map session_obj ss"
    by (rule jclone_pure(2)) (simp add: session_obj_def list_all_iff)
  then show ?thesis by (simp add: wire_def ack_defs param_def)
qed

lemma sessionListRow_session:
  "sessionListRow (session_obj s) =
     Inr (Elem ''tr'' [] (Some (snd (row_click s))) (map (\<lambda>t. bare ''td'' [Txt t]) (session_texts s)))"
  by (simp add: sessionListRow_def session_obj_def row_click_def session_texts_def)

lemma row_click_pair: "(concat (session_texts s), snd (row_click s)) = row_click s"
  by (simp add: row_click_def)

lemma sessionList_drawn:
  "\<exists>n. sessionList (JArr (map session_obj ss)) False = Inr n \<and> clicks n = map row_click ss
    \<and> map (map text_of) (map (of_tag ''td'') (tl (of_tag ''tr'' n))) = map session_texts ss"
proof (cases "ss = []")
  case True
  then show ?thesis by (simp add: sessionList_def)
next
  case False
  have rows: "all_drawn (map (\<lambda>x. sessionListRow (session_obj x)) ss)
      = Inr (map (\<lambda>s. Elem ''tr'' [] (Some (snd (row_click s))) (map (\<lambda>t. bare ''td'' [Txt t]) (session_texts s))) ss)"
    unfolding sessionListRow_session by (rule all_drawn_Inr)
  have cl: "concat (map (clicks \<circ> (\<lambda>s. Elem ''tr'' [] (Some (snd (row_click s)))
      (map (\<lambda>t. bare ''td'' [Txt t]) (session_texts s)))) ss) = map row_click ss"
    by (induction ss) (simp_all add: row_click_pair comp_def)
  have tr: "concat (map (of_tag ''tr'' \<circ> (\<lambda>s. Elem ''tr'' [] (Some (snd (row_click s)))
      (map (\<lambda>t. bare ''td'' [Txt t]) (session_texts s)))) ss)
    = map (\<lambda>s. Elem ''tr'' [] (Some (snd (row_click s))) (map (\<lambda>t. bare ''td'' [Txt t]) (session_texts s))) ss"
    by (induction ss) (simp_all add: session_texts_def)
  show ?thesis using False
    by (simp add: sessionList_def rows cl [unfolded comp_def] tr [unfolded comp_def] comp_def) (simp add: session_texts_def row_click_def)
qed

lemma get_sessions_sends:
  "db_works (sw s) \<Longrightarrow>
    sent (admin_get_sessions sk s) = sent s @ [AckSessions sk (t_session (db (sw s)))]"
  by (simp add: admin_get_sessions_def getSessions_def fork_fut_def select_run send_def)

text \<open>The list a home screen shows after its request is the server's table.\<close>

lemma home_lists_sessions:
  assumes "db_works (sw s)"
  shows "\<exists>msg n. sent (admin_get_sessions sk s) = sent s @ [msg]
    \<and> home_screen_page (fetchSessions (getSessions_ack (wire (ack_args extra msg))) h) = Inr [n]
    \<and> clicks n = (''Create Session'', GoTo ''#create_pair'' (JObj [])) # map row_click (t_session (db (sw s)))
    \<and> map (map text_of) (map (of_tag ''td'') (tl (of_tag ''tr'' n))) = map session_texts (t_session (db (sw s)))"
proof -
  obtain n where n: "sessionList (JArr (map session_obj (t_session (db (sw s))))) False = Inr n"
    "clicks n = map row_click (t_session (db (sw s)))"
    "map (map text_of) (map (of_tag ''td'') (tl (of_tag ''tr'' n))) = map session_texts (t_session (db (sw s)))"
    using sessionList_drawn [of "t_session (db (sw s))"] by blast
  let ?msg = "AckSessions sk (t_session (db (sw s)))"
  have page: "home_screen_page (fetchSessions (getSessions_ack (wire (ack_args extra ?msg))) h) =
      Inr [bare ''div'' [on_click (GoTo ''#create_pair'' (JObj [])) ''Create Session'', n]]"
    unfolding sessions_arrive by (simp add: fetchSessions_def home_screen_page_def n(1))
  show ?thesis
    by (intro exI [of _ ?msg] exI conjI, rule get_sessions_sends [OF assms], rule page)
       (simp_all add: n(2) n(3) [simplified])
qed

subsection \<open>From a row to the session\<close>

lemma row_to_session:
  assumes "CHR ''?'' \<notin> set (stringify (JObj [(''sessionId'', JNum sid)]))"
    and "parse (dec (stringify (JObj [(''sessionId'', JNum sid)]))) = Inr (JObj [(''sessionId'', JNum sid)])"
  shows "mapR shown_route (admin_onHashChange dec parse (goto ''#session'' (stringify (JObj [(''sessionId'', JNum sid)]))) r)
    = Inr (SessionRoute (JNum sid))"
proof -
  have "CHR ''?'' \<notin> set ''#session''" by simp
  note read = onHashChange_first(1) [OF this assms(1), of dec parse]
  show ?thesis unfolding admin_hash_same using read assms(2) by (simp add: goto_def admin_router_def mapR_def)
qed

lemma getSessionData_finds:
  assumes "s \<in> set ss" "distinct (map sessionId ss)"
  shows "getSessionData (sessionId s) (wire (ack_args extra (AckSessions sk ss))) = Inr (session_obj s)"
proof -
  have "List.find (\<lambda>x. sessionId x = sessionId s) ss = Some s" using assms by (simp add: find_unique)
  then have "List.find (\<lambda>sess. fld sess ''sessionId'' = JNum (sessionId s)) (map session_obj ss) = Some (session_obj s)"
    by (simp add: find_map session_obj_def)
  then show ?thesis unfolding getSessionData_def sessions_arrive by simp
qed

text \<open>What the request for the recordings ends with: the files, or a rejection.\<close>

definition recordings_res :: "(string \<times> jsval) list \<Rightarrow> message \<Rightarrow> promise" where
  "recordings_res extra msg = getSessionRecordings_ack (wire (ack_args extra msg))"

lemma recordings_arrive:
  "recordings_res extra (AckRecordings sk rs) = Inr (JArr (map rec_obj rs))"
  "\<exists>v. recordings_res extra (AckError sk e) = Inl v"
proof -
  have "jclone_list (map rec_obj rs) = map rec_obj rs"
    by (rule jclone_pure(2)) (simp add: rec_obj_def list_all_iff)
  then show "recordings_res extra (AckRecordings sk rs) = Inr (JArr (map rec_obj rs))"
    by (simp add: recordings_res_def wire_def ack_defs param_def)
  obtain kvs where "err_obj extra e = JObj kvs" using err_obj_obj by blast
  then show "\<exists>v. recordings_res extra (AckError sk e) = Inl v"
    by (simp add: recordings_res_def wire_def ack_defs param_def)
qed

lemma recordingList_drawn:
  "\<exists>n. recordingList (JArr (map rec_obj rs)) = Inr n \<and> clicks n = [] \<and> text_of n = concat (map (\<lambda>r. fst r @ ''play/pause0'') rs)"
proof -
  have li: "recordingLI (rec_obj r) = Inr (bare ''div'' [bare ''div'' [Txt (fst r)],
      bare ''div'' [bare ''button'' [Txt ''play/pause''], bare ''span'' [Txt (show_int 0)]]])" for r
    by (simp add: recordingLI_def rec_obj_def)
  have zero: "show_int 0 = ''0''" by code_simp
  show ?thesis by (simp add: recordingList_def comp_def li zero)
qed

text \<open>The screen once both answers have come, the second of them before or after the first.\<close>

lemma session_page_drawn:
  assumes "s \<in> set ss" "distinct (map sessionId ss)"
    and "data = getSessionData (sessionId s) (wire (ack_args extra (AckSessions sk ss)))"
    and "msg = AckRecordings sk rs \<or> rs = [] \<and> msg = AckError sk e"
    and "m = populateRecordings 0 (recordings_res extra' msg) (populateSessionData 0 data (screen_mount (sessionId s)))
      \<or> m = populateSessionData 0 data (populateRecordings 0 (recordings_res extra' msg) (screen_mount (sessionId s)))"
  shows "\<exists>c list b. session_page m = Inr [c, list, b] \<and> clicks c = [] \<and> clicks list = []
    \<and> text_of c = ''Blue: '' @ blueParticipant s @ ''Red: '' @ redParticipant s
    \<and> text_of list = concat (map (\<lambda>r. fst r @ ''play/pause0'') rs)
    \<and> clicks b = [(''Delete session'', AskDelete (Some (JNum (sessionId s))))]"
proof -
  have st: "scr_state m = \<lparr>ss_session = session_obj s, ss_loading = False, ss_recordings = JArr (map rec_obj rs)\<rparr>"
    using assms(4,5) recordings_arrive(1) [of extra' sk rs] recordings_arrive(2) [of extra' sk e]
    unfolding assms(3) getSessionData_finds [OF assms(1,2)]
    by (auto simp: populateRecordings_def populateSessionData_def screen_mount_def new_run_def)
  obtain n where n: "recordingList (JArr (map rec_obj rs)) = Inr n" "clicks n = []"
    "text_of n = concat (map (\<lambda>r. fst r @ ''play/pause0'') rs)" using recordingList_drawn by blast
  show ?thesis using n
    by (simp add: session_page_def view_session_def st onDelete_def session_obj_def)
qed

end
