(* ===== verification/Statements.thy ===== *)
theory Statements
  imports Sessions
begin

text \<open>
  The functions \<open>lib/db.ts\<close> gives the code that accesses the database: \<open>run\<close>, \<open>all\<close>, \<open>exec\<close> and
  \<open>serialize\<close> on a connection of its own, and the transaction of \<open>setCurrentGame\<close> statement by statement.
  The database engine is a parameter; what its documentation promises of transactions is the locale
  \<open>sql_engine\<close>, and \<open>lite\<close>, an engine in which any use may fail, keeps that promise.
\<close>

subsection \<open>The engine\<close>

datatype sql = Begin | Commit | Change string "int stmt"   \<comment> \<open>the text, and what it does to the tables\<close>

fun sql_text :: "sql \<Rightarrow> string" where
  "sql_text Begin = ''BEGIN TRANSACTION''"
| "sql_text Commit = ''COMMIT''"
| "sql_text (Change q _) = q"

text \<open>
  Opening gives an error or the number of a new connection; a statement gives an error or the id of the
  last row; a query an error or the tables it sees; closing perhaps an error.
\<close>

record 'st engine =
  open_conn :: "'st \<Rightarrow> (string + nat) \<times> 'st"
  does :: "nat \<Rightarrow> sql \<Rightarrow> 'st \<Rightarrow> (string + int) \<times> 'st"
  sees :: "nat \<Rightarrow> 'st \<Rightarrow> (string + db) \<times> 'st"
  close_conn :: "nat \<Rightarrow> 'st \<Rightarrow> string option \<times> 'st"

text \<open>
  \<open>tables\<close> is what is committed, \<open>writer\<close> who holds the write lock and the tables as this connection has
  made them, \<open>in_tx\<close> says which connections are in a transaction. A statement outside of a transaction is
  committed at once; a transaction takes the lock with its first write and keeps it until it commits, is
  rolled back or its connection is closed, and meanwhile whoever else writes is refused. A statement that
  fails changes nothing that is committed. After most failures an open transaction stays open; after some,
  a full disk or no memory among them, the engine may roll it back by itself.
\<close>

definition released :: "nat \<Rightarrow> (nat \<times> db) option \<Rightarrow> (nat \<times> db) option" where
  "released c w = (case w of Some (c', d) \<Rightarrow> if c' = c then None else w | None \<Rightarrow> None)"

lemma released_simps [simp]: "released c None = None" "released c (Some (c', d)) = (if c' = c then None else Some (c', d))"
  by (simp_all add: released_def)

locale sql_engine =
  fixes E :: "'st engine" and tables :: "'st \<Rightarrow> db" and writer :: "'st \<Rightarrow> (nat \<times> db) option" and in_tx :: "'st \<Rightarrow> nat \<Rightarrow> bool"
    and sound :: "'st \<Rightarrow> bool"
  assumes opens: "sound s \<Longrightarrow> open_conn E s = (opened, s') \<Longrightarrow>
      sound s' \<and> tables s' = tables s \<and> writer s' = writer s \<and> in_tx s' = in_tx s \<and> (\<forall>c. opened = Inr c \<longrightarrow> \<not> in_tx s c)"
    and fails: "sound s \<Longrightarrow> does E c q s = (Inl m, s') \<Longrightarrow>
      sound s' \<and> tables s' = tables s
      \<and> (writer s' = writer s \<and> in_tx s' = in_tx s \<or> writer s' = released c (writer s) \<and> in_tx s' = (in_tx s)(c := False))"
    and begins: "sound s \<Longrightarrow> does E c Begin s = (Inr n, s') \<Longrightarrow>
      sound s' \<and> n = 0 \<and> tables s' = tables s \<and> writer s' = writer s \<and> in_tx s' = (in_tx s)(c := True)"
    and changes: "sound s \<Longrightarrow> does E c (Change str f) s = (Inr n, s') \<Longrightarrow>
      sound s' \<and> in_tx s' = in_tx s
      \<and> (\<exists>d0 d. f d0 = Inr (n, d)
           \<and> (case writer s of None \<Rightarrow> d0 = tables s | Some (c', d') \<Rightarrow> c' = c \<and> d0 = d')
           \<and> (if in_tx s c then tables s' = tables s \<and> writer s' = Some (c, d) else tables s' = d \<and> writer s' = writer s))"
    and commits: "sound s \<Longrightarrow> does E c Commit s = (Inr n, s') \<Longrightarrow>
      sound s' \<and> n = 0 \<and> in_tx s' = (in_tx s)(c := False)
      \<and> (case writer s of
           None \<Rightarrow> tables s' = tables s \<and> writer s' = None
         | Some (c', d) \<Rightarrow> if c' = c then tables s' = d \<and> writer s' = None else tables s' = tables s \<and> writer s' = writer s)"
    and queries: "sound s \<Longrightarrow> sees E c s = (seen, s') \<Longrightarrow>
      sound s' \<and> tables s' = tables s \<and> writer s' \<in> {writer s, released c (writer s)}
      \<and> (\<forall>c'. c' \<noteq> c \<longrightarrow> in_tx s' c' = in_tx s c')
      \<and> (\<forall>d. seen = Inr d \<longrightarrow> d = (case writer s of Some (c', d') \<Rightarrow> if c' = c then d' else tables s | None \<Rightarrow> tables s))"
    and closes: "sound s \<Longrightarrow> close_conn E c s = (z, s') \<Longrightarrow>
      sound s' \<and> tables s' = tables s \<and> (\<forall>c'. c' \<noteq> c \<longrightarrow> in_tx s' c' = in_tx s c')
      \<and> writer s' \<in> {writer s, released c (writer s)}"
    and locks: "sound s \<Longrightarrow> writer s = Some (c, d) \<Longrightarrow> in_tx s c"

subsection \<open>Accesses\<close>

text \<open>The state of an access: the engine's, and the errors logged; \<open>None\<close> is an argument that is \<open>undefined\<close>.\<close>

type_synonym log_lines = "string option list list"
type_synonym ('st, 'a) access = "('st \<times> log_lines, err, 'a) future"

text \<open>\<open>run\<close>: the id of the last row, or the error, which is logged with the statement and its parameters.\<close>

definition run_sql :: "'st engine \<Rightarrow> nat \<Rightarrow> sql \<Rightarrow> string option \<Rightarrow> ('st, int) access" where
  "run_sql E c q params = (\<lambda>(st, lg).
     case does E c q st of
       (Inl m, st') \<Rightarrow> (Inl (PlainError m), (st', lg @ [[Some ''run'', Some (sql_text q), params]]))
     | (Inr rowid, st') \<Rightarrow> (Inr rowid, (st', lg)))"

definition exec_sql :: "'st engine \<Rightarrow> nat \<Rightarrow> sql \<Rightarrow> ('st, unit) access" where
  "exec_sql E c q = (\<lambda>(st, lg).
     case does E c q st of
       (Inl m, st') \<Rightarrow> (Inl (PlainError m), (st', lg @ [[Some ''run'', Some (sql_text q)]]))
     | (Inr rowid, st') \<Rightarrow> (Inr (), (st', lg)))"

definition all_sql :: "'st engine \<Rightarrow> nat \<Rightarrow> string \<Rightarrow> (db \<Rightarrow> 'r list) \<Rightarrow> string option \<Rightarrow> ('st, 'r list) access" where
  "all_sql E c query rows params = (\<lambda>(st, lg).
     case sees E c st of
       (Inl m, st') \<Rightarrow> (Inl (PlainError m), (st', lg @ [[Some ''run'', Some query, params]]))
     | (Inr d, st') \<Rightarrow> (Inr (rows d), (st', lg)))"

definition serialize :: "('st, int) access list \<Rightarrow> ('st, int list) access" where
  "serialize dbRuns = parallel1 dbRuns"

definition closeDb :: "'st engine \<Rightarrow> nat \<Rightarrow> 'a \<Rightarrow> ('st, 'a) access" where
  "closeDb E c x = (\<lambda>(st, lg).
     case close_conn E c st of (Some m, st') \<Rightarrow> (Inl (PlainError m), (st', lg)) | (None, st') \<Rightarrow> (Inr x, (st', lg)))"

text \<open>
  \<open>withDb\<close>: a connection of its own for the function, closed after it unless it rejects. When the file
  cannot be opened the connection emits an event \<open>error\<close> that nobody listens to: an uncaught exception,
  and neither a result nor a rejection.
\<close>

datatype 'a outcome = Uncaught | Settled "err + 'a"

lemma outcome_cases: obtains "r = Uncaught" | e where "r = Settled (Inl e)" | x where "r = Settled (Inr x)"
  by (metis outcome.exhaust sum.exhaust)

definition on_connection :: "'st engine \<Rightarrow> (nat \<Rightarrow> ('st, 'a) access) \<Rightarrow> 'st \<times> log_lines \<Rightarrow> 'a outcome \<times> 'st \<times> log_lines" where
  "on_connection E fn = (\<lambda>(st, lg).
     case open_conn E st of
       (Inl m, st1) \<Rightarrow> (Uncaught, (st1, lg))
     | (Inr c, st1) \<Rightarrow> apfst Settled (fchain (closeDb E c) (fn c) (st1, lg)))"

definition clear_current :: "int \<Rightarrow> int stmt" where
  "clear_current sid d =
     Inr (0, d\<lparr>t_game := map (\<lambda>r. if row_sessionId r = sid then r\<lparr>row_isCurrent := False\<rparr> else r) (t_game d)\<rparr>)"

definition mark_current :: "string \<Rightarrow> int stmt" where
  "mark_current gid d =
     Inr (0, d\<lparr>t_game := map (\<lambda>r. if row_gameId r = gid then r\<lparr>row_isCurrent := True\<rparr> else r) (t_game d)\<rparr>)"

definition set_current_script ::
  "'st engine \<Rightarrow> (jsval \<Rightarrow> string) \<Rightarrow> int \<Rightarrow> string \<Rightarrow> nat \<Rightarrow> ('st, int list) access" where
  "set_current_script E stringify sid gid c =
     serialize
       [run_sql E c Begin None,
        run_sql E c (Change ''UPDATE game SET is_current = 0 WHERE session_id = $session_id'' (clear_current sid))
          (Some (stringify (JObj [(''$session_id'', JNum sid)]))),
        run_sql E c (Change ''UPDATE game SET is_current = 1 WHERE game_id = $game_id'' (mark_current gid))
          (Some (stringify (JObj [(''$game_id'', JStr gid)]))),
        run_sql E c Commit None]"

text \<open>
  What the program does with the database: one statement that writes, the script, or a query; and the
  driver may close a connection that was left open when it collects its object, but for the one numbered \<open>k\<close>.
\<close>

inductive db_step :: "'st engine \<Rightarrow> nat \<Rightarrow> 'st \<times> log_lines \<Rightarrow> 'st \<times> log_lines \<Rightarrow> bool" for E k where
  alone: "on_connection E (\<lambda>c. run_sql E c (Change q f) params) x = (r, x') \<Longrightarrow> db_step E k x x'"
| script: "on_connection E (set_current_script E stringify sid gid) x = (r, x') \<Longrightarrow> db_step E k x x'"
| query: "on_connection E (\<lambda>c. all_sql E c q (rows :: db \<Rightarrow> jsval list) params) x = (r, x') \<Longrightarrow> db_step E k x x'"
| collected: "c \<noteq> k \<Longrightarrow> close_conn E c st = (z, st') \<Longrightarrow> db_step E k (st, lg) (st', lg)"

definition made_current :: "int \<Rightarrow> string \<Rightarrow> db \<Rightarrow> db" where
  "made_current sid gid d =
     d\<lparr>t_game :=
       map (\<lambda>r. if row_gameId r = gid then r\<lparr>row_isCurrent := True\<rparr> else r)
         (map (\<lambda>r. if row_sessionId r = sid then r\<lparr>row_isCurrent := False\<rparr> else r) (t_game d))\<rparr>"

lemma set_current_stmt_made: "set_current_stmt sid gid d = Inr ((), made_current sid gid d)"
  by (simp add: set_current_stmt_def made_current_def)

lemma made_current_two: "clear_current sid d = Inr (n, d1) \<Longrightarrow> mark_current gid d1 = Inr (m, d2) \<Longrightarrow>
    n = 0 \<and> m = 0 \<and> d2 = made_current sid gid d"
  by (auto simp: clear_current_def mark_current_def made_current_def)

text \<open>An access, by the connection it opens.\<close>

lemma on_connection_cases:
  assumes "on_connection E fn (st, lg) = (r, x')"
  obtains (unopened) m st1 where "open_conn E st = (Inl m, st1)" "r = Uncaught" "x' = (st1, lg)"
  | (opened) c st1 y st2 lg2 where "open_conn E st = (Inr c, st1)" "fn c (st1, lg) = (y, (st2, lg2))"
    "(\<exists>e. y = Inl e \<and> r = Settled (Inl e) \<and> x' = (st2, lg2))
     \<or> (\<exists>a z st3. y = Inr a \<and> close_conn E c st2 = (z, st3) \<and> x' = (st3, lg2)
          \<and> r = Settled (case z of None \<Rightarrow> Inr a | Some m \<Rightarrow> Inl (PlainError m)))"
proof -
  obtain oc st1 where o: "open_conn E st = (oc, st1)" by fastforce
  show thesis
  proof (cases oc)
    case (Inl m)
    then show ?thesis using unopened assms o by (auto simp: on_connection_def)
  next
    case (Inr c)
    obtain y st2 lg2 where f: "fn c (st1, lg) = (y, (st2, lg2))" by (metis prod.exhaust)
    obtain z st3 where k: "close_conn E c st2 = (z, st3)" by fastforce
    show ?thesis using assms o f k Inr
      by (intro opened [OF o [unfolded Inr] f]) (auto simp: on_connection_def fchain_def closeDb_def split: sum.splits option.splits)
  qed
qed

lemma run_sql_cases:
  "run_sql E c q params (st, lg) = (y, (st', lg')) \<longleftrightarrow>
     (\<exists>m. does E c q st = (Inl m, st') \<and> y = Inl (PlainError m) \<and> lg' = lg @ [[Some ''run'', Some (sql_text q), params]])
     \<or> (\<exists>n. does E c q st = (Inr n, st') \<and> y = Inr n \<and> lg' = lg)"
  by (auto simp: run_sql_def split: prod.splits sum.splits)

text \<open>The script, by the first of its statements that fails.\<close>

definition change1 :: "int \<Rightarrow> sql" where
  "change1 sid = Change ''UPDATE game SET is_current = 0 WHERE session_id = $session_id'' (clear_current sid)"

definition change2 :: "string \<Rightarrow> sql" where
  "change2 gid = Change ''UPDATE game SET is_current = 1 WHERE game_id = $game_id'' (mark_current gid)"

lemma script_cases:
  assumes "set_current_script E stringify sid gid c (st1, lg) = (y, (st2, lg2))"
  obtains (first) m q p where "does E c q st1 = (Inl m, st2)" "y = Inl (PlainError m)" "lg2 = lg @ [[Some ''run'', Some (sql_text q), p]]" "q = Begin"
  | (second) m n1 a p where "does E c Begin st1 = (Inr n1, a)" "does E c (change1 sid) a = (Inl m, st2)" "y = Inl (PlainError m)"
      "lg2 = lg @ [[Some ''run'', Some (sql_text (change1 sid)), p]]"
  | (third) m n1 n2 a b p where "does E c Begin st1 = (Inr n1, a)" "does E c (change1 sid) a = (Inr n2, b)"
      "does E c (change2 gid) b = (Inl m, st2)" "y = Inl (PlainError m)" "lg2 = lg @ [[Some ''run'', Some (sql_text (change2 gid)), p]]"
  | (fourth) m n1 n2 n3 a b d where "does E c Begin st1 = (Inr n1, a)" "does E c (change1 sid) a = (Inr n2, b)"
      "does E c (change2 gid) b = (Inr n3, d)" "does E c Commit d = (Inl m, st2)" "y = Inl (PlainError m)"
      "lg2 = lg @ [[Some ''run'', Some ''COMMIT'', None]]"
  | (all) n1 n2 n3 n4 a b d where "does E c Begin st1 = (Inr n1, a)" "does E c (change1 sid) a = (Inr n2, b)"
      "does E c (change2 gid) b = (Inr n3, d)" "does E c Commit d = (Inr n4, st2)" "y = Inr [n1, n2, n3, n4]" "lg2 = lg"
  using assms
  by (auto simp: set_current_script_def serialize_def run_sql_def change1_def [symmetric] change2_def [symmetric]
      split: prod.splits sum.splits)

context sql_engine begin

lemma lock_elsewhere: "sound s \<Longrightarrow> \<not> in_tx s c \<Longrightarrow> writer s = Some (c', d) \<Longrightarrow> c' \<noteq> c"
  using locks by blast

lemma script_run:
  assumes "sound st1" "\<not> in_tx st1 c" "set_current_script E stringify sid gid c (st1, lg) = (y, (st2, lg2))"
  shows "sound st2 \<and> (\<forall>c'. c' \<noteq> c \<longrightarrow> in_tx st2 c' = in_tx st1 c')
    \<and> (writer st1 \<noteq> None \<longrightarrow> tables st2 = tables st1 \<and> writer st2 = writer st1 \<and> (\<exists>e. y = Inl e))
    \<and> ((\<exists>e. y = Inl e) \<longrightarrow> tables st2 = tables st1)
    \<and> ((\<exists>x. y = Inr x) \<longrightarrow> tables st2 = made_current sid gid (tables st1) \<and> writer st2 = None)"
  using assms(3)
proof (cases rule: script_cases)
  case (first m q p)
  then show ?thesis using fails [OF assms(1) first(1)] lock_elsewhere [OF assms(1,2)] by (cases "writer st1") auto
next
  case (second m n1 a p)
  note a = begins [OF assms(1) second(1)]
  show ?thesis using a fails [OF _ second(2)] second(3,4) lock_elsewhere [OF assms(1,2)]
    by (cases "writer st1") auto
next
  case (third m n1 n2 a b p)
  note a = begins [OF assms(1) third(1)]
  have sa: "sound a" using a by simp
  note b = changes [OF sa third(2) [unfolded change1_def]]
  show ?thesis using a b fails [OF _ third(3)] third(4,5) lock_elsewhere [OF assms(1,2)]
    by (cases "writer st1") auto
next
  case (fourth m n1 n2 n3 a b d)
  note a = begins [OF assms(1) fourth(1)]
  have sa: "sound a" using a by simp
  note b = changes [OF sa fourth(2) [unfolded change1_def]]
  have sb: "sound b" using b by simp
  note d = changes [OF sb fourth(3) [unfolded change2_def]]
  show ?thesis using a b d fails [OF _ fourth(4)] fourth(5,6) lock_elsewhere [OF assms(1,2)]
    by (cases "writer st1") auto
next
  case (all n1 n2 n3 n4 a b d)
  note a = begins [OF assms(1) all(1)]
  have sa: "sound a" using a by simp
  note b = changes [OF sa all(2) [unfolded change1_def]]
  have sb: "sound b" using b by simp
  note d = changes [OF sb all(3) [unfolded change2_def]]
  have sd: "sound d" using d by simp
  note e = commits [OF sd all(4)]
  show ?thesis using a b d e all(5,6) lock_elsewhere [OF assms(1,2)]
    by (cases "writer st1") (auto dest: made_current_two)
qed

text \<open>With the connection opened and closed around it.\<close>

lemma access_parts:
  assumes "sound st" "on_connection E fn (st, lg) = (r, (st', lg'))"
  obtains (unopened) "r = Uncaught" "sound st'" "tables st' = tables st" "writer st' = writer st" "lg' = lg"
  | (opened) st1 c y st2 where "sound st1" "\<not> in_tx st1 c" "tables st1 = tables st" "writer st1 = writer st"
    "fn c (st1, lg) = (y, (st2, lg'))"
    "sound st2 \<longrightarrow> sound st' \<and> tables st' = tables st2 \<and> writer st' \<in> {writer st2, released c (writer st2)}"
    "\<forall>e. y = Inl e \<longrightarrow> st' = st2 \<and> r = Settled (Inl e)" "\<forall>a. r = Settled (Inr a) \<longrightarrow> y = Inr a" "r \<noteq> Uncaught"
  using assms(2)
proof (cases rule: on_connection_cases)
  case (unopened m st1)
  then show thesis using that(1) opens [OF assms(1) unopened(1)] by simp
next
  case (opened c st1 y st2 lg2)
  note o = opens [OF assms(1) opened(1)]
  show thesis
  proof (rule that(2) [of st1 c y st2])
    show "fn c (st1, lg) = (y, (st2, lg'))" using opened(2,3) by auto
    show "sound st2 \<longrightarrow> sound st' \<and> tables st' = tables st2 \<and> writer st' \<in> {writer st2, released c (writer st2)}"
      using opened(3) closes by fastforce
  qed (use o opened(3) in \<open>auto split: option.splits\<close>)
qed

lemma script_whole:
  assumes "sound st" "on_connection E (set_current_script E stringify sid gid) (st, lg) = (r, (st', lg'))"
  shows "sound st'"
    and "writer st \<noteq> None \<Longrightarrow> tables st' = tables st \<and> writer st' = writer st"
    and "tables st' = tables st \<and> (\<forall>a. r \<noteq> Settled (Inr a)) \<or> tables st' = made_current sid gid (tables st) \<and> r \<noteq> Uncaught"
    and "writer st' \<noteq> None \<Longrightarrow> tables st' = tables st"
proof -
  have "sound st' \<and> (writer st \<noteq> None \<longrightarrow> tables st' = tables st \<and> writer st' = writer st)
      \<and> (tables st' = tables st \<and> (\<forall>a. r \<noteq> Settled (Inr a)) \<or> tables st' = made_current sid gid (tables st) \<and> r \<noteq> Uncaught)
      \<and> (writer st' \<noteq> None \<longrightarrow> tables st' = tables st)"
    using assms
  proof (cases rule: access_parts)
    case (opened st1 c y st2)
    note run = script_run [OF opened(1,2,5)]
    have fin: "sound st'" "tables st' = tables st2" using run opened(6) by simp_all
    show ?thesis
    proof (cases y)
      case (Inl e)
      then show ?thesis using run fin opened(3,4,7) by auto
    next
      case (Inr a)
      then show ?thesis using run fin opened(3,4,6,9) by auto
    qed
  qed auto
  then show "sound st'" "writer st \<noteq> None \<Longrightarrow> tables st' = tables st \<and> writer st' = writer st"
    "tables st' = tables st \<and> (\<forall>a. r \<noteq> Settled (Inr a)) \<or> tables st' = made_current sid gid (tables st) \<and> r \<noteq> Uncaught"
    "writer st' \<noteq> None \<Longrightarrow> tables st' = tables st" by blast+
qed

lemma write_whole:
  assumes "sound st" "on_connection E (\<lambda>c. run_sql E c (Change q f) params) (st, lg) = (r, (st', lg'))"
  shows "sound st'"
    "writer st \<noteq> None \<Longrightarrow> tables st' = tables st \<and> writer st' = writer st \<and> (\<forall>n. r \<noteq> Settled (Inr n))"
proof -
  have "sound st' \<and> (writer st \<noteq> None \<longrightarrow> tables st' = tables st \<and> writer st' = writer st \<and> (\<forall>n. r \<noteq> Settled (Inr n)))"
    using assms
  proof (cases rule: access_parts)
    case (opened st1 c y st2)
    have run: "sound st2 \<and> (writer st1 \<noteq> None \<longrightarrow> tables st2 = tables st1 \<and> writer st2 = writer st1 \<and> (\<exists>e. y = Inl e))"
      using opened(5) unfolding run_sql_cases
    proof (elim disjE exE conjE)
      fix m assume "does E c (Change q f) st1 = (Inl m, st2)" "y = Inl (PlainError m)"
      then show ?thesis using fails [OF opened(1)] lock_elsewhere [OF opened(1,2)] by (cases "writer st1") fastforce+
    next
      fix n assume "does E c (Change q f) st1 = (Inr n, st2)"
      from changes [OF opened(1) this] show ?thesis using lock_elsewhere [OF opened(1,2)] by (cases "writer st1") auto
    qed
    then show ?thesis using opened(3,4,6,7) by auto
  qed auto
  then show "sound st'"
    "writer st \<noteq> None \<Longrightarrow> tables st' = tables st \<and> writer st' = writer st \<and> (\<forall>n. r \<noteq> Settled (Inr n))" by blast+
qed

lemma query_whole:
  assumes "sound st" "on_connection E (\<lambda>c. all_sql E c q rows params) (st, lg) = (r, (st', lg'))"
  shows "sound st'" "tables st' = tables st" "writer st' = writer st" "r = Settled (Inr x) \<Longrightarrow> x = rows (tables st)"
proof -
  have "sound st' \<and> tables st' = tables st \<and> writer st' = writer st \<and> (\<forall>x. r = Settled (Inr x) \<longrightarrow> x = rows (tables st))"
    using assms
  proof (cases rule: access_parts)
    case (opened st1 c y st2)
    obtain z where z: "sees E c st1 = (z, st2)" "y = (case z of Inl m \<Rightarrow> Inl (PlainError m) | Inr d \<Rightarrow> Inr (rows d))"
      using opened(5) by (auto simp: all_sql_def split: prod.splits sum.splits)
    note run = queries [OF opened(1) z(1)]
    have free: "released c (writer st1) = writer st1" "\<And>d. writer st1 \<noteq> Some (c, d)"
      using lock_elsewhere [OF opened(1,2)] by (cases "writer st1"; auto)+
    have "z = Inr d \<Longrightarrow> d = tables st1" for d
    proof -
      have "c' \<noteq> c" if "writer st1 = Some (c', d')" for c' d' using free(2) that by blast
      then show "z = Inr d \<Longrightarrow> d = tables st1" using run by (cases "writer st1") auto
    qed
    then have "\<forall>x. r = Settled (Inr x) \<longrightarrow> x = rows (tables st)" using opened(3,8) z(2) by (cases z) auto
    then show ?thesis using run free opened(3,4,6) by auto
  qed auto
  then show "sound st'" "tables st' = tables st" "writer st' = writer st" "r = Settled (Inr x) \<Longrightarrow> x = rows (tables st)" by blast+
qed

text \<open>
  While a transaction is open whose connection \<open>k\<close> nobody closes (in the program only the finalizer of the
  driver's object would), nothing anybody writes gets into the tables.
\<close>

lemma db_step_locked:
  assumes "db_step E k x x'" "sound (fst x)" "writer (fst x) = Some (k, d)"
  shows "tables (fst x') = tables (fst x) \<and> writer (fst x') = Some (k, d) \<and> sound (fst x')"
  using assms(1)
proof cases
  case (alone q f params r)
  then show ?thesis using write_whole assms(2,3) by (cases x; cases x') auto
next
  case (script stringify sid gid r)
  then show ?thesis using script_whole(1,2) assms(2,3) by (cases x; cases x') auto
next
  case (query q rows params r)
  then show ?thesis using query_whole(1-3) [of "fst x" q rows params "snd x" r "fst x'" "snd x'"] assms(2,3) by simp
next
  case (collected c st z st' lg)
  then show ?thesis using closes [of st c z st'] assms(2,3) by auto
qed

lemma locked_out:
  assumes "(db_step E k)\<^sup>*\<^sup>* x x'" "sound (fst x)" "writer (fst x) = Some (k, d)"
  shows "tables (fst x') = tables (fst x) \<and> writer (fst x') = Some (k, d) \<and> sound (fst x')"
  using assms(1)
proof (induction rule: rtranclp_induct)
  case (step a b)
  then show ?case using db_step_locked [OF step.hyps(2)] by simp
qed (use assms in simp)

end

text \<open>
  However the script goes, it goes as the one access of Sessions goes on some database: all of it, nothing,
  or all of it with an error from the closing, or the file cannot be opened and the process ends.
\<close>

lemma one_access:
  assumes "t = tab \<and> (\<forall>a. r \<noteq> Settled (Inr a)) \<or> t = made_current sid gid tab \<and> r \<noteq> Uncaught"
  shows "\<exists>fate r' w'. setCurrentGame sid gid (w\<lparr>db := tab, dbfate := fate\<rparr>) = (r', w')
    \<and> db w' = t \<and> (r' = Inr () \<longleftrightarrow> (\<exists>x. r = Settled (Inr x)))
    \<and> crashed w' = (if r = Uncaught then Some CannotOpen else crashed w)"
proof -
  have acc: "setCurrentGame sid gid (w\<lparr>db := tab, dbfate := \<lambda>_. f\<rparr>) =
    (case f of
        OpenFails \<Rightarrow> (Inl (PlainError ''SQLITE_CANTOPEN''), w\<lparr>db := tab, dbfate := \<lambda>_. f, dbcount := Suc (dbcount w), crashed := Some CannotOpen\<rparr>)
      | StatementFails \<Rightarrow> (Inl (PlainError ''SQLITE_ERROR''), w\<lparr>db := tab, dbfate := \<lambda>_. f, dbcount := Suc (dbcount w)\<rparr>)
      | Fine \<Rightarrow> (Inr (), w\<lparr>db := made_current sid gid tab, dbfate := \<lambda>_. f, dbcount := Suc (dbcount w)\<rparr>)
      | CloseFails \<Rightarrow> (Inl (PlainError ''SQLITE_BUSY''),
          w\<lparr>db := made_current sid gid tab, dbfate := \<lambda>_. f, dbcount := Suc (dbcount w)\<rparr>))" for f
    by (simp add: setCurrentGame_def withDb_def set_current_stmt_made split: db_fate.split)
  consider "t = tab" "r = Uncaught" | "t = tab" "\<exists>e. r = Settled (Inl e)"
    | "t = made_current sid gid tab" "\<exists>e. r = Settled (Inl e)" | "t = made_current sid gid tab" "\<exists>x. r = Settled (Inr x)"
    using assms by (cases r rule: outcome_cases) auto
  then show ?thesis
  proof cases
    case 1
    then show ?thesis using acc [of OpenFails] by fastforce
  next
    case 2
    then show ?thesis using acc [of StatementFails] by fastforce
  next
    case 3
    then show ?thesis using acc [of CloseFails] by fastforce
  next
    case 4
    then show ?thesis using acc [of Fine] by fastforce
  qed
qed

subsection \<open>An engine that keeps the promise\<close>

text \<open>
  One file, one write lock; the n-th use fails as \<open>fate\<close> says, with a message and whether the engine rolls
  back by itself.
\<close>

record sqlite =
  committed :: db
  opened :: nat
  tx :: "nat \<Rightarrow> bool"
  lock :: "(nat \<times> db) option"
  uses :: nat
  fate :: "nat \<Rightarrow> (string \<times> bool) option"

definition seen_by :: "nat \<Rightarrow> sqlite \<Rightarrow> db" where
  "seen_by c s = (case lock s of Some (c', d) \<Rightarrow> if c' = c then d else committed s | None \<Rightarrow> committed s)"

definition locked_for :: "nat \<Rightarrow> sqlite \<Rightarrow> bool" where
  "locked_for c s \<longleftrightarrow> (case lock s of Some (c', _) \<Rightarrow> c' \<noteq> c | None \<Rightarrow> False)"

definition lite_ended :: "nat \<Rightarrow> sqlite \<Rightarrow> sqlite" where
  "lite_ended c s = s\<lparr>tx := (tx s)(c := False), lock := released c (lock s)\<rparr>"

definition lite_open :: "sqlite \<Rightarrow> (string + nat) \<times> sqlite" where
  "lite_open s0 =
     (let s = s0\<lparr>uses := Suc (uses s0)\<rparr>
      in case fate s (uses s0) of
           Some (m, _) \<Rightarrow> (Inl m, s)
         | None \<Rightarrow> (Inr (opened s), s\<lparr>opened := Suc (opened s)\<rparr>))"

definition lite_does :: "nat \<Rightarrow> sql \<Rightarrow> sqlite \<Rightarrow> (string + int) \<times> sqlite" where
  "lite_does c q s0 =
     (let s = s0\<lparr>uses := Suc (uses s0)\<rparr>
      in case fate s (uses s0) of
           Some (m, rolls_back) \<Rightarrow> (Inl m, if rolls_back then lite_ended c s else s)
         | None \<Rightarrow>
             if opened s \<le> c then (Inl ''SQLITE_MISUSE: Database handle is closed'', s)
             else (case q of
                Begin \<Rightarrow>
                  if tx s c then (Inl ''cannot start a transaction within a transaction'', s)
                  else (Inr 0, s\<lparr>tx := (tx s)(c := True)\<rparr>)
              | Commit \<Rightarrow>
                  if \<not> tx s c then (Inl ''cannot commit - no transaction is active'', s)
                  else (Inr 0, (lite_ended c s)\<lparr>committed := seen_by c s\<rparr>)
              | Change _ f \<Rightarrow>
                  if locked_for c s then (Inl ''database is locked'', s)
                  else (case f (seen_by c s) of
                          Inl m \<Rightarrow> (Inl m, s)
                        | Inr (rowid, d) \<Rightarrow> (Inr rowid, if tx s c then s\<lparr>lock := Some (c, d)\<rparr> else s\<lparr>committed := d\<rparr>))))"

definition lite_sees :: "nat \<Rightarrow> sqlite \<Rightarrow> (string + db) \<times> sqlite" where
  "lite_sees c s0 =
     (let s = s0\<lparr>uses := Suc (uses s0)\<rparr>
      in case fate s (uses s0) of
           Some (m, rolls_back) \<Rightarrow> (Inl m, if rolls_back then lite_ended c s else s)
         | None \<Rightarrow> (Inr (seen_by c s), s))"

definition lite_close :: "nat \<Rightarrow> sqlite \<Rightarrow> string option \<times> sqlite" where
  "lite_close c s0 =
     (let s = s0\<lparr>uses := Suc (uses s0)\<rparr>
      in case fate s (uses s0) of Some (m, _) \<Rightarrow> (Some m, s) | None \<Rightarrow> (None, lite_ended c s))"

definition lite :: "sqlite engine" where
  "lite = \<lparr>open_conn = lite_open, does = lite_does, sees = lite_sees, close_conn = lite_close\<rparr>"

definition lite_ok :: "sqlite \<Rightarrow> bool" where
  "lite_ok s \<longleftrightarrow> (\<forall>c \<ge> opened s. \<not> tx s c) \<and> (\<forall>c d. lock s = Some (c, d) \<longrightarrow> tx s c)"

lemmas lite_defs = lite_def lite_open_def lite_does_def lite_sees_def lite_close_def lite_ok_def Let_def seen_by_def locked_for_def
  lite_ended_def

interpretation sqlite_engine: sql_engine lite committed lock tx lite_ok
proof
  fix s s' c q m n str f z seen d o'
  show "lite_ok s \<Longrightarrow> open_conn lite s = (o', s') \<Longrightarrow>
      lite_ok s' \<and> committed s' = committed s \<and> lock s' = lock s \<and> tx s' = tx s \<and> (\<forall>c. o' = Inr c \<longrightarrow> \<not> tx s c)"
    by (auto simp: lite_defs split: option.splits)
  show "lite_ok s \<Longrightarrow> does lite c q s = (Inl m, s') \<Longrightarrow>
      lite_ok s' \<and> committed s' = committed s
      \<and> (lock s' = lock s \<and> tx s' = tx s \<or> lock s' = released c (lock s) \<and> tx s' = (tx s)(c := False))"
    by (cases "lock s") (auto simp: lite_defs split: option.splits sql.splits if_splits sum.splits)
  show "lite_ok s \<Longrightarrow> does lite c Begin s = (Inr n, s') \<Longrightarrow>
      lite_ok s' \<and> n = 0 \<and> committed s' = committed s \<and> lock s' = lock s \<and> tx s' = (tx s)(c := True)"
    by (auto simp: lite_defs split: option.splits if_splits)
  show "lite_ok s \<Longrightarrow> does lite c (Change str f) s = (Inr n, s') \<Longrightarrow>
      lite_ok s' \<and> tx s' = tx s
      \<and> (\<exists>d0 d. f d0 = Inr (n, d)
           \<and> (case lock s of None \<Rightarrow> d0 = committed s | Some (c', d') \<Rightarrow> c' = c \<and> d0 = d')
           \<and> (if tx s c then committed s' = committed s \<and> lock s' = Some (c, d) else committed s' = d \<and> lock s' = lock s))"
    by (cases "lock s") (auto simp: lite_defs split: option.splits if_splits sum.splits)
  show "lite_ok s \<Longrightarrow> does lite c Commit s = (Inr n, s') \<Longrightarrow>
      lite_ok s' \<and> n = 0 \<and> tx s' = (tx s)(c := False)
      \<and> (case lock s of
           None \<Rightarrow> committed s' = committed s \<and> lock s' = None
         | Some (c', d) \<Rightarrow> if c' = c then committed s' = d \<and> lock s' = None else committed s' = committed s \<and> lock s' = lock s)"
    by (cases "lock s") (auto simp: lite_defs split: option.splits if_splits)
  show "lite_ok s \<Longrightarrow> sees lite c s = (seen, s') \<Longrightarrow>
      lite_ok s' \<and> committed s' = committed s \<and> lock s' \<in> {lock s, released c (lock s)}
      \<and> (\<forall>c'. c' \<noteq> c \<longrightarrow> tx s' c' = tx s c')
      \<and> (\<forall>d. seen = Inr d \<longrightarrow> d = (case lock s of Some (c', d') \<Rightarrow> if c' = c then d' else committed s | None \<Rightarrow> committed s))"
    by (cases "lock s") (auto simp: lite_defs split: option.splits if_splits)
  show "lite_ok s \<Longrightarrow> close_conn lite c s = (z, s') \<Longrightarrow>
      lite_ok s' \<and> committed s' = committed s \<and> (\<forall>c'. c' \<noteq> c \<longrightarrow> tx s' c' = tx s c')
      \<and> lock s' \<in> {lock s, released c (lock s)}"
    by (cases "lock s") (auto simp: lite_defs split: option.splits if_splits)
  show "lite_ok s \<Longrightarrow> lock s = Some (c, d) \<Longrightarrow> tx s c"
    by (auto simp: lite_ok_def)
qed

end
