(* ===== verification/Helpers.thy ===== *)
theory Helpers
  imports "HOL-Library.Multiset" Config
begin

text \<open>
  The helpers of \<open>lib/util.ts\<close> that are not about results: files, sorting and filtering; and the server of
  \<open>http/index.ts\<close>, which is neither bundled nor started.
\<close>

subsection \<open>Files\<close>

text \<open>
  \<open>attemptP\<close> runs a function that gives a promise; \<open>opn\<close> and \<open>read_at\<close> are Node's \<open>open\<close> and \<open>read\<close>. The
  function \<open>readfileP\<close> attempts gives a future and does not run it; \<open>Buffer.alloc\<close> raises below 0.
\<close>

definition attemptP :: "('s \<Rightarrow> (err + 'a) \<times> 's) \<Rightarrow> ('s, err, 'a) future" where
  "attemptP f s = f s"

definition openfileP ::
  "(string \<Rightarrow> string \<Rightarrow> int option \<Rightarrow> 's \<Rightarrow> (err + 'h) \<times> 's) \<Rightarrow> string \<Rightarrow> string \<Rightarrow> int option \<Rightarrow> ('s, err, 'h) future" where
  "openfileP opn filePath flags mode = attemptP (opn filePath flags mode)"

definition readfileP ::
  "('h \<Rightarrow> int \<Rightarrow> int \<Rightarrow> int \<Rightarrow> 's \<Rightarrow> (err + 'b) \<times> 's) \<Rightarrow> int \<Rightarrow> int \<Rightarrow> 'h \<Rightarrow> ('s, err, ('s, err, 'b) future) future" where
  "readfileP read_at startBytes len fileHandle =
     attemptP (\<lambda>s. if len < 0 then (Inl (PlainError ''ERR_OUT_OF_RANGE''), s)
                   else (Inr (attemptP (read_at fileHandle 0 len startBytes)), s))"

text \<open>It reads nothing; only what it resolves with would, run in its turn.\<close>

lemma readfileP_reads_nothing:
  "snd (readfileP rd pos len h s) = s"
  "0 \<le> len \<Longrightarrow> fchain (\<lambda>m. m) (readfileP rd pos len h) s = rd h 0 len pos s"
  by (simp_all add: readfileP_def attemptP_def fchain_def)

subsection \<open>Arrays\<close>

text \<open>JavaScript's \<open>sort\<close> is stable; the comparison gives a negative number, zero or a positive one.\<close>

fun place :: "('a \<Rightarrow> 'a \<Rightarrow> int) \<Rightarrow> 'a \<Rightarrow> 'a list \<Rightarrow> 'a list" where
  "place fn x [] = [x]"
| "place fn x (y # ys) = (if fn x y \<le> 0 then x # y # ys else y # place fn x ys)"

definition sort_els :: "('a \<Rightarrow> 'a \<Rightarrow> int) \<Rightarrow> 'a list \<Rightarrow> 'a list" where
  "sort_els fn elements = foldr (place fn) elements []"

definition filter_els :: "('a \<Rightarrow> bool) \<Rightarrow> 'a list \<Rightarrow> 'a list" where
  "filter_els fn elements = concat (map (\<lambda>x. if fn x then [x] else []) elements)"

text \<open>With a difference as the comparison it is the sorting by a key that the games of a session have.\<close>

lemma place_insort: "place (\<lambda>a b. f a - f b) x ys = insort_key f x ys"
  by (induction ys) simp_all

lemma sort_els_key: "sort_els (\<lambda>a b. f a - f b) xs = sort_key f xs"
  unfolding sort_els_def sort_key_def by (induction xs) (simp_all add: place_insort)

lemma filter_els_filter: "filter_els P xs = filter P xs"
  by (induction xs) (simp_all add: filter_els_def)

lemma sort_els_perm: "mset (sort_els fn xs) = mset xs"
proof -
  have place: "mset (place fn x ys) = add_mset x (mset ys)" for x ys by (induction ys) simp_all
  show ?thesis by (induction xs) (simp_all add: sort_els_def place)
qed

subsection \<open>The HTTP server\<close>

record http_app =
  users :: "(string \<times> string) list"
  mount_path :: string
  served_dir :: string
  http_port :: string

text \<open>Loading the module: each variable must be there and not be empty, in this order.\<close>

definition load_http :: "string \<Rightarrow> vars \<Rightarrow> string + http_app" where
  "load_http dirname c =
     (if \<not> has_text (c ''DFS_REC_DIR'') then Inl ''Missing DFS_REC_DIR env var''
      else if \<not> has_text (c ''DFS_HTTP_PASS'') then Inl ''Missing DFS_HTTP_PASS env var''
      else if \<not> has_text (c ''DFS_HTTP_PORT'') then Inl ''Missing DFS_HTT_PORT env var''
      else Inr \<lparr>users = [(''admin'', the (c ''DFS_HTTP_PASS''))], mount_path = ''/rec'',
                served_dir = path_resolve dirname [the (c ''DFS_REC_DIR'')], http_port = the (c ''DFS_HTTP_PORT'')\<rparr>)"

text \<open>
  A request: \<open>basicAuth\<close> asks for credentials it knows, then what is under \<open>/rec\<close> comes from the directory,
  the way \<open>express.static\<close> finds it there (\<open>static_file\<close>), and there is nothing else.
\<close>

datatype http_answer = Challenge | FileSent string | NotFound404

definition http_request ::
  "(string \<Rightarrow> string \<Rightarrow> string option) \<Rightarrow> http_app \<Rightarrow> (string \<times> string) option \<Rightarrow> string \<Rightarrow> http_answer" where
  "http_request static_file app auth url =
     (if auth = None \<or> the auth \<notin> set (users app) then Challenge
      else let rest = drop (length (mount_path app)) url
           in if take (length (mount_path app)) url = mount_path app \<and> (rest = [] \<or> hd rest = CHR ''/'')
              then (case static_file (served_dir app) rest of None \<Rightarrow> NotFound404 | Some f \<Rightarrow> FileSent f)
              else NotFound404)"

text \<open>\<open>listen\<close> gives an error or nothing; the line of the log on success.\<close>

definition startHTTPServer :: "(string \<Rightarrow> err option) \<Rightarrow> int \<Rightarrow> http_app \<Rightarrow> err + string" where
  "startHTTPServer listen_on timestamp app =
     (case listen_on (http_port app) of
        Some e \<Rightarrow> Inl e
      | None \<Rightarrow> Inr (log_line ''http'' timestamp [LogStr ''HTTP server listening'', LogStr (http_port app)]))"

text \<open>Nothing is sent without the password, and only what the directory of the recordings has.\<close>

lemma http_served:
  assumes "load_http dirname c = Inr app" "http_request static_file app auth url = FileSent f"
  shows "\<exists>pass rest d. auth = Some (''admin'', pass) \<and> c ''DFS_HTTP_PASS'' = Some pass \<and> pass \<noteq> []
    \<and> c ''DFS_REC_DIR'' = Some d \<and> url = ''/rec'' @ rest \<and> static_file (path_resolve dirname [d]) rest = Some f"
proof -
  have app: "users app = [(''admin'', the (c ''DFS_HTTP_PASS''))]" "mount_path app = ''/rec''"
    "served_dir app = path_resolve dirname [the (c ''DFS_REC_DIR'')]"
    "has_text (c ''DFS_REC_DIR'')" "has_text (c ''DFS_HTTP_PASS'')"
    using assms(1) by (auto simp: load_http_def split: if_splits)
  have auth: "auth = Some (''admin'', the (c ''DFS_HTTP_PASS''))"
    and url: "take 4 url = ''/rec''" "static_file (path_resolve dirname [the (c ''DFS_REC_DIR'')]) (drop 4 url) = Some f"
    using assms(2) app by (auto simp: http_request_def Let_def eval_nat_numeral split: if_splits option.splits)
  have "url = ''/rec'' @ drop 4 url" using append_take_drop_id [of 4 url] url(1) by simp
  then show ?thesis using auth url(2) app(4,5) by (auto simp: has_text_def)
qed

text \<open>The shipped environment has no password, so the module cannot be loaded.\<close>

lemma shipped_http: "load_http ''/server/build'' server_env = Inl ''Missing DFS_HTTP_PASS env var''"
  by code_simp

end
