(* ===== verification/GameLink.thy ===== *)
theory GameLink
  imports Evented ClientGame
begin

text \<open>
  How a player's screen hangs on its socket: \<open>GameClient\<close> (\<open>game/src/js/lib/game.ts\<close>) passes the events of the
  socket on, and the effect of \<open>GameScreen.tsx\<close> registers its callbacks and connects, and on its cleanup
  disconnects and takes them away. A screen that is given another player makes another client; the clients
  made so far stay in the list, the last one is the screen's.
\<close>

datatype screen_cb = OnError | OnConnect | OnDisconnect | OnState | OnRound

datatype cb_arg = NoValue | StateValue game_data | ErrorValue string

text \<open>\<open>gc_active\<close>: the socket has been told to connect and not to disconnect; \<open>gc_up\<close>: it is connected.\<close>

record game_client =
  gc_playerId :: string
  gc_cbs :: "(string, screen_cb) cb_map"
  gc_active :: bool
  gc_up :: bool

record game_view =
  gv_clients :: "game_client list"
  gv_state :: client
  gv_alerts :: "string list"
  gv_received :: "(nat \<times> game_data) list"   \<comment> \<open>the states that came, with the client they came to\<close>

definition new_GameClient :: "string \<Rightarrow> game_client" where
  "new_GameClient pid = \<lparr>gc_playerId = pid, gc_cbs = no_cbs, gc_active = False, gc_up = False\<rparr>"

fun run_screen_cb :: "cb_arg \<Rightarrow> screen_cb \<Rightarrow> game_view \<Rightarrow> exn + game_view" where
  "run_screen_cb arg OnConnect v = Inr (v\<lparr>gv_state := client_on CConnect (gv_state v)\<rparr>)"
| "run_screen_cb arg OnState v =
     Inr (case arg of StateValue gd \<Rightarrow> v\<lparr>gv_state := client_on (CState gd) (gv_state v)\<rparr> | _ \<Rightarrow> v)"
| "run_screen_cb arg OnError v =
     Inr (v\<lparr>gv_state := client_on CError (gv_state v),
             gv_alerts := gv_alerts v @ [case arg of ErrorValue m \<Rightarrow> m | _ \<Rightarrow> []]\<rparr>)"
| "run_screen_cb arg OnDisconnect v = Inr (v\<lparr>gv_state := client_on CDisconnect (gv_state v)\<rparr>)"
| "run_screen_cb arg OnRound v = Inr v"

definition gc_trigger :: "nat \<Rightarrow> string \<Rightarrow> cb_arg \<Rightarrow> game_view \<Rightarrow> exn + game_view" where
  "gc_trigger k event arg v = trigger_with (run_screen_cb arg) (gc_cbs (gv_clients v ! k)) event v"

definition set_gc :: "nat \<Rightarrow> (game_client \<Rightarrow> game_client) \<Rightarrow> game_view \<Rightarrow> game_view" where
  "set_gc k f v = v\<lparr>gv_clients := (gv_clients v)[k := f (gv_clients v ! k)]\<rparr>"

text \<open>The listeners the constructor puts on the socket.\<close>

definition socket_connect :: "nat \<Rightarrow> game_view \<Rightarrow> exn + game_view" where
  "socket_connect k v = gc_trigger k ''connect'' NoValue (set_gc k (\<lambda>c. c\<lparr>gc_up := True\<rparr>) v)"

definition socket_disconnect :: "nat \<Rightarrow> game_view \<Rightarrow> exn + game_view" where
  "socket_disconnect k v = gc_trigger k ''disconnect'' NoValue (set_gc k (\<lambda>c. c\<lparr>gc_up := False\<rparr>) v)"

definition socket_state :: "nat \<Rightarrow> game_data \<Rightarrow> game_view \<Rightarrow> exn + game_view" where
  "socket_state k gd v = gc_trigger k ''state'' (StateValue gd) (v\<lparr>gv_received := gv_received v @ [(k, gd)]\<rparr>)"

definition manager_error :: "nat \<Rightarrow> string \<Rightarrow> game_view \<Rightarrow> exn + game_view" where
  "manager_error k m v = gc_trigger k ''error'' (ErrorValue m) v"

text \<open>\<open>GameClient.connect\<close> and \<open>disconnect\<close>; a socket that is connected says itself that it disconnects.\<close>

definition gc_connect :: "nat \<Rightarrow> game_view \<Rightarrow> game_view" where
  "gc_connect k v = set_gc k (\<lambda>c. c\<lparr>gc_active := True\<rparr>) v"

definition gc_disconnect :: "nat \<Rightarrow> game_view \<Rightarrow> exn + game_view" where
  "gc_disconnect k v =
     (let v1 = set_gc k (\<lambda>c. c\<lparr>gc_active := False\<rparr>) v
      in if gc_up (gv_clients v ! k) then socket_disconnect k v1 else Inr v1)"

definition effect_mount :: "nat \<Rightarrow> game_view \<Rightarrow> game_view" where
  "effect_mount k v =
     gc_connect k (set_gc k (\<lambda>c. c\<lparr>gc_cbs :=
       fold (\<lambda>(e, cb). on e cb)
         [(''error'', OnError), (''connect'', OnConnect), (''disconnect'', OnDisconnect), (''state'', OnState), (''round'', OnRound)]
         (gc_cbs c)\<rparr>) v)"

definition effect_cleanup :: "nat \<Rightarrow> game_view \<Rightarrow> exn + game_view" where
  "effect_cleanup k v =
     mapR (set_gc k (\<lambda>c. c\<lparr>gc_cbs :=
       fold (\<lambda>(e, cb). off e cb)
         [(''state'', OnState), (''error'', OnError), (''connect'', OnConnect), (''round'', OnRound)] (gc_cbs c)\<rparr>))
       (gc_disconnect k v)"

definition view_start :: "string \<Rightarrow> game_view" where
  "view_start pid =
     effect_mount 0 \<lparr>gv_clients = [new_GameClient pid], gv_state = client_init, gv_alerts = [], gv_received = []\<rparr>"

text \<open>The screen is given a player: \<open>useMemo\<close> makes a client if it is another one, then the effects follow.\<close>

definition give_player :: "string \<Rightarrow> game_view \<Rightarrow> exn + game_view" where
  "give_player pid v =
     (let k = length (gv_clients v) - 1
      in if gc_playerId (gv_clients v ! k) = pid then Inr v
         else mapR (effect_mount (Suc k)) (effect_cleanup k (v\<lparr>gv_clients := gv_clients v @ [new_GameClient pid]\<rparr>)))"

text \<open>A socket may connect, lose its connection and fail while it is active, and hears states while it is connected.\<close>

inductive link_step :: "game_view \<Rightarrow> game_view \<Rightarrow> bool" where
  connects: "k < length (gv_clients v) \<Longrightarrow> gc_active (gv_clients v ! k) \<Longrightarrow> \<not> gc_up (gv_clients v ! k) \<Longrightarrow>
    socket_connect k v = Inr v' \<Longrightarrow> link_step v v'"
| loses: "k < length (gv_clients v) \<Longrightarrow> gc_active (gv_clients v ! k) \<Longrightarrow> gc_up (gv_clients v ! k) \<Longrightarrow>
    socket_disconnect k v = Inr v' \<Longrightarrow> link_step v v'"
| hears: "k < length (gv_clients v) \<Longrightarrow> gc_up (gv_clients v ! k) \<Longrightarrow> socket_state k gd v = Inr v' \<Longrightarrow> link_step v v'"
| errs: "k < length (gv_clients v) \<Longrightarrow> gc_active (gv_clients v ! k) \<Longrightarrow> manager_error k m v = Inr v' \<Longrightarrow> link_step v v'"
| gives: "give_player pid v = Inr v' \<Longrightarrow> link_step v v'"

subsection \<open>What the screen shows is its player's\<close>

text \<open>
  The clients before the last are silent; the last has its callbacks, and shows a game only while it is
  connected, and then the state that came last, which came to it.
\<close>

definition mounted_cbs :: "(string, screen_cb) cb_map \<Rightarrow> bool" where
  "mounted_cbs m \<longleftrightarrow> subs m ''error'' = [OnError] \<and> subs m ''connect'' = [OnConnect] \<and> subs m ''disconnect'' = [OnDisconnect]
     \<and> subs m ''state'' = [OnState] \<and> subs m ''round'' = [OnRound]"

definition view_ok :: "game_view \<Rightarrow> bool" where
  "view_ok v \<longleftrightarrow>
     (\<exists>olds c. gv_clients v = olds @ [c] \<and> (\<forall>x \<in> set olds. \<not> gc_active x \<and> \<not> gc_up x)
        \<and> mounted_cbs (gc_cbs c) \<and> gc_active c
        \<and> (\<forall>gd. cl_data (gv_state v) = Some gd \<longrightarrow>
             gc_up c \<and> gv_received v \<noteq> [] \<and> last (gv_received v) = (length olds, gd)))"

lemma view_start_ok: "view_ok (view_start pid)"
  by (simp add: view_ok_def view_start_def effect_mount_def gc_connect_def set_gc_def new_GameClient_def mounted_cbs_def
      ev.listeners_reg ev.listeners_none client_init_def)

lemma active_last:
  assumes "gv_clients v = olds @ [c]" "\<forall>x \<in> set olds. \<not> gc_active x \<and> \<not> gc_up x" "k < length (gv_clients v)"
    "gc_active (gv_clients v ! k) \<or> gc_up (gv_clients v ! k)"
  shows "k = length olds"
  using assms by (auto simp: nth_append less_Suc_eq split: if_splits)

lemma cleanup_mount_ok:
  assumes "gv_clients v = olds @ [c]" "\<forall>x \<in> set olds. \<not> gc_active x \<and> \<not> gc_up x" "mounted_cbs (gc_cbs c)"
    "cl_data (gv_state v) \<noteq> None \<longrightarrow> gc_up c" "gc_playerId c \<noteq> pid"
  shows "\<exists>v'. give_player pid v = Inr v' \<and> view_ok v' \<and> cl_data (gv_state v') = None \<and> gv_received v' = gv_received v
    \<and> gc_playerId (last (gv_clients v')) = pid"
  using assms
  by (auto simp: give_player_def effect_cleanup_def gc_disconnect_def socket_disconnect_def gc_trigger_def trigger_with_subs
      mounted_cbs_def set_gc_def nth_append effect_mount_def gc_connect_def view_ok_def new_GameClient_def ev.listeners_reg
      ev.listeners_none Let_def list_update_append)

text \<open>The events of the socket of the last client.\<close>

lemma socket_ok:
  assumes "gv_clients v = olds @ [c]" "\<forall>x \<in> set olds. \<not> gc_active x \<and> \<not> gc_up x" "mounted_cbs (gc_cbs c)" "gc_active c"
    and shown: "\<forall>gd. cl_data (gv_state v) = Some gd \<longrightarrow>
             gc_up c \<and> gv_received v \<noteq> [] \<and> last (gv_received v) = (length olds, gd)"
  shows "\<not> gc_up c \<Longrightarrow> \<exists>v'. socket_connect (length olds) v = Inr v' \<and> view_ok v'"
    and "\<exists>v'. socket_disconnect (length olds) v = Inr v' \<and> view_ok v' \<and> cl_data (gv_state v') = None"
    and "gc_up c \<Longrightarrow> \<exists>v'. socket_state (length olds) gd v = Inr v' \<and> view_ok v' \<and> cl_data (gv_state v') = Some gd"
    and "\<exists>v'. manager_error (length olds) m v = Inr v' \<and> view_ok v'"
  using assms
  by (auto simp: socket_connect_def socket_disconnect_def socket_state_def manager_error_def gc_trigger_def
      trigger_with_subs mounted_cbs_def set_gc_def view_ok_def)

lemma link_step_ok:
  assumes "link_step v v'" "view_ok v"
  shows "view_ok v'"
proof -
  obtain olds c where v: "gv_clients v = olds @ [c]" "\<forall>x \<in> set olds. \<not> gc_active x \<and> \<not> gc_up x" "mounted_cbs (gc_cbs c)"
    "gc_active c" "\<forall>gd. cl_data (gv_state v) = Some gd \<longrightarrow>
             gc_up c \<and> gv_received v \<noteq> [] \<and> last (gv_received v) = (length olds, gd)"
    using assms(2) by (auto simp: view_ok_def)
  note ok = socket_ok [OF v]
  note last_one = active_last [OF v(1,2)]
  show ?thesis using assms(1)
  proof cases
    case (connects k)
    then show ?thesis using last_one [of k] ok(1) v(1) by fastforce
  next
    case (loses k)
    then show ?thesis using last_one [of k] ok(2) by fastforce
  next
    case (hears k gd)
    then show ?thesis using last_one [of k] ok(3) [of gd] v(1) by fastforce
  next
    case (errs k m)
    then show ?thesis using last_one [of k] ok(4) [of m] by fastforce
  next
    case (gives pid)
    show ?thesis
    proof (cases "gc_playerId c = pid")
      case True
      then have "give_player pid v = Inr v" by (simp add: give_player_def v(1))
      then show ?thesis using gives assms(2) by simp
    next
      case False
      then show ?thesis using cleanup_mount_ok [OF v(1-3) _ False] v(5) gives by fastforce
    qed
  qed
qed

lemma view_reached_ok: "link_step\<^sup>*\<^sup>* (view_start pid) v \<Longrightarrow> view_ok v"
  by (induction rule: rtranclp_induct) (auto intro: view_start_ok link_step_ok)

text \<open>
  Whatever happened: a game that is shown is the state that came last, to the player's own client; when the
  connection is lost or the screen is given another player nothing is shown, and none of it raises.
\<close>

lemma shown_is_last:
  assumes "link_step\<^sup>*\<^sup>* (view_start pid) v" "cl_data (gv_state v) = Some gd"
  shows "gc_up (last (gv_clients v)) \<and> gv_received v \<noteq> [] \<and> last (gv_received v) = (length (gv_clients v) - 1, gd)"
  using view_reached_ok [OF assms(1)] assms(2) by (auto simp: view_ok_def)

lemma other_player_shows_nothing:
  assumes "link_step\<^sup>*\<^sup>* (view_start pid) v" "gc_playerId (last (gv_clients v)) \<noteq> pid'"
  shows "\<exists>v'. give_player pid' v = Inr v' \<and> view_ok v' \<and> cl_data (gv_state v') = None
    \<and> gc_playerId (last (gv_clients v')) = pid'"
proof -
  obtain olds c where v: "gv_clients v = olds @ [c]" "\<forall>x \<in> set olds. \<not> gc_active x \<and> \<not> gc_up x" "mounted_cbs (gc_cbs c)"
    "\<forall>gd. cl_data (gv_state v) = Some gd \<longrightarrow> gc_up c \<and> gv_received v \<noteq> [] \<and> last (gv_received v) = (length olds, gd)"
    using view_reached_ok [OF assms(1)] by (auto simp: view_ok_def)
  then show ?thesis using cleanup_mount_ok [OF v(1-3), of pid'] assms(2) by auto
qed

end
