(* ===== verification/Spec2Isabelle.thy ===== *)
theory Spec2Isabelle
  imports Schedules ServerProps Mams ClientGame Screens Sound Build Calibration Config ErrorBar
    Quiet Saved Pages AdminPages Statements Helpers GameLink
begin

text \<open>
  A model of the deep-fake study platform: two participants, blue and red, talk over a voice server
  and play timed rounds of a game while the server injects recorded or synthesised speech into their
  conversation.

  Parts of the program and how they interact.
    The server (\<open>server/src\<close>) keeps study sessions (\<open>lib/session.ts\<close>). A session has a row in the
    database (\<open>lib/db.ts\<close>, \<open>db/init.sql\<close>), four games (\<open>lib/game.ts\<close>, rounds in \<open>lib/round\<close>, their
    data in \<open>const\<close>), attacks scheduled on rounds of these games (\<open>lib/attacklib.ts\<close>) and a voice
    server in a Docker container (\<open>lib/murmurlib.ts\<close>, \<open>lib/dockerlib.ts\<close>). Players and the
    administrator are connected by sockets (\<open>socketio/client.ts\<close>, \<open>socketio/admin.ts\<close>). Games are
    event emitters (\<open>common/ts/src/evented.ts\<close>): saving, sending the state, moving to the next game
    and launching an attack are callbacks on their events. The players' client is \<open>game/src/js\<close>;
    recordings are converted by \<open>mams-parser/main.ts\<close>. The administrator's client is \<open>admin/src/ts\<close>.
    Both clients are built by their \<open>scripts\<close>. Before the study participants record their voices on a
    page of their own (\<open>calibration_app/js/app.js\<close>).

  Theories.
    Prelude, Paths, JsText: exceptions, results, JavaScript's array and number operations, splitting and
      joining, \<open>parseInt\<close>; Node's paths.
    JsValue: untyped values, type guards, \<open>deepClone\<close> (\<open>common/ts/src\<close>).
    Evented: \<open>on\<close>, \<open>off\<close>, \<open>trigger\<close>; locale \<open>event_bus\<close>, interpreted as \<open>ev\<close>.
    Timers: the event loop's timers, \<open>scheduleTimer\<close>; locale \<open>timer_service\<close>, interpreted as \<open>tm\<close>.
    Rounds, Schedules: round objects, \<open>createRound\<close>, the shipped schedules.
    GameTypes, Game: the class \<open>Game\<close>, one definition per method. A method takes and returns the
      object and its environment (clock, timers, effects started so far); \<open>Inl\<close> is an uncaught
      exception. Methods and callbacks call each other, so \<open>trigger\<close> is a parameter of the methods and
      \<open>trigger_fuel\<close> closes the recursion with a bound on the depth of a cascade. The bound is 4: a
      readiness event starts the game, that goes to a round, that triggers the saving of the state.
    GameFacts: the cascades end within the bound; closed forms (\<open>_fx\<close>) of the methods.
    GameRun: the steps of a game under the event loop, reachable states, the invariant.
    GameProps: records are never changed, liveness and duration of a game.
    Util: \<open>aoe2ea\<close>, \<open>find\<close>, futures as state-passing computations; locale \<open>sequencing\<close> (\<open>fut\<close>).
    Restore: the JSON of a game, \<open>deserializeGame\<close>, \<open>resumeGame\<close>.
    World, Docker, Murmur: database, daemon, voice servers. Store, GameStore: games in memory and their
      rows; locale \<open>keyed_store\<close>, interpreted as \<open>mem\<close>. Sessions, SessionProps: sessions, attacks,
      the current game; what they do to the tables. Persist: what is saved, what a restart restores.
    Commands: the log, \<open>execF\<close>, the commands of an attack. Sockets: the handlers, as steps of the server.
    Views: a game among others: its view of the shared clock is the clock with the timers of other games
      left out, and every method does the same in the view as it does in the whole (a simulation).
    Process: the invariant \<open>world_inv\<close> of a process (every game in memory satisfies its invariant in its
      view, rows and stored states fit) and the event loop's steps. Lifecycle: memory and table have the
      same games under initialisation and removal; \<open>server_inv\<close>. Creation: \<open>createSession\<close> as a whole
      and its undoing. ServerProps: \<open>server_reaches\<close>, the steps of a server from its start on, and what
      follows from the invariant for connections, crashes and restarts.
    Processes: computations that wait between their actions, and a rely/guarantee calculus for them: the
      locale \<open>rely\<close>. Interleave: creation and removal of a session as sequences of actions (database
      accesses, requests to the daemon, code without waiting); alone they are the futures of Sessions.
    Overlap: \<open>among\<close> runs any number of requests of any kind at the same time with the steps of the
      server; locales \<open>request_steps\<close> (what each action of a request guarantees) and \<open>overlapping\<close> (then
      it holds at every moment). Sound: both interpreted for the soundness of a server (every game can go
      on, every timer has its game), over any number of lives of the process (\<open>history\<close>).
    Mams: the converter. ClientGame: questions, options, scores, clock and stages of the players' client.
    AdminClient: requests, form, lists and screens of the administrator's client, and what becomes of
      values and errors on the wire. ErrorBar: errors of the connection, from the emitter to the status
      bar. Screens: routes, the players' connection, lobby, round and review.
    GameLink: the screen and its socket: \<open>GameClient\<close>, the effect that connects it and its cleanup.
    Markup, Pages, AdminPages: the elements the components of both clients draw, as trees, and what a click
      on them does; \<open>child\<close> raises where React does, on an object as a child.
    Templates, Build: the replacement of variables in a page; the build of the clients, whose copies of
      files are tasks that run in any order. Calibration: the page that records voices, under a user and
      a browser that may do anything at any time. Config: variables, addresses, connections left open.
    Statements: \<open>run\<close>, \<open>all\<close>, \<open>exec\<close>, \<open>serialize\<close> and \<open>withDb\<close> on the connections of an engine; locale
      \<open>sql_engine\<close> (what SQLite documents of transactions and its lock), interpreted as \<open>sqlite_engine\<close> by an
      engine whose every use may fail. Helpers: files, sorting, the HTTP server.
    Quiet: \<open>server_work\<close>, the timers a server still has to run, which every timer lowers by one; \<open>at_rest\<close>.
    Saved: the state of a reachable game is saved, or it has just been answered.

  What the lemmas show. For one game: an invariant of all reachable states, exact conditions and
  effects of answers, progress and duration, what is saved and what a restart loses. For the server as a
  whole: every game in memory satisfies that invariant and has a row, each message of a player does to a
  game among others what it does to the game alone, a session is created completely or not at all, a
  process that dies can be started again, and a session moves on to its next game when one ends. For
  requests that overlap: nothing raises an uncaught exception but a database file that cannot be opened,
  the uniqueness the schema asks for holds (a lemma; each INSERT enforces it), and the next process has
  the games of the rows that belong to a session; but the games in memory do not survive an overlap. For
  the converter: what it reads back, what a recording becomes, and where it goes wrong. For the clients,
  end to end with the server: what a player sees after connecting, which states can be drawn, what can be
  clicked on each page, that the right option is the one that counts for the client and the server, that the
  administrator's list follows the server's games, that late answers do not reach the screen of another
  session, that red's page does not depend on the solutions, that a player's screen shows what came last to
  that player's connection, and that an administrator gets from the table of sessions to the screen of each.
  A server left alone comes to rest after a number of timers that is known, and what has ended is saved
  whole. A transaction is one access, unless its commit fails and its connection keeps the write lock. The
  build ends with every file in place whatever the order of its copies; but it can be over before the
  files in a directory are copied, and \<open>serve.ts\<close> can overwrite the page it has filled in. The calibration
  page switches the microphone off for a user who waits, in a browser where the set-up works, and can
  leave it on otherwise.

  Assumptions. SQLite, Docker, Node and socket.io are modelled by their documented behaviour; the
  daemon, random identifiers, the Opus decoder, the shell, \<open>decodeURI\<close>, \<open>JSON.parse\<close> of a hash and the
  output stream are parameters. Identifiers drawn are new (\<open>booting\<close>). Futures run as fluture runs them with
  \<open>parallel(1)\<close>: one after the other. The sources do not change during a build. Numbers are integers.
    The properties over \<open>server_reaches\<close> are about a server whose requests do not overlap within a
  handler, on a database that works and is never found between two statements of one handler. The
  properties over \<open>history\<close> drop this: requests overlap at every wait, any access to the database may
  fail (\<open>dbfate\<close>: the file cannot be opened, the statement fails, the connection cannot be closed), and the
  process may die and start again anywhere. In both the daemon never answers with a bare \<open>null\<close> (\<open>polite\<close>).
    Payloads of all sockets, the administrators' included, have the types the handlers declare, and an
  administrator's request comes with an acknowledgement; the \<open>_event\<close> definitions of Sockets say what
  a missing payload does, which is to raise before any future is made.
    What is said of the creation of a session assumes that no row refers to the id SQLite gives out
  next (\<open>unreferenced\<close>). Ids are given out again, foreign keys are not enforced, and a removal can leave
  games behind (\<open>removeSession_removes\<close>), so this can fail to hold.
    A failed statement leaves a transaction open or is rolled back with it by the engine, and a
  connection that is left open may be collected by the driver, which closes it (\<open>sql_engine\<close>, \<open>collected\<close>).
    React runs an effect after the paint: the id a session's screen is for, and the player a game screen is
  for, count here from the run of the effect that belongs to them.

  Not modelled: style sheets, and the components that have nothing else (a styled element is an element of
  its class); tests, the scripts that only
  call the bundler, and the parts in other languages (\<open>mumble\<close>, \<open>mumble-cli\<close>, \<open>fakes-prep\<close>). The bundler
  and the parts of the recorder library the calibration page does not use are parameters or left out.
\<close>

unbundle bit_operations_syntax

section \<open>Sample states for the witnesses\<close>

definition sample_env :: env where
  "sample_env = \<lparr>now = 1000, pending = [], nextTimer = 0, gameTimers = (\<lambda>_. None), out = []\<rparr>"

definition sample_players :: "player list" where
  "sample_players = map (\<lambda>s. createPlayer (Inl s)) [''ann'', ''bob'']"

definition sample_rounds :: "round list" where
  "sample_rounds = [new_ButtonRound 1 [0, 1, 2] (Some 10000), new_ButtonRound 0 [0, 1, 2] None]"

definition sample_game :: game where
  "sample_game = new_Game 0 ''g0'' sample_players sample_rounds None None"

definition sample_lobby :: gst where
  "sample_lobby = playerReady_fx 0 True (sample_game, sample_env)"

definition sample_running :: gst where
  "sample_running = playerReady_fx 1 True sample_lobby"

definition sample_answer :: answer where
  "sample_answer = \<lparr>a_round = 0, a_value = Some (JNum 1)\<rparr>"

definition sample_session :: session where
  "sample_session = \<lparr>sessionId = 7, blueParticipant = ''ann'', redParticipant = ''bob'', murmurPort = 64738, grpcPort = 50051\<rparr>"

definition sample_db :: db where
  "sample_db = \<lparr>t_session = [sample_session],
     t_game = [\<lparr>row_gameId = ''g0'', row_data = GameText (state sample_game), row_isCurrent = True,
                row_sessionId = 7, row_order = 0\<rparr>,
               \<lparr>row_gameId = ''g1'', row_data = GameText (state sample_game), row_isCurrent = False,
                row_sessionId = 7, row_order = 1\<rparr>],
     t_attack = [], t_murmur = []\<rparr>"

definition sample_world :: world where
  "sample_world = \<lparr>db = sample_db, dbcount = 0, dbfate = (\<lambda>_. Fine), genv = sample_env,
     objs = [sample_game, sample_game\<lparr>oid := 1, gameId := ''g1''\<rparr>], memGames = [0, 1], dirs = (\<lambda>_. None),
     docker_log = [], daemon = (\<lambda>_. NetError ''down''), recDirRoot = ''/rec'', fakesDir = ''/fakes'',
     uuids = (\<lambda>n. replicate n (CHR ''u'')), uuid_count = 0, crashed = None\<rparr>"

definition sample_server :: server where
  "sample_server = \<lparr>sw = sample_world, socks = (\<lambda>_. \<lparr>sd_playerId = None, sd_gameId = None, sd_active = False\<rparr>), sent = []\<rparr>"

lemmas sample_defs =
  sample_env_def sample_players_def sample_rounds_def sample_game_def sample_answer_def

lemma sample_idle: "idle_env sample_env"
  by (simp add: idle_env_def clock_ok_def sample_env_def)

lemma sample_reachable: "reachable (sample_game, sample_env)"
  unfolding sample_game_def
  by (rule reachable.created [OF _ _ _ _ sample_idle])
     (simp_all add: sample_rounds_def sample_players_def both_ready_def new_ButtonRound_def
       new_SingleRound_def new_Round_def fresh_round_def single_round_def)

text \<open>One player's readiness, then the other's: a step each.\<close>

lemma ready_step:
  assumes "reachable s" "find_index (\<lambda>p. playerId p = pid) (players (fst s)) = int i"
  shows "playerReady trigger pid True s = Inr (Inr (), playerReady_fx i True s)"
    and "reachable (playerReady_fx i True s)"
proof -
  obtain g e where s: "s = (g, e)" by fastforce
  have i: "i < length (players g)" using find_index_nth [OF assms(2)] s by simp
  show run: "playerReady trigger pid True s = Inr (Inr (), playerReady_fx i True s)"
    using assms game_inv_wf [OF reachable_inv [OF assms(1)]] i
    by (simp add: s method_eqs Let_def js_nth_def)
  show "reachable (playerReady_fx i True s)"
    by (rule reachable.step [OF assms(1) game_step.client_ready [OF run]])
qed

lemma sample_lobby_ready:
  "playerReady trigger ''ann'' True (sample_game, sample_env) = Inr (Inr (), sample_lobby)"
  "reachable sample_lobby"
  unfolding sample_lobby_def
  by (rule ready_step [OF sample_reachable], simp add: sample_defs new_Game_def)+

lemma sample_lobby_players: "map playerId (players (fst sample_lobby)) = [''ann'', ''bob'']"
  by (simp add: sample_lobby_def playerReady_fx_players sample_defs new_Game_def)

lemma sample_running_ready:
  "playerReady trigger ''bob'' True sample_lobby = Inr (Inr (), sample_running)"
  "reachable sample_running"
proof -
  have "find_index (\<lambda>p. playerId p = ''bob'') (players (fst sample_lobby)) = int 1"
    using sample_lobby_players by (cases "players (fst sample_lobby)") (auto simp: Let_def)
  from ready_step [OF sample_lobby_ready(2) this]
  show "playerReady trigger ''bob'' True sample_lobby = Inr (Inr (), sample_running)"
    "reachable sample_running"
    by (simp_all add: sample_running_def)
qed

text \<open>The running game in full, computed.\<close>

lemma sample_running_fields:
  "startTime (fst sample_running) = Some 1000" "currentRound (fst sample_running) = 0"
  "rounds (fst sample_running) = [(sample_rounds ! 0)\<lparr>rstartTime := Some 1000\<rparr>, sample_rounds ! 1]"
  "endTime (fst sample_running) = None" "gameId (fst sample_running) = ''g0''"
  "now (snd sample_running) = 1000"
  by (simp_all add: sample_running_def sample_lobby_def playerReady_fx_def start_fx_def gotoRound_fx_def
      both_ready_def sample_defs new_Game_def Let_def js_nth_def scheduleTimer_eq)

section \<open>Games\<close>

lemma answer_reachable_cases:
  assumes "reachable (g, e)"
  shows "answer trigger a (g, e) = Inr
    (case js_nth (rounds g) (a_round a) of
       None \<Rightarrow> (Inl ''invalid round number'', (g, e))
     | Some r \<Rightarrow>
         if open_round r then (Inr (fst (onAnswer (now e) a r)), answer_fx a (g, e))
         else (Inl (if rendTime r \<noteq> None then ''round ended'' else ''round not started''), (g, e)))"
  using answer_cases game_inv_wf [OF reachable_inv [OF assms]] by simp

lemma accepted_round:
  assumes "reachable (g, e)" and "answer trigger a (g, e) = Inr (Inr st, s')"
  obtains r where "js_nth (rounds g) (a_round a) = Some r" "open_round r" "single_round r"
    "st = fst (onAnswer (now e) a r)" "s' = answer_fx a (g, e)" "a_round a = currentRound g"
proof -
  obtain r where r: "js_nth (rounds g) (a_round a) = Some r" "open_round r"
      "st = fst (onAnswer (now e) a r)" "s' = answer_fx a (g, e)"
    using assms(2) answer_reachable_cases [OF assms(1), of a] by (auto split: option.splits if_splits)
  moreover have "single_round r"
    using r(1) reachable_inv [OF assms(1)]
    by (auto simp: js_nth_Some_iff game_inv_def game_base_def list_all_length)
  ultimately show ?thesis
    using that answer_fx_inv(1) [OF reachable_inv [OF assms(1)] r(1,2)] by blast
qed

text \<open>
  C3. Every state a game can reach (created or restored, under any sequence of messages, timers and
  subscriptions) satisfies the invariant: it waits for its players with fresh rounds and no timer, or
  plays its current round with exactly one timer, or has ended with no timer and no open round.
\<close>

theorem reachable_game_inv: "reachable s \<Longrightarrow> game_inv s"
  by (rule reachable_inv)

theorem reachable_game_inv_witness: "game_inv sample_running"
  by (rule reachable_game_inv [OF sample_running_ready(2)])

text \<open>
  No message and no timer makes a reachable game raise an exception, and the cascade of listeners
  it sets off always ends (within the depth 4 the model allows): every answer, every change of
  readiness and every pending timer has an outcome.
\<close>

lemma game_never_raises:
  assumes "reachable (g, e)"
  shows "(\<exists>out1. answer trigger a (g, e) = Inr out1) \<and> (\<exists>out2. playerReady trigger pid b (g, e) = Inr out2)
    \<and> (\<forall>i due act. (i, due, act) \<in> set (pending e) \<longrightarrow>
         (\<exists>s'. fire act (g, e\<lparr>pending := filter (\<lambda>p. fst p \<noteq> i) (pending e)\<rparr>) = Inr s'))"
proof (intro conjI allI impI)
  note inv = reachable_inv [OF assms]
  show "\<exists>out1. answer trigger a (g, e) = Inr out1" using answer_reachable_cases [OF assms] by blast
  show "\<exists>out2. playerReady trigger pid b (g, e) = Inr out2"
    using game_inv_wf [OF inv] by (simp add: method_eqs Let_def)
  fix i due act assume "(i, due, act) \<in> set (pending e)"
  note p = pending_cases(1) [OF inv this]
  then show "\<exists>s'. fire act (g, e\<lparr>pending := filter (\<lambda>p. fst p \<noteq> i) (pending e)\<rparr>) = Inr s'"
    using fire_eq [OF inv p] by auto
qed

text \<open>
  C9. A reachable game accepts an answer exactly when the game has started, the answer is for the
  current round, and that round has started and not ended.
\<close>

theorem answer_accepted_iff:
  assumes "reachable (g, e)"
  shows "\<exists>res s'. answer trigger a (g, e) = Inr (res, s') \<and>
    ((\<exists>st. res = Inr st) \<longleftrightarrow>
       startTime g \<noteq> None \<and> a_round a = currentRound g \<and>
       (\<exists>r. js_nth (rounds g) (currentRound g) = Some r \<and> rstartTime r \<noteq> None \<and> rendTime r = None))"
proof -
  note inv = reachable_inv [OF assms]
  have "startTime g \<noteq> None \<and> a_round a = currentRound g"
    if "js_nth (rounds g) (a_round a) = Some r" "open_round r" for r
    using open_round_current(1) [OF inv, of "nat (a_round a)"] answer_fx_inv(1) [OF inv that] that
    by (auto simp: js_nth_Some_iff)
  then show ?thesis
    using answer_reachable_cases [OF assms, of a]
    by (auto simp: open_round_def split: option.splits if_splits)
qed

theorem answer_accepted_iff_witness:
  "\<exists>st s'. answer trigger sample_answer (fst sample_running, snd sample_running) = Inr (Inr st, s')"
  using answer_accepted_iff [of "fst sample_running" "snd sample_running" sample_answer] sample_running_ready(2)
  by (auto simp: sample_running_fields js_nth_def sample_answer_def sample_rounds_def new_ButtonRound_def
      new_SingleRound_def new_Round_def)

text \<open>
  C10. A refused answer changes nothing, not even a timer, and says why: the round does not exist, has
  ended, or has not started.
\<close>

theorem refused_answer_changes_nothing:
  assumes "reachable (g, e)" and "answer trigger a (g, e) = Inr (Inl m, s')"
  shows "s' = (g, e) \<and>
    (case js_nth (rounds g) (a_round a) of
       None \<Rightarrow> m = ''invalid round number''
     | Some r \<Rightarrow> if rendTime r \<noteq> None then m = ''round ended'' else m = ''round not started'' \<and> rstartTime r = None)"
  using assms(2) answer_reachable_cases [OF assms(1), of a]
  by (auto simp: open_round_def split: option.splits if_splits)

theorem refused_answer_changes_nothing_witness:
  "answer trigger (sample_answer\<lparr>a_round := 1\<rparr>) (sample_game, sample_env) =
     Inr (Inl ''round not started'', (sample_game, sample_env))
   \<and> (case js_nth (rounds sample_game) 1 of None \<Rightarrow> False | Some r \<Rightarrow> rstartTime r = None)"
proof -
  have run: "answer trigger (sample_answer\<lparr>a_round := 1\<rparr>) (sample_game, sample_env) =
     Inr (Inl ''round not started'', (sample_game, sample_env))"
    using answer_reachable_cases [OF sample_reachable, of "sample_answer\<lparr>a_round := 1\<rparr>"]
    by (simp add: sample_defs new_Game_def js_nth_def open_round_def new_ButtonRound_def
        new_SingleRound_def new_Round_def)
  from refused_answer_changes_nothing [OF sample_reachable this] run show ?thesis
    by (auto simp: sample_defs new_Game_def js_nth_def new_ButtonRound_def new_SingleRound_def
        new_Round_def)
qed

text \<open>
  C11. An accepted answer ends its round and nothing else: the round records the value and the time,
  every other field of the game stays, the status is 1 for the right value and -1 otherwise, the
  timeout of the round is cancelled, and the only timer left moves to the next round in one second.
\<close>

theorem accepted_answer_effect:
  assumes "reachable (g, e)" and "answer trigger a (g, e) = Inr (Inr st, (g', e'))"
  shows "g' = g\<lparr>rounds := (rounds g)[nat (a_round a) :=
            (rounds g ! nat (a_round a))\<lparr>ranswer := a_value a, rendTime := Some (now e)\<rparr>]\<rparr>
    \<and> st = (if correct_round (rounds g' ! nat (a_round a)) then 1 else - 1)
    \<and> (\<exists>t. pending e' = [(t, now e + 1000, GotoTimeout (oid g) (a_round a + 1))])"
proof -
  obtain r where r: "js_nth (rounds g) (a_round a) = Some r" "open_round r" "single_round r"
    "st = fst (onAnswer (now e) a r)" "(g', e') = answer_fx a (g, e)"
    using accepted_round [OF assms] by metis
  have rk: "nat (a_round a) < length (rounds g)" "rounds g ! nat (a_round a) = r"
    using r(1) by (auto simp: js_nth_Some_iff)
  obtain t due where p: "pending e = [(t, due, AnswerTimeout (oid g) (currentRound g))]" "gameTimers e (gameId g) = Some t"
    using open_round_current(5) [OF reachable_inv [OF assms(1)] rk(1)] r(2) rk(2) by auto
  have "onAnswer (now e) a r = (st, r\<lparr>ranswer := a_value a, rendTime := Some (now e)\<rparr>)"
    using onAnswer_single [OF r(3)] r(4) by (simp add: prod_eq_iff)
  moreover have "st = 1 \<longleftrightarrow> correct_round (r\<lparr>ranswer := a_value a, rendTime := Some (now e)\<rparr>)"
    using onAnswer_correct [OF r(3), of "now e" a] calculation by simp
  ultimately show ?thesis
    using r(4,5) rk p onAnswer_status [of "now e" a r]
    by (auto simp: answer_fx_def Let_def setTimeout_def pending_clearTimeout)
qed

theorem accepted_answer_effect_witness:
  "\<exists>st g' e'. answer trigger sample_answer sample_running = Inr (Inr st, (g', e'))
     \<and> rendTime (rounds g' ! 0) = Some 1000 \<and> st = 1"
proof -
  obtain g e where s: "sample_running = (g, e)" by fastforce
  have reach: "reachable (g, e)" using sample_running_ready(2) s by simp
  have f: "rounds g = [(sample_rounds ! 0)\<lparr>rstartTime := Some 1000\<rparr>, sample_rounds ! 1]" "now e = 1000"
    using sample_running_fields unfolding s by simp_all
  obtain st g' e' where run: "answer trigger sample_answer (g, e) = Inr (Inr st, (g', e'))"
    using answer_reachable_cases [OF reach, of sample_answer] f
    by (cases "answer_fx sample_answer (g, e)")
       (simp add: js_nth_def sample_answer_def sample_rounds_def open_round_def new_ButtonRound_def
        new_SingleRound_def new_Round_def)
  from accepted_answer_effect [OF reach run] run s show ?thesis
    by (auto simp: f sample_answer_def sample_rounds_def correct_round_def new_ButtonRound_def
        new_SingleRound_def new_Round_def)
qed

text \<open>
  C12. What a game has recorded it never changes: an ended round stays as it is, the current round
  never goes back, and the start and end times, once set, stay, whatever happens afterwards.
\<close>

theorem recorded_stays:
  assumes "reachable s" and "game_step\<^sup>*\<^sup>* s s'"
  shows "length (rounds (fst s')) = length (rounds (fst s))
    \<and> (\<forall>i < length (rounds (fst s)). rendTime (rounds (fst s) ! i) \<noteq> None \<longrightarrow>
         rounds (fst s') ! i = rounds (fst s) ! i)
    \<and> currentRound (fst s) \<le> currentRound (fst s')
    \<and> (startTime (fst s) \<noteq> None \<longrightarrow> startTime (fst s') = startTime (fst s))
    \<and> (endTime (fst s) \<noteq> None \<longrightarrow> endTime (fst s') = endTime (fst s))"
  using steps_advance [OF assms(2) reachable_inv [OF assms(1)]] advance_length
  unfolding advance_def by metis

theorem recorded_stays_witness:
  "startTime (fst (fst sample_running, (snd sample_running)\<lparr>now := 1500\<rparr>)) = Some 1000"
proof -
  have "game_step sample_running (fst sample_running, (snd sample_running)\<lparr>now := 1500\<rparr>)"
    using game_step.tick [of 500 "fst sample_running" "snd sample_running"] sample_running_fields(6) by simp
  then have "game_step\<^sup>*\<^sup>* sample_running (fst sample_running, (snd sample_running)\<lparr>now := 1500\<rparr>)"
    by (rule r_into_rtranclp)
  from recorded_stays [OF sample_running_ready(2) this]
  show ?thesis using sample_running_fields(1) by simp
qed

text \<open>
  C13. A step starts a waiting game exactly when it leaves both players ready, and the start time is
  the time of that step.
\<close>

theorem starts_exactly_when_ready:
  assumes "reachable s" and "game_step s s'" and "startTime (fst s) = None"
  shows "(startTime (fst s') \<noteq> None \<longleftrightarrow> both_ready (players (fst s')))
    \<and> startTime (fst s') \<in> {None, Some (now (snd s))}"
proof -
  have "lobby_inv s'" if "startTime (fst s') = None"
    using game_inv_lobby [of "fst s'" "snd s'"] reachable_inv [OF reachable.step [OF assms(1,2)]] that by simp
  then show ?thesis
    using step_starts [OF assms(2) reachable_inv [OF assms(1)] assms(3)]
    by (cases s'; cases "startTime (fst s')") (auto simp: lobby_inv_def)
qed

theorem starts_exactly_when_ready_witness:
  "both_ready (players (fst sample_running)) \<and> startTime (fst sample_lobby) = None"
proof -
  have "startTime (fst sample_lobby) = None"
    by (simp add: sample_lobby_def playerReady_fx_def both_ready_def sample_defs new_Game_def Let_def)
  with starts_exactly_when_ready [OF sample_lobby_ready(2) game_step.client_ready [OF sample_running_ready(1)]]
  show ?thesis using sample_running_fields(1) by simp
qed

text \<open>
  A started game ends even if nobody ever answers: after at most two timers per round it is past
  its last round, has an end time, and has no timer left.
\<close>

lemma idle_game_ends:
  assumes "reachable (g, e)" and "startTime g \<noteq> None"
  shows "timers_left g \<le> 2 * length (rounds g) \<and>
    (\<exists>g' e'. run_timers (timers_left g) (g, e) = Inr (g', e') \<and> game_inv (g', e')
      \<and> currentRound g' = int (length (rounds g')) \<and> endTime g' \<noteq> None \<and> pending e' = [])"
  using run_timers_ends [OF reachable_inv [OF assms(1)] assms(2)]
  by (auto simp: timers_left_def Let_def)



section \<open>What is saved, and what a restart makes of it\<close>

text \<open>
  C14. When an answer is accepted, the last state that is saved (and sent) is the one before the
  answer, which differs from the state the game is in: the answer itself is saved with the next
  event, one second later.
\<close>

theorem answer_saved_late:
  assumes "reachable (g, e)" and "answer trigger a (g, e) = Inr (Inr st, (g', e'))"
  shows "last_saved (gameId g) (out e') = Some (state g) \<and> state g' \<noteq> state g"
proof -
  obtain r where r: "js_nth (rounds g) (a_round a) = Some r" "open_round r" "single_round r"
    "(g', e') = answer_fx a (g, e)"
    using accepted_round [OF assms] by metis
  have sv: "saving g" using reachable_saving [OF assms(1)] by simp
  have rk: "nat (a_round a) < length (rounds g)" "rounds g ! nat (a_round a) = r"
    using r(1) by (auto simp: js_nth_Some_iff)
  have "map rendTime (rounds g') \<noteq> map rendTime (rounds g)"
  proof
    assume "map rendTime (rounds g') = map rendTime (rounds g)"
    then have "map rendTime (rounds g') ! nat (a_round a) = map rendTime (rounds g) ! nat (a_round a)" by simp
    then show False using rk r(2) r(3,4)
      by (auto simp: answer_fx_def Let_def onAnswer_single open_round_def)
  qed
  moreover have "map rd_endTime (gd_rounds (state h)) = map rendTime (rounds h)" for h
    by (simp add: state_def round_state_def)
  ultimately have "state g' \<noteq> state g" by metis
  then show ?thesis using answer_fx_saves [OF sv, where a = a and e = e] by (simp flip: r(4))
qed

theorem answer_saved_late_witness:
  "\<exists>g' e' st. answer trigger sample_answer sample_running = Inr (Inr st, (g', e'))
     \<and> last_saved ''g0'' (out e') = Some (state (fst sample_running))"
proof -
  obtain g e where s: "sample_running = (g, e)" by fastforce
  have reach: "reachable (g, e)" using sample_running_ready(2) s by simp
  have f: "rounds g = [(sample_rounds ! 0)\<lparr>rstartTime := Some 1000\<rparr>, sample_rounds ! 1]" "gameId g = ''g0''"
    using sample_running_fields unfolding s by simp_all
  obtain st g' e' where run: "answer trigger sample_answer (g, e) = Inr (Inr st, (g', e'))"
    using answer_reachable_cases [OF reach, of sample_answer] f
    by (cases "answer_fx sample_answer (g, e)")
       (simp add: js_nth_def sample_answer_def sample_rounds_def open_round_def new_ButtonRound_def
        new_SingleRound_def new_Round_def)
  from answer_saved_late [OF reach run] run f show ?thesis unfolding s by auto
qed

text \<open>
  Every other event leaves the state it produces as the last one saved: a change of readiness
  (with the start it may bring) and the change to a round (or to the end).
\<close>

lemma other_events_save_state:
  assumes "reachable (g, e)"
  shows "(playerReady trigger pid b (g, e) = Inr (Inr (), s1) \<longrightarrow> saves_state s1)
    \<and> (gotoRound trigger k (g, e) = Inr (res, s2) \<longrightarrow> saves_state s2)"
proof -
  have sv: "saving g" using reachable_saving [OF assms] by simp
  show ?thesis
    using game_inv_wf [OF reachable_inv [OF assms]] gotoRound_fx_saves [of "(g, e)"]
      playerReady_fx_saves [of "(g, e)"] sv
    by (auto simp: method_eqs Let_def split: if_splits)
qed

text \<open>
  On a database that answers, running the effects of games in order leaves in a game's row the
  last state saved for it, and a row for which none was saved as it was.
\<close>

lemma rows_hold_last_saved:
  assumes "db_works w" and "row_of gid (db w) = Some r"
  shows "map_option row_data (row_of gid (db (run_effects xs w))) =
    Some (case last_saved gid xs of None \<Rightarrow> row_data r | Some gd \<Rightarrow> GameText gd)"
  using run_effects_saved [OF assms(1), of gid xs] assms(2) by (auto split: option.split)

text \<open>
  C16. Once a game has ended nothing of it is missing from the database: its row holds the very state it
  is in, with every answer, after what it has had saved has been written.
\<close>

theorem ended_game_saved:
  assumes "reachable (g, e)" and "endTime g \<noteq> None"
    and "db_works w" and "row_of (gameId g) (db w) = Some r"
  shows "map_option row_data (row_of (gameId g) (db (run_effects (out e) w))) = Some (GameText (state g))"
  unfolding rows_hold_last_saved [OF assms(3,4)] ended_saved [OF assms(1,2)] by simp

text \<open>A game that is restored behind its last round ends at once.\<close>

definition sample_over_world :: world where
  "sample_over_world = sample_world\<lparr>db := sample_db\<lparr>t_game := [created_row 7 0 True sample_game]\<rparr>\<rparr>"

definition sample_over :: gst where
  "sample_over = gotoRound_fx 2 (new_Game 0 ''g0'' sample_players sample_rounds (Some 2) (Some 900), sample_env)"

lemma sample_over_reachable: "reachable sample_over" "endTime (fst sample_over) \<noteq> None" "gameId (fst sample_over) = ''g0''"
proof -
  let ?g = "new_Game 0 ''g0'' sample_players sample_rounds (Some 2) (Some 900)"
  have wf: "wf_game ?g" by (rule wf_new_Game)
  have rs: "rounds ?g = sample_rounds" by (simp add: new_Game_def)
  show "reachable sample_over"
    unfolding sample_over_def
    by (rule reachable.resumed [where cur = 2 and res = "Inl ''round does not exit''" and rs = sample_rounds
        and ps = sample_players and i = 0 and gid = "''g0''" and t = 900, OF _ _ _ sample_idle])
       (simp_all add: method_eqs wf rs, simp_all add: sample_rounds_def sample_players_def new_ButtonRound_def
         new_SingleRound_def new_Round_def fresh_round_def single_round_def js_nth_def)
  show "endTime (fst sample_over) \<noteq> None" "gameId (fst sample_over) = ''g0''"
    by (simp_all add: sample_over_def gotoRound_fx_def stop_fx_def new_Game_def sample_rounds_def js_nth_def Let_def)
qed

theorem ended_game_saved_witness:
  "\<exists>r. row_of ''g0'' (db sample_over_world) = Some r
    \<and> map_option row_data (row_of ''g0'' (db (run_effects (out (snd sample_over)) sample_over_world)))
      = Some (GameText (state (fst sample_over)))"
proof -
  have "row_of ''g0'' (db sample_over_world) = Some (created_row 7 0 True sample_game)" "db_works sample_over_world"
    by (simp_all add: sample_over_world_def sample_world_def sample_db_def db_works_def row_of_def created_row_def
        sample_game_def new_Game_def)
  then show ?thesis
    using ended_game_saved [of "fst sample_over" "snd sample_over" sample_over_world] sample_over_reachable by simp
qed

text \<open>
  Restarting from the stored state of a reachable game (with rounds that \<open>createRound\<close> makes)
  gives a reachable game again, so everything proved of reachable games holds after any number of
  restarts.
\<close>

lemma restart_is_reachable:
  assumes "reachable (g, e)" and "list_all restorable (rounds g)" and "idle_env e0"
  shows "\<exists>g' e'. deserializeGame i (state g) e0 = Inr (Inr g', e') \<and> reachable (g', e')"
  by (rule restart_reachable [OF assms])

text \<open>
  C15. A restart keeps a started game's id, players, position and start time, and loses every answer
  and end of a round; it saves the state it rebuilds, so the answers are lost in the database too. A
  game that had ended gets the time of the restart as its end time.
\<close>

theorem restart_forgets_answers:
  assumes "list_all restorable (rounds g)" and "startTime g = Some t"
    and "deserializeGame i (state g) e0 = Inr (Inr g', e')"
  shows "gameId g' = gameId g \<and> players g' = players g \<and> currentRound g' = currentRound g
    \<and> startTime g' = startTime g \<and> length (rounds g') = length (rounds g)
    \<and> (\<forall>r \<in> set (rounds g'). ranswer r = None \<and> rendTime r = None)
    \<and> endTime g' = (if js_nth (rounds g) (currentRound g) = None then Some (now e0) else None)
    \<and> last_saved (gameId g') (out e') = Some (state g')"
  using restart_fields [OF assms] by (simp add: saves_state_def)

theorem restart_forgets_answers_witness:
  "\<exists>g' e'. deserializeGame 5 (state (fst sample_running)) sample_env = Inr (Inr g', e')
     \<and> startTime g' = Some 1000 \<and> (\<forall>r \<in> set (rounds g'). ranswer r = None)"
proof -
  have "list_all restorable (rounds (fst sample_running))"
    by (simp add: sample_running_fields sample_rounds_def restorable_def single_round_def
        new_ButtonRound_def new_SingleRound_def new_Round_def)
  moreover from this obtain g' e' where "deserializeGame 5 (state (fst sample_running)) sample_env = Inr (Inr g', e')"
    using restart_reachable [of "fst sample_running" "snd sample_running" sample_env 5] sample_running_ready(2) sample_idle
    by auto
  ultimately show ?thesis
    using restart_forgets_answers [of "fst sample_running" 1000 5 sample_env g' e'] sample_running_fields(1)
    by auto
qed

section \<open>Shared types, events, timers\<close>

text \<open>
  That \<open>state\<close> has the fields it is defined with is a lemma on the JSON of the object: cloning a game through
  JSON and reading the result at the type of stored games gives them, whatever callbacks are registered on
  it (they become nulls in the text and are not read).
\<close>

lemma state_json_roundtrip: "\<exists>w. deepClone (game_obj g) = Inr w \<and> as_game_data w = Some (state g)"
  by (rule game_obj_state)


lemma isRoundData_round:
  assumes "ranswer r = None \<or> (\<exists>n. ranswer r = Some (JNum n))"
  shows "isRoundData (the (jclone (round_obj r))) = Inr True"
proof -
  let ?w = "the (jclone (round_obj r))"
  have nn: "\<not> nullish ?w" by (cases ?w) (use round_obj_fields(2) [of r] in auto)
  have name: "isRoundName (JStr (round_name_str (rname r)))" by (cases "rname r") (simp_all add: isRoundName_def)
  have opt: "opt_js (map_option JNum t) = JUndef \<or> is_num (opt_js (map_option JNum t))" for t
    by (cases t) (simp_all add: opt_js_def)
  have ans: "opt_js (Option.bind (ranswer r) jclone) = JUndef \<or> isSolution (opt_js (Option.bind (ranswer r) jclone))"
    using assms by (auto simp: opt_js_def)
  have sol: "isSolution (case kind r of SingleK sol _ \<Rightarrow> JNum sol | SequenceK sol \<Rightarrow> JArr (map JNum sol))"
    by (cases "kind r") (simp_all add: list_all_iff)
  show ?thesis using nn name opt ans sol by (simp add: isRoundData_def round_obj_fields(2-))
qed

lemma game_obj_no_endTine: "fld (the (jclone (game_obj g))) ''endTine'' = JUndef"
proof -
  obtain kvs where kvs: "game_obj g = JObj kvs" by (simp add: game_obj_def)
  have "map fst kvs = [''cbMap'', ''currentRound'', ''rounds'', ''gameId'', ''players'', ''startTime'', ''endTime'']"
    using kvs by (auto simp: game_obj_def)
  then have "distinct (map fst kvs)" and "map_of kvs ''endTine'' = None"
    by (simp, auto simp: map_of_eq_None_iff simp flip: set_map)
  with fld_clone [of kvs _ "''endTine''"] game_obj_fields(1) [of g] kvs show ?thesis by simp
qed

text \<open>
  The guard \<open>isGameData\<close> accepts the JSON of every game whose answers are numbers, whatever its
  rounds, times and callbacks.
\<close>

lemma guard_accepts_states:
  assumes "\<forall>r \<in> set (rounds g). ranswer r = None \<or> (\<exists>n. ranswer r = Some (JNum n))"
  shows "\<exists>w. deepClone (game_obj g) = Inr w \<and> isGameData w = Inr True"
proof -
  let ?w = "the (jclone (game_obj g))"
  have nn: "\<not> nullish ?w" by (cases ?w) (use game_obj_fields(3) [of g] in auto)
  have ps: "every isPlayer (JArr (map player_obj (players g))) = Inr True"
    by (simp add: every_list_True isPlayer_def player_obj_def)
  have rs: "every isRoundData (JArr (map (\<lambda>r. the (jclone (round_obj r))) (rounds g))) = Inr True"
    using assms isRoundData_round by (simp add: every_list_True)
  have opt: "opt_js (map_option JNum t) = JUndef \<or> is_num (opt_js (map_option JNum t))" for t
    by (cases t) (simp_all add: opt_js_def)
  have "isGameData ?w = Inr True"
    using nn ps rs opt
    by (simp add: isGameData_def game_obj_fields(2-) game_obj_no_endTine del: every.simps)
  then show ?thesis using game_obj_fields(1) [of g] by (auto simp: deepClone_def split: option.split)
qed

section \<open>Schedules and attacks\<close>

text \<open>
  A round made from an entry of a schedule: it has the entry's name, length, solution and options, nothing
  has been recorded in it, a restart can make it again, a timer can run for its length, and of its options
  exactly the entry's solution is taken for the right answer.
\<close>

definition made_from :: "round_data \<Rightarrow> round \<Rightarrow> bool" where
  "made_from d r \<longleftrightarrow>
     rname r = rd_name d \<and> Some (msLength r) = rd_msLength d \<and> 0 < msLength r \<and> node_delay (msLength r) = msLength r
     \<and> fresh_round r \<and> restorable r
     \<and> (\<exists>sol opts. rd_solution d = SNum sol \<and> rd_options d = Some opts \<and> kind r = SingleK sol opts \<and> sol \<in> set opts
          \<and> (\<forall>now k v. fst (onAnswer now \<lparr>a_round = k, a_value = Some v\<rparr> r) = 1 \<longleftrightarrow> v = JNum sol))"

lemma playable_created:
  assumes "playable d"
  shows "\<exists>r. createRound d = Inr r \<and> made_from d r"
proof -
  obtain sol opts ms where d: "rd_name d = Button" "rd_solution d = SNum sol" "rd_options d = Some opts"
      "rd_msLength d = Some ms" "sol \<in> set opts" "0 < ms" "ms \<le> 2147483647"
    using assms by (auto simp: playable_def split: solution.splits option.splits)
  then have "createRound d = Inr (new_ButtonRound sol opts (Some ms))"
    by (simp add: createRound_def createButtonRound_def isButtonRoundData_def isSingleRoundData_def)
  then show ?thesis using createRound_Inr(2) [of d] createRound_restorable [of d] d
    by (auto simp: made_from_def new_ButtonRound_def new_SingleRound_def new_Round_def node_delay_def onAnswer_def
        SingleRound_onAnswer_def Let_def)
qed

lemma playables_created:
  "list_all playable s \<Longrightarrow> \<exists>rs. aoe2ea (map createRound s) = Inr rs \<and> list_all2 made_from s rs"
proof (induction s)
  case (Cons d s)
  then obtain r rs where "createRound d = Inr r" "made_from d r" "aoe2ea (map createRound s) = Inr rs" "list_all2 made_from s rs"
    using playable_created [of d] by auto
  then show ?case by simp
qed simp

text \<open>
  C19. Every shipped schedule becomes rounds that can be played and restored: one for each entry, in order,
  made from that entry, with its length, which is positive and within the range of a Node timer, and its
  solution, which is among its options.
\<close>

theorem shipped_schedules_playable:
  assumes "s \<in> set shipped"
  shows "\<exists>rs. aoe2ea (map createRound s) = Inr rs \<and> list_all2 made_from s rs"
  using playables_created shipped_playable [OF assms] by (simp add: list_all_iff)

theorem shipped_schedules_playable_witness:
  "\<exists>rs. aoe2ea (map createRound gameSchedule0) = Inr rs \<and> length rs = 20 \<and> msLength (rs ! 3) = 10000"
proof -
  obtain rs where rs: "aoe2ea (map createRound gameSchedule0) = Inr rs" "list_all2 made_from gameSchedule0 rs"
    using shipped_schedules_playable [of gameSchedule0] by (auto simp: shipped_def gameSchedules_def)
  have n: "length gameSchedule0 = 20" "gameSchedule0 ! 3 = button 2 10000 (Some 0)" by (simp_all add: gameSchedule0_def)
  have "made_from (gameSchedule0 ! 3) (rs ! 3)" using list_all2_nthD [OF rs(2), of 3] n(1) by simp
  then show ?thesis using rs list_all2_lengthD [OF rs(2)] n by (auto simp: made_from_def button_def)
qed

text \<open>
  In every shipped schedule an attack is followed by another round, in which the attacked player
  is heard again.
\<close>

lemma attacks_have_next_round:
  assumes "s \<in> set shipped" and "i \<in> set (attack_rounds s)"
  shows "Suc i < length s \<and> rd_attack (s ! Suc i) = None"
proof -
  have "list_all (\<lambda>s. list_all (\<lambda>i. Suc i < length s \<and> rd_attack (s ! Suc i) = None) (attack_rounds s)) shipped"
    by code_simp
  then show ?thesis using assms unfolding list_all_iff by blast
qed

text \<open>
  C20. A game on which an attack is scheduled launches it when it goes to the attack's round, lifts
  the mute when it goes to the round after it, and does neither at any other round.
\<close>

theorem attack_launch_and_unmute:
  assumes "wf_game g" and "AttackListener a port \<in> set (subs (cbMap g) EvRound)"
    and "js_nth (rounds g) k = Some r" and "gotoRound trigger k (g, e) = Inr (res, (g', e'))"
  shows "(AttackLaunch a port \<in> set (drop (length (out e)) (out e')) \<longleftrightarrow> k = att_round a)
    \<and> (AttackUnmute a port \<in> set (drop (length (out e)) (out e')) \<longleftrightarrow> k = att_round a + 1)"
proof -
  let ?g1 = "g\<lparr>currentRound := k, rounds := (rounds g)[nat k := r\<lparr>rstartTime := Some (now e)\<rparr>]\<rparr>"
  have "(g', e') = gotoRound_fx k (g, e)" using assms(1,4) by (simp add: method_eqs)
  then have "out e' = out e @ event_out EvRound (RoundArg k) ?g1"
    using assms(3) by (simp add: gotoRound_fx_def Let_def)
  then have new: "drop (length (out e)) (out e') = event_out EvRound (RoundArg k) ?g1" by simp
  have no_attack: "AttackLaunch a port \<notin> set (leaf_out NoArg l h)" "AttackUnmute a port \<notin> set (leaf_out NoArg l h)" for l h
    by (cases l; simp)+
  have no: "AttackLaunch a port \<notin> set (state_out ?g1)" "AttackUnmute a port \<notin> set (state_out ?g1)"
    using no_attack by (auto simp: state_out_def)
  have leaf: "AttackLaunch a port \<in> set (leaf_out (RoundArg k) l ?g1) \<longleftrightarrow> l = AttackListener a port \<and> k = att_round a"
    "AttackUnmute a port \<in> set (leaf_out (RoundArg k) l ?g1) \<longleftrightarrow> l = AttackListener a port \<and> k = att_round a + 1" for l
    by (cases l; auto)+
  show ?thesis using assms(2) no unfolding new event_out_def by (auto simp: leaf split: if_splits)
qed

theorem attack_launch_and_unmute_witness:
  "\<exists>a g' e' res. gotoRound trigger 1 (sample_game\<lparr>cbMap := on EvRound (AttackListener a 50051) (cbMap sample_game)\<rparr>, sample_env)
     = Inr (res, (g', e')) \<and> AttackLaunch a 50051 \<in> set (out e')"
proof -
  let ?a = "\<lparr>attackId = 1, att_sessionId = 7, att_gameId = ''g0'', att_round = 1, sourceUser = ''ann'',
    targetUser = ''bob'', audioPath = ''/fakes/ann/0.wav''\<rparr>"
  let ?g = "sample_game\<lparr>cbMap := on EvRound (AttackListener ?a 50051) (cbMap sample_game)\<rparr>"
  have wf: "wf_game ?g" by (rule wf_game_on) (simp_all add: sample_game_def)
  have l: "AttackListener ?a 50051 \<in> set (subs (cbMap ?g) EvRound)" by (simp add: ev.listeners_reg)
  have n: "js_nth (rounds ?g) 1 = Some (sample_rounds ! 1)" by (simp add: sample_defs new_Game_def js_nth_def)
  obtain res g' e' where run: "gotoRound trigger 1 (?g, sample_env) = Inr (res, (g', e'))"
    using wf by (cases "gotoRound_fx 1 (?g, sample_env)") (simp add: method_eqs)
  from attack_launch_and_unmute [OF wf l n run] run show ?thesis
    by (auto simp: sample_env_def dest: in_set_dropD)
qed

section \<open>Stores and sessions\<close>

text \<open>
  A game put in memory is the one found under its id, a game removed is found no more, and
  neither changes what is found under any other id.
\<close>

lemma memory_lookup:
  assumes "mem_ok (game_key w) (memGames w)"
  shows "getGame gid (setMemGame i w) = (if gid = game_key w i then Inr i else getGame gid w)
    \<and> (in_memory w (game_key w i) \<longrightarrow>
        getGame gid (removeMemGame i w) = (if gid = game_key w i then Inl ''Game not found.'' else getGame gid w))"
proof -
  have key: "game_key (setMemGame i w) = game_key w" "game_key (removeMemGame i w) = game_key w"
    by (simp_all add: game_key_def fun_eq_iff)
  have "getGame gid (setMemGame i w) = (if gid = game_key w i then Inr i else getGame gid w)"
    using mem.get_put [OF assms, of gid i] unfolding getGame_def key by (simp add: setMemGame_def)
  moreover have "getGame gid (removeMemGame i w) = (if gid = game_key w i then Inl ''Game not found.'' else getGame gid w)"
    if "in_memory w (game_key w i)"
  proof -
    have "mem_get (game_key w) (game_key w i) (memGames w) \<noteq> None"
      using that by (simp add: in_memory_iff mem_get_None)
    from mem.get_del [OF assms this, of gid] show ?thesis
      unfolding getGame_def key by (simp add: removeMemGame_def)
  qed
  ultimately show ?thesis by blast
qed

text \<open>
  The constraints of the schema (unique ids, participants, ports, containers' names) hold of the
  tables at every moment, while any number of requests of administrators and connections of players are
  under way at the same time, with messages, timers and effects of games between any two of their
  actions, whatever fails on the way.
\<close>

lemma schema_always_holds:
  assumes "among\<^sup>*\<^sup>* (s, []) (s', js)" and "db_ok (db (sw s))"
  shows "db_ok (db (sw s'))"
  using schema.overlap [OF assms] by simp

lemma sample_db_ok: "db_ok (db sample_world)"
  by (simp add: sample_world_def sample_db_def db_ok_def)

text \<open>Two requests at the same time, whose actions come in the order \<open>ks\<close>.\<close>

lemma two_jobs:
  assumes "fold advance ks (sw s, [p, q]) = (w, js)"
    and "among (s, []) (s, [p])" and "among (s, [p]) (s, [p, q])"
  shows "among\<^sup>*\<^sup>* (s, []) (s\<lparr>sw := w\<rparr>, js)"
  using schedule_among [OF assms(1)] assms(2,3) by (meson converse_rtranclp_into_rtranclp)

text \<open>
  After \<open>setCurrentGame\<close> for a game of the session, exactly that game of the session is current,
  and the rows of other sessions are as before.
\<close>

lemma one_current_game:
  assumes "db_works w" and "db_ok (db w)" and "r \<in> set (t_game (db w))"
    and "row_gameId r = gid" and "row_sessionId r = sid"
  shows "map row_gameId (filter (\<lambda>r. row_sessionId r = sid \<and> row_isCurrent r)
      (t_game (db (snd (setCurrentGame sid gid w))))) = [gid]
    \<and> filter (\<lambda>r. row_sessionId r \<noteq> sid) (t_game (db (snd (setCurrentGame sid gid w)))) =
      filter (\<lambda>r. row_sessionId r \<noteq> sid) (t_game (db w))"
proof -
  have "set_current_stmt sid gid (db w) = Inr ((), db (snd (setCurrentGame sid gid w)))"
    using assms(1) by (simp add: setCurrentGame_def withDb_works set_current_stmt_def)
  from set_current_unique [OF db_ok_t_game(1) [OF assms(2)] assms(3-5) this] show ?thesis by blast
qed

text \<open>
  When a game of a session's chain stops, one of the effects makes the next game of the chain
  current.
\<close>

lemma stop_moves_to_next_game:
  assumes "distinct is" and "\<forall>i \<in> set is. i < length (objs w)" and "Suc k < length is"
    and "wf_game (objs (chain_games sid is w) ! (is ! k))"
    and "stop trigger (objs (chain_games sid is w) ! (is ! k), e) = Inr (g', e')"
  shows "SetCurrentGame sid (gameId (objs w ! (is ! Suc k))) \<in> set (out e')"
proof -
  let ?g = "objs (chain_games sid is w) ! (is ! k)"
  have "(g', e') = stop_fx (?g, e)" using assms(4,5) by (simp add: method_eqs)
  moreover have "SetCurrentGame sid (gameId (objs w ! (is ! Suc k))) \<in> set (event_out EvStop NoArg (?g\<lparr>endTime := t\<rparr>))" for t
  proof -
    let ?l = "ChainListener sid (gameId (objs w ! (is ! Suc k)))"
    have "?l \<in> set (subs (cbMap ?g) EvStop)"
      using chain_games_subs [OF assms(1,2), of k sid] assms(3) by simp
    then show ?thesis unfolding event_out_def by (auto intro!: bexI [of _ ?l])
  qed
  ultimately show ?thesis by (simp add: stop_fx_def Let_def)
qed

text \<open>
  C18. A session moves on. When a game of a session's chain stops, it starts an effect that, whenever it is
  carried out on a database that works and still has the next game's row, leaves exactly the next game of the
  chain current in the session and the rows of all other sessions as they are.
\<close>

theorem chain_advances:
  assumes "distinct is" and "\<forall>i \<in> set is. i < length (objs w)" and "Suc k < length is"
    and "wf_game (objs (chain_games sid is w) ! (is ! k))"
    and "stop trigger (objs (chain_games sid is w) ! (is ! k), e) = Inr (g', e')"
    and "db_works w'" and "db_ok (db w')" and "r \<in> set (t_game (db w'))"
    and "row_gameId r = gameId (objs w ! (is ! Suc k))" and "row_sessionId r = sid"
  shows "\<exists>x \<in> set (out e').
      map row_gameId (filter (\<lambda>r. row_sessionId r = sid \<and> row_isCurrent r) (t_game (db (run_effect x w')))) =
        [gameId (objs w ! (is ! Suc k))]
    \<and> filter (\<lambda>r. row_sessionId r \<noteq> sid) (t_game (db (run_effect x w'))) =
        filter (\<lambda>r. row_sessionId r \<noteq> sid) (t_game (db w'))"
  using stop_moves_to_next_game [OF assms(1-5)] one_current_game [OF assms(6-10)] by force

lemma sample_chain: "objs (chain_games 7 [0, 1] sample_world) ! 0 = sample_game\<lparr>cbMap := on EvStop (ChainListener 7 ''g1'') (cbMap sample_game)\<rparr>"
  by (simp add: listen_def sample_world_def)

theorem chain_advances_witness:
  "\<exists>g' e' x. stop trigger (objs (chain_games 7 [0, 1] sample_world) ! 0, sample_env) = Inr (g', e') \<and> x \<in> set (out e')
     \<and> map row_gameId (filter (\<lambda>r. row_sessionId r = 7 \<and> row_isCurrent r) (t_game (db (run_effect x sample_world)))) = [''g1'']"
proof -
  let ?g = "objs (chain_games 7 [0, 1] sample_world) ! 0"
  have wf: "wf_game ?g" unfolding sample_chain by (rule wf_game_on) (simp_all add: sample_game_def)
  obtain g' e' where run: "stop trigger (?g, sample_env) = Inr (g', e')"
    using wf by (cases "stop_fx (?g, sample_env)") (simp add: method_eqs)
  have works: "db_works sample_world" and row: "t_game (db sample_world) ! 1 \<in> set (t_game (db sample_world))"
    by (simp_all add: sample_world_def db_works_def sample_db_def)
  have next_row: "row_gameId (t_game (db sample_world) ! 1) = gameId (objs sample_world ! ([0, 1] ! Suc 0))"
    "row_sessionId (t_game (db sample_world) ! 1) = 7" "gameId (objs sample_world ! Suc 0) = ''g1''"
    by (simp_all add: sample_world_def sample_db_def)
  have pre: "distinct [0 :: nat, 1]" "\<forall>i \<in> set [0, 1]. i < length (objs sample_world)" "Suc 0 < length [0 :: nat, 1]"
    by (simp_all add: sample_world_def)
  have "wf_game (objs (chain_games 7 [0, 1] sample_world) ! ([0, 1] ! 0))"
    "stop trigger (objs (chain_games 7 [0, 1] sample_world) ! ([0, 1] ! 0), sample_env) = Inr (g', e')"
    using wf run by simp_all
  from chain_advances [OF pre this works sample_db_ok row next_row(1,2)] run show ?thesis
    by (auto simp: next_row(3))
qed

text \<open>
  C33. Removing a session, on a database that answers, removes its row, its attacks and its voice
  server's row and no row of another session; its games' rows go too, but only if every one of the
  games is in memory: otherwise all of them stay, without a session.
\<close>

theorem removeSession_removes:
  assumes "db_works w" and "db_ok (db w)" and "rows_readable (db w)" and "s \<in> set (t_session (db w))"
  shows "fst (removeSession (sessionId s) w) = Inr s
    \<and> db (snd (removeSession (sessionId s) w)) = without_session (sessionId s) (games_in_memory (sessionId s) w) (db w)"
  using removeSession_run [OF assms] by blast

theorem removeSession_removes_witness:
  "t_session (db (snd (removeSession 7 sample_world))) = [] \<and> t_game (db (snd (removeSession 7 sample_world))) = []"
proof -
  have r: "rows_readable (db sample_world)" "sample_session \<in> set (t_session (db sample_world))" "db_works sample_world"
    by (simp_all add: rows_readable_def sample_world_def sample_db_def db_works_def)
  have m: "games_in_memory 7 sample_world"
    by (simp add: games_in_memory_def in_memory_def sample_world_def sample_db_def game_key_def sample_game_def new_Game_def)
  have id7: "sessionId sample_session = 7" by (simp add: sample_session_def)
  from removeSession_removes [OF r(3) sample_db_ok r(1,2)] m show ?thesis
    unfolding id7 by (simp add: without_session_def) (simp add: sample_world_def sample_db_def sample_session_def)
qed

text \<open>
  Two voice servers share a container name or a recording directory only if both their ports
  are the same, and the directory is always one level below the root of the recordings.
\<close>

lemma murmur_names_distinct:
  assumes "resolved_dir root"
  shows "(recDir (resolveMurmur root a b s) = recDir (resolveMurmur root c d t) \<longleftrightarrow> a = c \<and> b = d)
    \<and> (murmurId (resolveMurmur root a b s) = murmurId (resolveMurmur root c d t) \<longleftrightarrow> a = c \<and> b = d)
    \<and> recDir (resolveMurmur root a b s) = root @ ''/'' @ murmurId (resolveMurmur root a b s)"
  using recDir_inj [OF assms] murmur_id_inj recDir_resolve [OF assms] by (simp add: resolveMurmur_def)

lemma sample_root: "resolved_dir ''/rec''" "resolved_dir ''/fakes''"
  unfolding resolved_dir_def
  by (rule exI [of _ "[''rec'']"], simp add: plain_def abs_path_def,
      rule exI [of _ "[''fakes'']"], simp add: plain_def abs_path_def)

text \<open>
  C21. The audio file of an attack lies in the directory of the player it imitates, provided the
  player's id is a plain name, and the command that plays it says what it means to say, provided the
  id and the directory have no character the shell takes for its own. Ids are not checked anywhere:
  with another one the path leaves the directory.
\<close>

theorem attack_audio_path:
  assumes "db_works w" and "resolved_dir (fakesDir w)" and "plain (playerId p1)"
    and "gd_players (gr_data row) = p1 # p2 # ps"
  shows "\<exists>a w'. createAttack row sol k w = (Inr a, w') \<and> sourceUser a = playerId p1 \<and> targetUser a = playerId p2
    \<and> att_round a = k \<and> att_gameId a = gd_gameId (gr_data row)
    \<and> audioPath a = fakesDir w @ ''/'' @ playerId p1 @ ''/'' @ show_int sol @ ''.wav''
    \<and> a \<in> set (t_attack (db w'))
    \<and> (safe_word (playerId p1) \<and> safe_word (fakesDir w) \<longrightarrow>
         shell_words (spoof_command a port) =
           Some [''mumble-cli'', ''127.0.0.1:'' @ show_int port, ''spoof'', ''-s'', ''1'', ''-u'', playerId p1,
                 ''-f'', audioPath a, ''-r'', ''16000''])"
proof -
  have word: "safe_word (fakesDir w @ ''/'' @ playerId p1 @ ''/'' @ show_int sol @ ''.wav'')"
    if "safe_word (playerId p1)" "safe_word (fakesDir w)"
    using that show_int_safe [of sol] by (simp add: safe_word_def shell_safe_def)
  have "plain (show_int sol @ ''.wav'')"
    using show_int_no_slash [of sol] by (auto simp: plain_def append_eq_Cons_conv)
  then have "path_resolve (fakesDir w) [playerId p1, show_int sol @ ''.wav'']
      = fakesDir w @ ''/'' @ playerId p1 @ ''/'' @ show_int sol @ ''.wav''"
    by (rule path_resolve_plain2 [OF assms(2,3)])
  then show ?thesis using assms(1,4) word
    by (simp add: attack_commands_words(3) createAttack_def insertAttack_def fmap_def withDb_works insert_attack_stmt_def Let_def)
qed

definition sample_row :: game_row where
  "sample_row = \<lparr>gr_gameId = ''g0'', gr_sessionId = 7, gr_data = state sample_game, gr_isCurrent = True, gr_order = 0\<rparr>"

theorem attack_audio_path_witness:
  "\<exists>a w'. createAttack sample_row 2 3 sample_world = (Inr a, w') \<and> audioPath a = ''/fakes/ann/2.wav''
     \<and> shell_words (spoof_command a 8) = Some [''mumble-cli'', ''127.0.0.1:8'', ''spoof'', ''-s'', ''1'', ''-u'', ''ann'',
         ''-f'', ''/fakes/ann/2.wav'', ''-r'', ''16000'']"
proof -
  have f: "db_works sample_world" "resolved_dir (fakesDir sample_world)" "fakesDir sample_world = ''/fakes''"
    using sample_root(2) by (simp_all add: sample_world_def db_works_def)
  have p: "plain (playerId (createPlayer (Inl ''ann'')))" "safe_word (playerId (createPlayer (Inl ''ann'')))" "safe_word ''/fakes''"
    by (simp_all add: plain_def safe_word_def shell_safe_def)
  have d: "gd_players (gr_data sample_row) = createPlayer (Inl ''ann'') # createPlayer (Inl ''bob'') # []"
    by (simp add: sample_row_def state_def sample_defs new_Game_def)
  have nums: "show_int 2 = ''2''" "show_int 8 = ''8''" "playerId (createPlayer (Inl ''ann'')) = ''ann''"
    by (simp_all add: show_int_def show_nat.simps char_of_def bit_0)
  obtain a w' where r: "createAttack sample_row 2 3 sample_world = (Inr a, w')"
    and path: "audioPath a = ''/fakes'' @ ''/'' @ ''ann'' @ ''/'' @ ''2'' @ ''.wav''"
    and words: "safe_word ''ann'' \<and> safe_word ''/fakes'' \<longrightarrow> shell_words (spoof_command a 8) =
      Some [''mumble-cli'', ''127.0.0.1:'' @ ''8'', ''spoof'', ''-s'', ''1'', ''-u'', ''ann'',
         ''-f'', audioPath a, ''-r'', ''16000'']"
    using attack_audio_path [OF f(1,2) p(1) d, of 2 3 8] unfolding f(3) nums
    by blast
  show ?thesis
    by (rule exI [of _ a], rule exI [of _ w'], intro conjI, rule r, simp add: path,
        rule trans [OF mp [OF words]], use p in \<open>simp add: nums\<close>, simp add: path)
qed

section \<open>The server as a whole\<close>

text \<open>A process about to start on a database with one session, and the server it becomes.\<close>

definition sample_second :: game where
  "sample_second = new_Game 1 ''g1'' sample_players sample_rounds None None"

definition sample_boot :: world where
  "sample_boot = sample_world\<lparr>objs := [], memGames := [],
     db := sample_db\<lparr>t_game :=
       [created_row 7 0 True sample_game, created_row 7 1 False sample_second]\<rparr>\<rparr>"

definition sample_started :: server where
  "sample_started = sample_server\<lparr>sw := snd (main_listens sample_boot)\<rparr>"

lemma sample_games [simp]:
  "gameId sample_game = ''g0''" "gameId sample_second = ''g1''"
  "gameId (new_Game i gid ps rs r t) = gid" "rounds (new_Game i gid ps rs r t) = rs"
  by (simp_all add: sample_game_def sample_second_def new_Game_def)

lemma sample_new_row: "row_ok (created_row sid k b (new_Game i gid sample_players sample_rounds None None))"
proof -
  have "game_inv (new_Game i gid sample_players sample_rounds None None, sample_env)"
    by (rule created_inv [OF _ _ _ _ sample_idle])
       (simp_all add: sample_rounds_def sample_players_def both_ready_def new_ButtonRound_def
         new_SingleRound_def new_Round_def fresh_round_def single_round_def)
  moreover have "list_all restorable sample_rounds"
    by (simp add: sample_rounds_def restorable_def single_round_def new_ButtonRound_def new_SingleRound_def
        new_Round_def)
  ultimately have "save_ok (gid, state (new_Game i gid sample_players sample_rounds None None))"
    by (intro game_save_ok [where e = sample_env]) simp_all
  then show ?thesis by (simp add: row_ok_def created_row_def)
qed

lemma sample_rows: "row_ok (created_row 7 0 True sample_game)" "row_ok (created_row 7 1 False sample_second)"
  unfolding sample_game_def sample_second_def by (rule sample_new_row)+

lemma sample_booting: "booting sample_boot"
proof -
  have "inj (uuids sample_boot)" by (auto simp: sample_boot_def sample_world_def inj_on_def dest: arg_cong [of _ _ length])
  moreover have "uuids sample_boot n \<notin> row_ids sample_boot" for n
    by (cases n) (auto simp: sample_boot_def sample_world_def sample_db_def row_ids_def created_row_def)
  moreover have "idle_env (genv sample_boot)" using sample_idle by (simp add: sample_boot_def sample_world_def)
  ultimately show ?thesis using sample_rows
    by (simp add: booting_def)
       (simp add: sample_boot_def sample_world_def sample_db_def sample_env_def db_works_def db_ok_def
         rows_referenced_def created_row_def sample_session_def)
qed

lemma sample_reaches: "server_reaches sample_boot sample_started"
  by (rule server_reaches_start [OF sample_booting]) (simp add: sample_started_def)

lemma sample_started_tables:
  "t_session (db (sw sample_started)) = [sample_session]"
  "t_game (db (sw sample_started)) = [created_row 7 0 True sample_game, created_row 7 1 False sample_second]"
  "t_attack (db (sw sample_started)) = []" "t_murmur (db (sw sample_started)) = []"
  using main_listens_db [of sample_boot] by (simp_all add: sample_started_def sample_boot_def sample_db_def)

lemma sample_started_game: "\<exists>i. getGame ''g0'' (sw sample_started) = Inr i"
  using server_inv_getGame [OF server_reaches_inv [OF sample_reaches], of "''g0''"]
  by (simp add: row_ids_def sample_started_tables created_row_def)

text \<open>
  C1. In a server that has started on a database it left behind and has handled any messages, timers
  and requests since, every game that can be looked up satisfies the invariant of a game in its view:
  the shared clock and the shared table of timers with the other games' timers left out.
\<close>

theorem every_game_in_memory_ok:
  assumes "server_reaches w0 s" and "getGame gid (sw s) = Inr i"
  shows "game_inv (objs (sw s) ! i, view i (genv (sw s))) \<and> gameId (objs (sw s) ! i) = gid"
proof -
  note inv = server_invD [OF server_reaches_inv [OF assms(1)]]
  show ?thesis
    using games_invD(2) [OF inv(2) getGame_live(2) [OF inv(1) assms(2)]] getGame_key [OF assms(2)]
    by (simp add: game_key_def)
qed

theorem every_game_in_memory_ok_witness:
  "\<exists>i. getGame ''g0'' (sw sample_started) = Inr i \<and> game_inv (objs (sw sample_started) ! i, view i (genv (sw sample_started)))"
  using sample_started_game every_game_in_memory_ok [OF sample_reaches, of "''g0''"] by blast

text \<open>
  C2. The three messages of a player among other games. An answer, a change of readiness and a
  disconnection do to the game of the player's socket exactly what the method does to that game on its own,
  as seen through its view of clock and timers; they touch no other game and none of its timers, nor the
  database, the list of games or any socket. Only the disconnection is told to the others in the room. When
  the game is not in memory any more, nothing changes, and the first two are told so.
\<close>

theorem messages_among_others:
  assumes "server_reaches w0 s" and "sd_gameId (socks s sk) = Some gid" and "sd_playerId (socks s sk) = Some pid"
  shows "case getGame gid (sw s) of
      Inr i \<Rightarrow> only_game i (answer trigger a) s (onAnswer_msg sk a s) \<and> sent (onAnswer_msg sk a s) = sent s
        \<and> only_game i (playerReady trigger pid b) s (onPlayerReady_msg sk b s) \<and> sent (onPlayerReady_msg sk b s) = sent s
        \<and> only_game i (playerReady trigger pid False) s (onDisconnect_msg sk s)
        \<and> sent (onDisconnect_msg sk s) = sent s @ [LeftGame gid sk pid]
    | Inl m \<Rightarrow> onAnswer_msg sk a s = send (ErrorMsg sk m) s \<and> onPlayerReady_msg sk b s = send (ErrorMsg sk m) s
        \<and> onDisconnect_msg sk s = s"
proof (cases "getGame gid (sw s)")
  case (Inl m)
  then show ?thesis using assms(2,3)
    by (simp add: onAnswer_msg_def onPlayerReady_msg_def onDisconnect_msg_def with_game_def emitError_def)
next
  case (Inr i)
  note inv = server_reaches_inv [OF assms(1)]
  note alone = with_game_alone [OF inv assms(2) Inr]
  have ans: "only_game i (answer trigger a) s (with_game sk (answer trigger a) bad s)
      \<and> sent (with_game sk (answer trigger a) bad s) = sent s" for bad
    by (rule alone [OF game_op_answer answer_viewed]) (auto dest: game_inv_wf)
  have rdy: "only_game i (playerReady trigger pid c) s (with_game sk (playerReady trigger pid c) bad s)
      \<and> sent (with_game sk (playerReady trigger pid c) bad s) = sent s" for c bad
    by (rule alone [OF game_op_playerReady playerReady_viewed]) (auto dest: game_inv_wf)
  show ?thesis using ans rdy assms(2,3) Inr
    by (simp add: onAnswer_msg_def onPlayerReady_msg_def onDisconnect_msg_def send_def only_game_def)
qed

theorem messages_among_others_witness:
  "\<exists>i r. getGame ''g0'' (sw sample_started) = Inr i \<and>
     playerReady trigger ''ann'' True (objs (sw sample_started) ! i, view i (genv (sw sample_started))) = Inr r"
proof -
  let ?s = "sample_started\<lparr>socks := (\<lambda>_. \<lparr>sd_playerId = Some ''ann'', sd_gameId = Some ''g0'', sd_active = True\<rparr>)\<rparr>"
  have reach: "server_reaches sample_boot ?s"
    by (rule server_reaches_start [OF sample_booting]) (simp add: sample_started_def)
  obtain i where i: "getGame ''g0'' (sw ?s) = Inr i" using sample_started_game by auto
  from messages_among_others [OF reach, of 0 "''g0''" "''ann''" sample_answer True] i show ?thesis
    by (auto simp: only_game_def)
qed

text \<open>
  C4. Between any two handlers of a server whose requests do not overlap and whose database works, the games
  that can be looked up in memory are exactly those that have a row in the table: no game is forgotten,
  none outlives its row. (Requests that overlap can take a game out of memory whose row stays.)
\<close>

theorem memory_mirrors_table:
  assumes "server_reaches w0 s"
  shows "(\<exists>i. getGame gid (sw s) = Inr i) \<longleftrightarrow> (\<exists>r \<in> set (t_game (db (sw s))). row_gameId r = gid)"
  using server_inv_getGame [OF server_reaches_inv [OF assms], of gid] by (auto simp: row_ids_def)

theorem memory_mirrors_table_witness: "\<nexists>i. getGame ''g9'' (sw sample_started) = Inr i"
  using memory_mirrors_table [OF sample_reaches, of "''g9''"] by (simp add: sample_started_tables created_row_def)

text \<open>
  C7. A server to which nothing more is sent comes to rest. Whatever state it is in, and however its
  timers are delayed, at most two of them run for each round of its games; it is at rest, with every
  started game ended, after exactly as many as it has work left, and so many can run, one after the
  other, without any of them raising.
\<close>

theorem server_quiesces:
  assumes "server_reaches w0 s"
  shows "server_work (sw s) \<le> 2 * sum_list (map (\<lambda>g. length (rounds g)) (objs (sw s)))
    \<and> (\<forall>n s'. (timer_runs ^^ n) s s' \<longrightarrow> n \<le> server_work (sw s)
        \<and> (n = server_work (sw s) \<longleftrightarrow> (\<forall>g \<in> set (objs (sw s')). at_rest g)))
    \<and> (\<exists>s'. (timer_runs ^^ server_work (sw s)) s s' \<and> server_reaches w0 s' \<and> pending (genv (sw s')) = [])"
proof (intro conjI allI impI)
  note inv = server_reaches_inv [OF assms]
  show "server_work (sw s) \<le> 2 * sum_list (map (\<lambda>g. length (rounds g)) (objs (sw s)))" by (rule server_work_bound)
  fix n s' assume run: "(timer_runs ^^ n) s s'"
  note work = timers_run_work [OF run inv]
  show "n \<le> server_work (sw s)" using work(2) by simp
  show "n = server_work (sw s) \<longleftrightarrow> (\<forall>g \<in> set (objs (sw s')). at_rest g)"
    using work(2) rest_iff(2) [OF work(1)] by linarith
next
  obtain s' where s': "(timer_runs ^^ server_work (sw s)) s s'" "server_work (sw s') = 0"
    using runs_to_rest [OF server_reaches_inv [OF assms]] by blast
  note reached = timers_run_reaches [OF assms s'(1)]
  then show "\<exists>s'. (timer_runs ^^ server_work (sw s)) s s' \<and> server_reaches w0 s' \<and> pending (genv (sw s')) = []"
    using s' rest_iff [OF server_reaches_inv [OF reached]] by blast
qed

theorem server_quiesces_witness: "\<exists>n s'. (timer_runs ^^ n) sample_started s' \<and> (\<forall>g \<in> set (objs (sw s')). at_rest g)"
  using server_quiesces [OF sample_reaches] by blast

text \<open>
  A player who connects is sent the state of the current game of the session the player takes
  part in and is subscribed to it, and the other players of that game are told; a player of no
  session, or of a session without a current game, gets an error instead.
\<close>

lemma player_connects:
  assumes "server_reaches w0 s"
  shows "case session_of pid (sw s) of
      None \<Rightarrow> sent (onPlayerConnect sk pid s) = sent s @ [ErrorMsg sk ''Player session not found.'']
    | Some x \<Rightarrow> (case current_row (sessionId x) (sw s) of
        None \<Rightarrow> sent (onPlayerConnect sk pid s) = sent s @ [ErrorMsg sk ''Cannot find element'']
      | Some r \<Rightarrow> \<exists>i. getGame (row_gameId r) (sw s) = Inr i
          \<and> sent (onPlayerConnect sk pid s) =
              sent s @ [JoinedGame (row_gameId r) sk pid, StateMsg sk (state (objs (sw s) ! i))]
          \<and> sd_gameId (socks (onPlayerConnect sk pid s) sk) = Some (row_gameId r)
          \<and> sd_active (socks (onPlayerConnect sk pid s) sk)
          \<and> ClientListener sk \<in> set (subs (cbMap (objs (sw (onPlayerConnect sk pid s)) ! i)) EvState))"
  by (rule onPlayerConnect_run [OF server_reaches_inv [OF assms]])

lemma sample_current:
  "session_of ''ann'' (sw sample_started) = Some sample_session"
  "current_row 7 (sw sample_started) = Some (created_row 7 0 True sample_game)"
  by (simp_all add: session_of_def current_row_def sample_started_tables created_row_def sample_session_def)



text \<open>
  C31. Making a game current is a transaction of two statements on a connection of its own. However it is run,
  and whatever fails on an engine that keeps what SQLite documents (also one that rolls back by itself after
  some failures), the tables end up as after one access to the database that is carried out completely or
  not at all. But if it leaves the write lock with a connection (as when the commit is refused and not rolled
  back), then none of its changes is in the tables, and as long as the driver does not collect that
  connection, nothing that the program writes afterwards gets in and every write is rejected.
\<close>

theorem current_game_transaction:
  assumes "sql_engine E tables writer in_tx ok" and "ok st"
    and "on_connection E (set_current_script E stringify sid gid) (st, lg) = (r, (st', lg'))"
  shows "(\<exists>dbfate' r' w'. setCurrentGame sid gid (w\<lparr>db := tables st, dbfate := dbfate'\<rparr>) = (r', w')
      \<and> db w' = tables st' \<and> (r' = Inr () \<longleftrightarrow> (\<exists>x. r = Settled (Inr x)))
      \<and> crashed w' = (if r = Uncaught then Some CannotOpen else crashed w))
    \<and> (\<forall>k d. writer st' = Some (k, d) \<longrightarrow>
        (\<forall>st'' lg''. (db_step E k)\<^sup>*\<^sup>* (st', lg') (st'', lg'') \<longrightarrow> tables st'' = tables st
          \<and> (\<forall>q f params n. fst (on_connection E (\<lambda>c. run_sql E c (Change q f) params) (st'', lg'')) \<noteq> Settled (Inr n))))"
proof (intro conjI impI allI)
  note run = sql_engine.script_whole [OF assms]
  show "\<exists>dbfate' r' w'. setCurrentGame sid gid (w\<lparr>db := tables st, dbfate := dbfate'\<rparr>) = (r', w')
      \<and> db w' = tables st' \<and> (r' = Inr () \<longleftrightarrow> (\<exists>x. r = Settled (Inr x)))
      \<and> crashed w' = (if r = Uncaught then Some CannotOpen else crashed w)"
    by (rule one_access [OF run(3)])
  fix k d st'' lg''
  assume held: "writer st' = Some (k, d)" and later: "(db_step E k)\<^sup>*\<^sup>* (st', lg') (st'', lg'')"
  note out = sql_engine.locked_out [OF assms(1) later, of d]
  show "tables st'' = tables st" using out run(1,4) held by simp
  show "fst (on_connection E (\<lambda>c. run_sql E c (Change q f) params) (st'', lg'')) \<noteq> Settled (Inr n)" for q f params n
  proof -
    obtain r2 st2 lg2 where w: "on_connection E (\<lambda>c. run_sql E c (Change q f) params) (st'', lg'') = (r2, (st2, lg2))"
      by (metis prod.exhaust)
    show ?thesis using sql_engine.write_whole(2) [OF assms(1) _ w] out run(1) held by (simp add: w)
  qed
qed

definition sample_sqlite :: sqlite where
  "sample_sqlite = \<lparr>committed = sample_db, opened = 0, tx = (\<lambda>_. False), lock = None, uses = 0,
     fate = (\<lambda>n. if n = 4 then Some (''SQLITE_BUSY'', False) else None)\<rparr>"

theorem current_game_transaction_witness:
  "\<exists>r st' lg' d. on_connection lite (set_current_script lite (\<lambda>_. []) 7 ''g1'') (sample_sqlite, []) = (r, (st', lg'))
    \<and> lock st' = Some (0, d)
    \<and> (\<forall>st'' lg''. (db_step lite 0)\<^sup>*\<^sup>* (st', lg') (st'', lg'') \<longrightarrow> committed st'' = sample_db)"
proof -
  have ok: "lite_ok sample_sqlite" by (simp add: lite_ok_def sample_sqlite_def)
  obtain r st' lg' where run: "on_connection lite (set_current_script lite (\<lambda>_. []) 7 ''g1'') (sample_sqlite, []) = (r, (st', lg'))"
    by (metis prod.exhaust)
  then have "\<exists>d. lock st' = Some (0, d)"
    by (auto simp: on_connection_def set_current_script_def serialize_def run_sql_def lite_defs fchain_def sample_sqlite_def
        clear_current_def mark_current_def)
  with current_game_transaction [OF sqlite_engine.sql_engine_axioms ok run] run show ?thesis
    by (fastforce simp: sample_sqlite_def)
qed

text \<open>
  C32. An effect that a removed game started late harms a session that is there: when the game it
  wants to make current has no row, the session whose id it carries is left without a current game,
  and its players are refused from then on. Ids of sessions are given out again after a removal, so a
  new session can carry the id.
\<close>

theorem late_effect_locks_players_out:
  assumes "server_reaches w0 s" and "session_of pid (sw s) = Some x"
    and "\<not> (\<exists>r \<in> set (t_game (db (sw s))). row_gameId r = gid)"
    and "s' = s\<lparr>sw := run_effect (SetCurrentGame (sessionId x) gid) (sw s)\<rparr>"
  shows "sent (onPlayerConnect sk pid s') = sent s @ [ErrorMsg sk ''Cannot find element'']"
proof -
  note inv = server_reaches_inv [OF assms(1)]
  have inv': "server_inv (sw s')" using run_effect_server_inv [OF inv, of "SetCurrentGame (sessionId x) gid"] assms(4) by simp
  have "gid \<notin> row_ids (sw s)" using assms(3) by (auto simp: row_ids_def)
  then have "current_row (sessionId x) (sw s') = None"
    using stale_current_row [OF server_invD(3) [OF inv]] assms(4) by simp
  moreover have "session_of pid (sw s') = Some x"
    using assms(2) server_invD(3) [OF inv]
    by (simp add: assms(4) session_of_def setCurrentGame_def withDb_works set_current_stmt_def)
  ultimately show ?thesis using onPlayerConnect_run [OF inv', where pid = pid and sk = sk] assms(4) by simp
qed

theorem late_effect_locks_players_out_witness:
  "sent (onPlayerConnect 3 ''ann'' (sample_started\<lparr>sw := run_effect (SetCurrentGame 7 ''g9'') (sw sample_started)\<rparr>))
     = [ErrorMsg 3 ''Cannot find element'']"
proof -
  have id7: "sessionId sample_session = 7" by (simp add: sample_session_def)
  have sent: "sent sample_started = []" by (simp add: sample_started_def sample_server_def)
  have "\<not> (\<exists>r \<in> set (t_game (db (sw sample_started))). row_gameId r = ''g9'')"
    by (simp add: sample_started_tables created_row_def)
  from late_effect_locks_players_out [OF sample_reaches sample_current(1) this refl, of 3]
  show ?thesis unfolding id7 sent by simp
qed

section \<open>Requests that overlap\<close>

text \<open>
  Written as sequences of actions, the creation and the removal of a session are, when nothing
  comes between the actions, the futures that the other properties are about: the same result and the
  same state. So every asynchronous handler's whole effect, with its acknowledgement, is a run among
  other requests.
\<close>

lemma requests_in_steps:
  "prun (createSession_steps p) w = createSession p w
   \<and> prun (removeSession_steps sid) w = removeSession sid w
   \<and> among\<^sup>*\<^sup>* (s, js) (admin_create_session sk p s, js)
   \<and> among\<^sup>*\<^sup>* (s, js) (admin_remove_session sk sid s, js)
   \<and> among\<^sup>*\<^sup>* (s, js) (admin_get_recordings sk sid s, js) \<and> among\<^sup>*\<^sup>* (s, js) (admin_get_sessions sk s, js)
   \<and> among\<^sup>*\<^sup>* (s, js) (onConnect sk query s, js)"
  by (simp add: createSession_alone removeSession_alone jobs_alone)

text \<open>A server with two sessions, and the order of actions of two requests that take turns.\<close>

definition other_session :: session where
  "other_session = \<lparr>sessionId = 8, blueParticipant = ''cat'', redParticipant = ''dan'', murmurPort = 64739, grpcPort = 50052\<rparr>"

definition sample_third :: game where
  "sample_third = new_Game 2 ''g2'' sample_players sample_rounds None None"

definition two_boot :: world where
  "two_boot = sample_world\<lparr>objs := [], memGames := [],
     db := sample_db\<lparr>t_session := [sample_session, other_session], t_game :=
       [created_row 7 0 True sample_game, created_row 7 1 False sample_second, created_row 8 0 True sample_third]\<rparr>\<rparr>"

definition two_started :: server where
  "two_started = sample_server\<lparr>sw := snd (main_listens two_boot)\<rparr>"

definition taking_turns :: "nat list" where
  "taking_turns = concat (replicate 20 [0, 1])"

lemma two_booting: "booting two_boot"
proof -
  have "inj (uuids two_boot)" by (auto simp: two_boot_def sample_world_def inj_on_def dest: arg_cong [of _ _ length])
  moreover have "uuids two_boot n \<notin> row_ids two_boot" for n
    by (cases n) (auto simp: two_boot_def sample_world_def sample_db_def row_ids_def created_row_def sample_third_def)
  moreover have "idle_env (genv two_boot)" using sample_idle by (simp add: two_boot_def sample_world_def)
  moreover have "row_ok (created_row 8 0 True sample_third)" unfolding sample_third_def by (rule sample_new_row)
  ultimately show ?thesis using sample_rows
    by (simp add: booting_def)
       (simp add: two_boot_def sample_world_def sample_db_def sample_env_def db_works_def db_ok_def
         rows_referenced_def created_row_def sample_session_def other_session_def sample_third_def)
qed

lemma two_reaches: "server_reaches two_boot two_started"
  by (rule server_reaches_start [OF two_booting]) (simp add: two_started_def)

lemma two_history: "history (two_started, [])"
proof (rule history.boots)
  show "starting two_boot"
    by (rule booting_starting [OF two_booting]) (simp_all add: two_boot_def sample_world_def polite_def)
  show "main_listens two_boot = (True, sw two_started)"
    using main_listens_inv(1) [OF two_booting] by (simp add: two_started_def prod_eq_iff)
qed

lemma two_removals_computed:
  "case fold advance taking_turns (snd (main_listens two_boot), [remove_job 1 7, remove_job 2 7]) of (w, js) \<Rightarrow>
     map row_gameId (t_game (db w)) = [''g2''] \<and> map row_sessionId (t_game (db w)) = [8] \<and> map sessionId (t_session (db w)) = [8] \<and> getGame ''g2'' w = Inl ''Game not found.''
     \<and> sent (onConnect 3 (JObj [(''playerId'', JStr ''cat'')]) (two_started\<lparr>sw := w\<rparr>)) = [ErrorMsg 3 ''Game not found.'']"
  by code_simp

lemma two_removals_run:
  assumes "fold advance taking_turns (sw two_started, [remove_job 1 7, remove_job 2 7]) = (w, js)"
  shows "among\<^sup>*\<^sup>* (two_started, []) (two_started\<lparr>sw := w\<rparr>, js)"
  using among.remove [of two_started "[]" 1 7] among.remove [of two_started "[remove_job 1 7]" 2 7]
  by (intro two_jobs [OF assms]) simp_all

text \<open>
  Two requests to remove the same session, made at the same time, take a game of another session
  out of memory: both look their games up before either has removed one, and removing a game that is
  gone removes the last game there is. The row of that game stays, and its players are refused.
\<close>

lemma overlapping_removals_lock_others_out:
  "\<exists>s' js. server_reaches two_boot two_started \<and> among\<^sup>*\<^sup>* (two_started, []) (s', js)
    \<and> (\<exists>i. getGame ''g2'' (sw two_started) = Inr i) \<and> \<not> (\<exists>i. getGame ''g2'' (sw s') = Inr i)
    \<and> map row_gameId (t_game (db (sw s'))) = [''g2'']
    \<and> sent (onConnect 3 (JObj [(''playerId'', JStr ''cat'')]) s') = [ErrorMsg 3 ''Game not found.'']"
proof -
  obtain w js where run: "fold advance taking_turns (sw two_started, [remove_job 1 7, remove_job 2 7]) = (w, js)"
    by fastforce
  have "\<exists>i. getGame ''g2'' (sw two_started) = Inr i"
    using server_inv_getGame [OF server_reaches_inv [OF two_reaches], of "''g2''"] main_listens_db [of two_boot]
    by (simp add: row_ids_def two_started_def) (simp add: two_boot_def created_row_def sample_third_def)
  then show ?thesis using two_removals_computed two_reaches two_removals_run [OF run] run
    by (intro exI [of _ "two_started\<lparr>sw := w\<rparr>"] exI [of _ js]) (simp add: two_started_def)
qed

text \<open>
  C5. What can bring the server down. In any state of any process of the server, whatever requests,
  messages, timers and effects came in whatever order, whatever statement on the database failed and
  however often the server was started again, no exception has reached the event loop but that of a
  database file that could not be opened, for which nobody listens; every game in memory can be saved, and
  every stored game can be restored. Payloads have the types the handlers declare and every request of an
  administrator asks for an acknowledgement (what is missing raises), and the daemon does not answer with a bare
  \<open>null\<close>.
\<close>

theorem server_never_crashes:
  assumes "history (s, js)"
  shows "(crashed (sw s) = None \<or> crashed (sw s) = Some CannotOpen \<and> (\<exists>n. dbfate (sw s) n = OpenFails))
    \<and> (\<forall>gid i. getGame gid (sw s) = Inr i \<longrightarrow> save_ok (gid, state (objs (sw s) ! i)))
    \<and> (\<forall>r \<in> set (t_game (db (sw s))). row_ok r)"
proof -
  have w: "sound (sw s)" using history_sound [OF assms] by simp
  have "save_ok (gid, state (objs (sw s) ! i))" if "getGame gid (sw s) = Inr i" for gid i
    using sound_stored [OF sound_gamesD(2) [OF sound_gamesI [OF w] getGame_sound [OF w that]]] getGame_key [OF that]
    by (simp add: game_key_def)
  then show ?thesis using w by (simp add: sound_def unopened_only_def)
qed

theorem server_never_crashes_witness:
  "crashed (fst (fold advance taking_turns (sw two_started, [remove_job 1 7, remove_job 2 7]))) \<in> {None, Some CannotOpen}"
proof -
  obtain w js where run: "fold advance taking_turns (sw two_started, [remove_job 1 7, remove_job 2 7]) = (w, js)"
    by fastforce
  from server_never_crashes [OF history_runs [OF two_removals_run [OF run] two_history]] show ?thesis
    unfolding run by auto
qed

text \<open>
  C6. However requests overlap, a process that dies can be started again: once the database answers,
  the next process gets to listen, leaves the tables as they are, and has in memory exactly the games
  whose rows belong to a session, also those that overlapping removals had taken out of memory.
\<close>

theorem restart_amid_requests:
  assumes "history (s, js)"
  defines "w \<equiv> snd (main_listens (revived (sw s)))"
  shows "fst (main_listens (revived (sw s))) \<and> crashed w = None \<and> db w = db (sw s)
    \<and> (\<forall>gid. (\<exists>i. getGame gid w = Inr i) \<longleftrightarrow>
        (\<exists>r \<in> set (t_game (db (sw s))). row_gameId r = gid
           \<and> row_sessionId r \<in> sessionId ` set (t_session (db (sw s)))))"
proof -
  have start: "starting (revived (sw s))" "db_works (revived (sw s))" "db (revived (sw s)) = db (sw s)"
    using revived_starting history_sound [OF assms(1)] by simp_all
  have w: "sound w" "more_drawn (revived (sw s)) w"
    using main_listens_sound [OF starting_sound [OF start(1)]] by (simp_all add: w_def)
  have "db_works w" using w(2) start(2) by (simp add: more_drawn_def db_works_def)
  then have "crashed w = None" using w(1) unopened_only_works by (simp add: sound_def)
  then show ?thesis using main_listens_memory [OF start(1,2)] main_listens_db start(3) by (simp add: w_def)
qed

theorem restart_amid_requests_witness:
  "\<exists>i. getGame ''g2'' (snd (main_listens (revived
     (fst (fold advance taking_turns (sw two_started, [remove_job 1 7, remove_job 2 7])))))) = Inr i"
proof -
  obtain w js where run: "fold advance taking_turns (sw two_started, [remove_job 1 7, remove_job 2 7]) = (w, js)"
    by fastforce
  note h = history_runs [OF two_removals_run [OF run] two_history]
  have rows: "map row_gameId (t_game (db w)) = [''g2'']" "map row_sessionId (t_game (db w)) = [8]"
    "map sessionId (t_session (db w)) = [8]"
    using two_removals_computed run by (simp_all add: two_started_def)
  have "8 \<in> sessionId ` set (t_session (db w))" using rows(3) by (metis list.set_intros(1) list.set_map)
  then have "\<exists>r \<in> set (t_game (db w)). row_gameId r = ''g2'' \<and> row_sessionId r \<in> sessionId ` set (t_session (db w))"
    using rows(1,2) by auto
  then show ?thesis using restart_amid_requests [OF h] unfolding run by simp
qed

section \<open>Recordings\<close>

text \<open>
  C38. The converter reads back every number below 2 ^ 14 from its encoding, whatever follows it, and
  takes as many bytes as the encoding has.
\<close>

theorem varint_reads_back:
  assumes "n < 2 ^ 14"
  shows "readVarInt (varint n @ rest) 0 = (int n, int (length (varint n)))"
  by (rule varint_roundtrip [OF assms])

theorem varint_reads_back_witness: "readVarInt (varint 300 @ [7]) 0 = (300, 2)"
  using varint_reads_back [of 300 "[7]"] by (simp add: varint_def)

text \<open>
  In the 21-bit form the five high bits that the head byte carries are lost (the mask is shifted
  before it is applied): the number read is the one in the last two bytes.
\<close>

lemma varint_21_bits_lost:
  assumes "192 \<le> h" and "h < 224" and "a < 256" and "b < 256"
  shows "readVarInt (of_nat h # of_nat a # of_nat b # rest) 0 = (int (256 * a + b), 3)"
  by (rule readVarInt_21 [OF assms])


definition sample_recording :: "(bytes \<times> recorded) list" where
  "sample_recording =
     [(replicate 8 0, Voice 0x80 5 [9, 8]), (replicate 8 0, Other [0x20, 1]), (replicate 8 0, Final 0x80 300 [7]),
      (replicate 8 0, Voice 0x84 301 [6])]"

lemma sample_well_recorded: "well_recorded sample_recording"
  by (simp add: sample_recording_def byte_at_def js_nth_def)


text \<open>
  C40. As soon as the output stream has asked the converter to wait, after whichever write, it never returns,
  whatever follows in the file: the loop spins without giving the event that would release it a chance.
\<close>

theorem full_stream_hangs:
  assumes "well_recorded ps" and "k < length (audio ps)" and "asks k"
  shows "main_parse decode asks (recording ps @ rest) = None"
  using main_loop_recording [OF assms(1), of decode asks rest "[]"] assms(2,3) by (auto simp: main_parse_def)

theorem full_stream_hangs_witness:
  "main_parse (\<lambda>d. d) (\<lambda>k. k = 1) (recording sample_recording @ [1, 2, 3]) = None"
  by (rule full_stream_hangs [OF sample_well_recorded, of 1]) (simp_all add: sample_recording_def)

section \<open>The players' client\<close>

text \<open>
  The score the client shows for a game it is sent, while it plays and in the review, is the
  number of rounds answered correctly, and it never exceeds the number of answers shown with it.
\<close>

lemma client_score:
  assumes "reachable (g, e)"
  shows "score (state g) = int (length (filter correct_round (rounds g)))
    \<and> int (correctLen (state g)) = score (state g) \<and> score (state g) \<le> total (state g)"
  using score_state [of g] reachable_inv [OF assms] correctLen_score score_le_total [of "state g"]
  by (simp add: game_inv_def game_base_def)

section \<open>The clients and the server\<close>

text \<open>
  C27. What the administrator sees of a request to create a session, when no row in the tables refers to the id
  that SQLite gives out next. A session that was created takes the form home; every refusal, whatever its
  reason, leaves the database as it was and shows the one text for unknown errors, since an error is no
  \<open>Error\<close> any more when it has come over the wire.
\<close>

theorem create_form_outcome:
  assumes "server_reaches w0 s"
    and "unreferenced (next_rowid (map sessionId (t_session (db (sw s))))) (db (sw s))"
  shows "\<exists>msg. sent (admin_create_session sk p s) = sent s @ [msg] \<and>
    (let after = form_created (createSession_ack (wire (ack_args extra msg))) f
     in after = (f, Some ''#home'') \<and> (\<exists>x. session_created x (sw s) (sw (admin_create_session sk p s)))
      \<or> after = (f\<lparr>f_error := ''Unknown error returned by createSession.''\<rparr>, None)
         \<and> db (sw (admin_create_session sk p s)) = db (sw s))"
  by (rule form_outcome [OF server_reaches_inv [OF assms(1)] assms(2)])

theorem create_form_outcome_witness:
  "\<exists>msg. sent (admin_create_session 3 sample_session sample_started) = [msg] \<and>
     snd (form_created (createSession_ack (wire (ack_args [] msg))) form_init) \<in> {Some ''#home'', None}"
proof -
  have "next_rowid (map sessionId (t_session (db (sw sample_started)))) = 8"
    by (simp add: sample_started_tables next_rowid_def sample_session_def)
  then have "unreferenced (next_rowid (map sessionId (t_session (db (sw sample_started))))) (db (sw sample_started))"
    by (simp add: unreferenced_def sample_started_tables created_row_def)
  from create_form_outcome [OF sample_reaches this, of 3 sample_session "[]" form_init]
  show ?thesis by (auto simp: Let_def sample_started_def sample_server_def)
qed

text \<open>
  Ports typed as decimal numbers and participants typed as text reach the server as the parameters
  of the session that is meant, and pass its validation.
\<close>

lemma form_reaches_server:
  assumes "0 \<le> g" and "0 \<le> m"
    and "f' = form_change (ChangeRed red) (form_change (ChangeBlue blue)
      (form_change (ChangeGrpcPort (show_int g)) (form_change (ChangeMurmurPort (show_int m)) f)))"
    and "received = entries (param (wire [form_params f']) 0)"
  shows "validateCreateSessionParams received = Inr received
    \<and> set received = set (session_params
        \<lparr>sessionId = 0, blueParticipant = blue, redParticipant = red, murmurPort = m, grpcPort = g\<rparr>)"
proof -
  have ports: "f_grpcPort f' = Some g" "f_murmurPort f' = Some m"
    and names: "f_blue f' = blue" "f_red f' = red"
    by (simp_all add: assms(3) parseInt_show [OF assms(1)] parseInt_show [OF assms(2)])
  have "form_session f' = \<lparr>sessionId = 0, blueParticipant = blue, redParticipant = red, murmurPort = m, grpcPort = g\<rparr>"
    by (simp add: form_session_def ports names)
  then show ?thesis using form_received [OF ports] validation_passes [of "[form_params f']" 0]
    by (simp add: assms(4))
qed

text \<open>
  C28. The administrator's list of games is the server's: after the games a connection is sent, and any
  states sent later, the list has for each id the last state sent, or else the state the game in memory
  had at the connection; and every one of these games has the administrator as a listener from then on.
\<close>

theorem administrators_games:
  assumes "server_reaches w0 s"
  shows "\<exists>gds. sent (admin_connect sk s) = sent s @ [InitMsg sk gds]
    \<and> (\<forall>gid. mem_get gd_gameId gid (fold games_state later (games_init gds)) =
         (case List.find (\<lambda>g. gd_gameId g = gid) (rev later) of
            Some gd \<Rightarrow> Some gd
          | None \<Rightarrow> (case getGame gid (sw s) of Inr i \<Rightarrow> Some (state (objs (sw s) ! i)) | Inl _ \<Rightarrow> None)))
    \<and> (\<forall>i \<in> set (memGames (sw s)).
         AdminListener sk \<in> set (subs (cbMap (objs (sw (admin_connect sk s)) ! i)) EvState))"
  by (rule admin_connect_run [OF server_reaches_inv [OF assms]])

theorem administrators_games_witness:
  "\<exists>gds. sent (admin_connect 5 sample_started) = [InitMsg 5 gds]
    \<and> mem_get gd_gameId ''g9'' (fold games_state [] (games_init gds)) = None"
proof -
  have "\<exists>e. getGame ''g9'' (sw sample_started) = Inl e"
    using server_inv_getGame [OF server_reaches_inv [OF sample_reaches], of "''g9''"]
    by (cases "getGame ''g9'' (sw sample_started)") (auto simp: row_ids_def sample_started_tables created_row_def)
  then show ?thesis using administrators_games [OF sample_reaches, of 5 "[]"]
    by (auto simp: sample_started_def sample_server_def)
qed

text \<open>
  C30. On the screen of a session, an answer to a request that was made for an earlier id changes
  nothing, whenever it comes; an answer that changes the screen is about the session the screen is for.
  (An id is the screen's from the run of its effect on, which React puts after the paint.)
\<close>

theorem stale_answers_ignored:
  assumes "screen_reaches m" and "k < length (scr_runs m)"
    and "m' = populateSessionData k (getSessionData (run_sessionId (scr_runs m ! k)) args) m"
  shows "(m' = m \<or> run_sessionId (scr_runs m ! k) = scr_sessionId m
        \<and> (ss_session (scr_state m') = JUndef \<or> fld (ss_session (scr_state m')) ''sessionId'' = JNum (scr_sessionId m)))
    \<and> (populateRecordings k (getSessionRecordings_ack args) m = m \<or> run_sessionId (scr_runs m ! k) = scr_sessionId m)"
  using stale_answers [OF assms(1,2)] assms(3) by blast

theorem stale_answers_ignored_witness:
  "populateSessionData 0 (getSessionData 7 (wire [JUndef, JArr [session_obj sample_session]])) (screen_show 8 (screen_mount 7))
     = screen_show 8 (screen_mount 7)"
proof -
  let ?m = "screen_show 8 (screen_mount 7)"
  have "screen_reaches ?m" by (intro screen_reaches.intros)
  moreover have "scr_runs ?m = [(new_run 7)\<lparr>run_unloaded := True\<rparr>, new_run 8]" "scr_sessionId ?m = 8"
    by (simp_all add: screen_show_def screen_mount_def unload_def new_run_def)
  ultimately show ?thesis
    using stale_answers_ignored [of ?m 0 _ "wire [JUndef, JArr [session_obj sample_session]]", OF _ _ refl]
    by (simp add: new_run_def)
qed

text \<open>
  C26. What a player's screen shows is the player's. Whatever connections come and go, whatever is heard on them
  and whichever player the screen is given: a game that is shown is the state that came last of all, and it came
  to the client of the player the screen is for now, which is connected; when the screen is given another
  player, nothing raises and nothing is shown until that player's own client has heard a state.
  (A screen is for a player from the run of the effect on, which React puts after the paint.)
\<close>

theorem player_sees_last_state:
  assumes "link_step\<^sup>*\<^sup>* (view_start pid) v"
  shows "(\<forall>gd. cl_data (gv_state v) = Some gd \<longrightarrow>
        gc_up (last (gv_clients v)) \<and> gv_received v \<noteq> [] \<and> last (gv_received v) = (length (gv_clients v) - 1, gd))
    \<and> (\<forall>pid'. gc_playerId (last (gv_clients v)) \<noteq> pid' \<longrightarrow>
        (\<exists>v'. give_player pid' v = Inr v' \<and> cl_data (gv_state v') = None \<and> gc_playerId (last (gv_clients v')) = pid'))"
  using shown_is_last [OF assms] other_player_shows_nothing [OF assms] by blast

definition linked_view :: game_view where
  "linked_view = (case bindR (socket_connect 0 (view_start ''ann'')) (socket_state 0 (state sample_game)) of
     Inr v \<Rightarrow> v | Inl _ \<Rightarrow> view_start ''ann'')"

lemma linked_view_computed:
  "case socket_connect 0 (view_start ''ann'') of
     Inr v \<Rightarrow> (case socket_state 0 (state sample_game) v of
         Inr v' \<Rightarrow> gc_up (gv_clients v ! 0) \<and> length (gv_clients v) = 1 \<and> cl_data (gv_state v') = Some (state sample_game)
       | Inl _ \<Rightarrow> False)
   | Inl _ \<Rightarrow> False"
  by code_simp

lemma view_start_active: "gc_active (gv_clients (view_start ''ann'') ! 0) \<and> \<not> gc_up (gv_clients (view_start ''ann'') ! 0)
    \<and> length (gv_clients (view_start ''ann'')) = 1"
  by code_simp

theorem player_sees_last_state_witness:
  "cl_data (gv_state linked_view) = Some (state sample_game) \<and> snd (last (gv_received linked_view)) = state sample_game"
proof -
  obtain v v' where v: "socket_connect 0 (view_start ''ann'') = Inr v" "socket_state 0 (state sample_game) v = Inr v'"
      "gc_up (gv_clients v ! 0)" "length (gv_clients v) = 1" "cl_data (gv_state v') = Some (state sample_game)"
    using linked_view_computed by (auto split: sum.splits)
  then have l: "linked_view = v'" by (simp add: linked_view_def)
  have "link_step (view_start ''ann'') v" using v(1) view_start_active by (intro link_step.connects [of 0]) auto
  moreover have "link_step v v'" using v(2-4) by (intro link_step.hears [of 0]) auto
  ultimately have "link_step\<^sup>*\<^sup>* (view_start ''ann'') v'" by (meson converse_rtranclp_into_rtranclp r_into_rtranclp)
  from player_sees_last_state [OF this] v(5) show ?thesis by (simp add: l)
qed

text \<open>
  C22. What a player sees after connecting. For a player of a session with a current game it is the
  lobby, the round or the review, as the stage of that game has it; anybody else is told that there is
  no such game, the error message itself being shown to nobody.
\<close>

theorem first_screen_shown:
  assumes "server_reaches w0 s"
    and "sent (onConnect sk (JObj [(''playerId'', JStr pid)]) s) = sent s @ new"
  shows "game_screen (deliver sk new (client_on CConnect client_init)) =
    (case session_of pid (sw s) of
       None \<Rightarrow> NotFound
     | Some x \<Rightarrow>
         (case current_row (sessionId x) (sw s) of
            None \<Rightarrow> NotFound
          | Some r \<Rightarrow>
              (case getGame (row_gameId r) (sw s) of
                 Inl _ \<Rightarrow> NotFound | Inr i \<Rightarrow> stage_screen (objs (sw s) ! i))))"
  by (rule first_screen [OF server_reaches_inv [OF assms(1)] assms(2)])

theorem first_screen_shown_witness:
  "game_screen (deliver 3 (sent (onConnect 3 (JObj [(''playerId'', JStr ''eve'')]) sample_started)) (client_on CConnect client_init)) = NotFound
   \<and> (\<exists>i. getGame ''g0'' (sw sample_started) = Inr i
      \<and> game_screen (deliver 3 (sent (onConnect 3 (JObj [(''playerId'', JStr ''ann'')]) sample_started)) (client_on CConnect client_init))
          = stage_screen (objs (sw sample_started) ! i))"
proof -
  have sent: "sent sample_started = []" by (simp add: sample_started_def sample_server_def)
  have none: "session_of ''eve'' (sw sample_started) = None"
    by (simp add: session_of_def sample_started_tables sample_session_def)
  have id7: "sessionId sample_session = 7" by (simp add: sample_session_def)
  have gid: "row_gameId (created_row 7 0 True sample_game) = ''g0''" by (simp add: created_row_def)
  obtain i where i: "getGame ''g0'' (sw sample_started) = Inr i" using sample_started_game by blast
  have "sent (onConnect 3 q sample_started) = sent sample_started @ sent (onConnect 3 q sample_started)" for q
    by (simp add: sent)
  note seen = first_screen_shown [OF sample_reaches this]
  show ?thesis using seen [of "''eve''"] seen [of "''ann''"] i
    by (simp add: none sample_current id7 gid)
qed

section \<open>The pages\<close>

text \<open>
  C23. Of a game whose rounds are of the kind the schedules have (at most twenty button rounds with three
  options and a solution among them), the client can draw the state it is sent, for each of the players, in
  the lobby and in every round; the review it can draw exactly when no answer recorded is, or holds, an
  object, which React refuses as a child. What can be clicked is as it should be: in the lobby the one
  button that turns the player's readiness over; in a round, for blue the three colours, which do nothing,
  and for anybody else the three, each of which sends its index as the answer to the game's current round;
  in the review nothing.
\<close>

theorem pages_drawn:
  assumes "server_reaches w0 s" and "getGame gid (sw s) = Inr i" and "g = objs (sw s) ! i"
    and "showable (state g)" and "p \<in> set (players g)"
  shows "case stage_screen g of
      Lobby gd \<Rightarrow> \<exists>n flag. game_page draw clk slid (playerId p) (Lobby gd) = Inr n \<and> toggleReady (playerId p) gd = Some flag
        \<and> clicks n = [(if flag then ''Ready'' else ''Unready'', DoReady flag)]
    | Playing gd \<Rightarrow> \<exists>n. game_page draw clk slid (playerId p) (Playing gd) = Inr n
        \<and> clicks n = (if playerId p = playerId (players g ! 0)
            then map (\<lambda>j. (color_text j, DoNothing)) [0, 1, 2] else red_clicks (currentRound g))
    | Review gd \<Rightarrow> ((\<exists>n. game_page draw clk slid (playerId p) (Review gd) = Inr n) \<longleftrightarrow> plain_answers gd)
        \<and> (\<forall>n. game_page draw clk slid (playerId p) (Review gd) = Inr n \<longrightarrow> clicks n = [])
    | _ \<Rightarrow> False"
proof -
  note inv = server_invD [OF server_reaches_inv [OF assms(1)]]
  have gi: "game_inv (g, view i (genv (sw s)))"
    using games_invD(2) [OF inv(2) getGame_live(2) [OF inv(1) assms(2)]] by (simp add: assms(3))
  note shown = stage_shown [OF gi]
  consider "startTime g = None" | "startTime g \<noteq> None" "endTime g \<noteq> None" | "startTime g \<noteq> None" "endTime g = None"
    by blast
  then show ?thesis
  proof cases
    case 1
    then obtain v where v: "gameLobby (playerId p) (state g) = Inr (Some v)"
      "lv_button v = (if toggleReady (playerId p) (state g) = Some True then ''Ready'' else ''Unready'')"
      using shown assms(5) by (auto simp: stage_screen_def)
    obtain flag where flag: "toggleReady (playerId p) (state g) = Some flag"
      using toggleReady_player [of p "state g"] assms(5) by (auto simp: state_def)
    show ?thesis using lobby_page_drawn [OF v(1) flag, of draw clk slid] v(2) flag 1 by (simp add: stage_screen_def)
  next
    case 2
    have "game_page draw clk slid (playerId p) (Review (state g)) = Inr n \<Longrightarrow> plain_answers (state g) \<and> clicks n = []" for n
      using review_page_raises review_page_drawn [of "state g" draw clk slid "playerId p"] by fastforce
    then show ?thesis using 2 review_page_drawn [of "state g" draw clk slid "playerId p"] by (auto simp: stage_screen_def)
  next
    case 3
    then obtain v r where r: "roundScreen (playerId p) (state g) = Inr v" "js_nth (rounds g) (currentRound g) = Some r"
      using shown by (auto simp: stage_screen_def dest!: spec [of _ "playerId p"])
    obtain b ps where b: "players g = b # ps" using assms(5) by (cases "players g") auto
    have rd: "js_nth (gd_rounds (state g)) (currentRound g) = Some (round_state r)"
      using r(2) by (auto simp: js_nth_def state_def split: if_splits)
    have "gd_currentRound (state g) = Some (currentRound g)" "gd_players (state g) = b # ps" by (simp_all add: state_def b)
    from playing_page [OF assms(4) this(1) rd this(2)] show ?thesis using 3 by (auto simp: stage_screen_def b)
  qed
qed

lemma sample_started_state:
  "case getGame ''g0'' (sw sample_started) of
     Inr i \<Rightarrow> gd_rounds (state (objs (sw sample_started) ! i)) = map round_state sample_rounds
       \<and> players (objs (sw sample_started) ! i) = sample_players
   | Inl _ \<Rightarrow> False"
  by code_simp

theorem pages_drawn_witness:
  "\<exists>i. getGame ''g0'' (sw sample_started) = Inr i
    \<and> (case stage_screen (objs (sw sample_started) ! i) of
         Lobby gd \<Rightarrow> \<exists>n. game_page 0 None False ''bob'' (Lobby gd) = Inr n | _ \<Rightarrow> True)"
proof -
  obtain i where i: "getGame ''g0'' (sw sample_started) = Inr i"
    "gd_rounds (state (objs (sw sample_started) ! i)) = map round_state sample_rounds"
    "players (objs (sw sample_started) ! i) = sample_players"
    using sample_started_state by (auto split: sum.splits)
  have "showable (state (objs (sw sample_started) ! i))"
    by (simp add: showable_def i(2) sample_rounds_def round_state_def new_ButtonRound_def new_SingleRound_def new_Round_def)
  moreover have "sample_players ! 1 = \<lparr>playerId = ''bob'', ready = False\<rparr>" by (simp add: sample_players_def)
  ultimately show ?thesis
    using pages_drawn [OF sample_reaches i(1) refl, of "sample_players ! 1" 0 None False] i(1,3)
    by (auto simp: sample_players_def split: screen.splits)
qed

text \<open>
  C24. What blue says is what counts. In every round of every shipped schedule blue's page has the three
  options of a question, one beside each colour, red's page the three colours, and the answer red's button
  sends is counted as right, by the score the client shows and by the server's round made from the entry,
  exactly when the option blue sees beside its colour is the right one.
\<close>

theorem blue_tells_red:
  assumes "s \<in> set shipped" and "k < length s"
  shows "\<exists>q opts blue red. getEquation draw (int k) (s ! k) = Some q \<and> mset opts = mset (options q)
    \<and> buttonRound draw (int k) (s ! k) True = Inr blue \<and> buttonRound draw (int k) (s ! k) False = Inr red
    \<and> map text_of (of_class ''ButtonSolutionDiv'' blue) = map (\<lambda>j. opts ! j @ color_text (int j)) [0, 1, 2]
    \<and> clicks red = map (\<lambda>j. (color_text (int j), DoAnswer \<lparr>a_round = int k, a_value = Some (JNum (int j))\<rparr>)) [0, 1, 2]
    \<and> (\<forall>j < 3. answer_correct ((s ! k)\<lparr>rd_answer := Some (JNum (int j))\<rparr>) \<longleftrightarrow> opts ! j = eq_answer q)
    \<and> (\<exists>r. createRound (s ! k) = Inr r \<and> (\<forall>j < 3.
          fst (onAnswer moment \<lparr>a_round = int k, a_value = Some (JNum (int j))\<rparr> r) = 1 \<longleftrightarrow> opts ! j = eq_answer q))"
proof -
  have mem: "s ! k \<in> set s" using assms(2) by simp
  obtain sol where d: "rd_solution (s ! k) = SNum sol" "rd_options (s ! k) = Some [0, 1, 2]" "0 \<le> sol" "sol < 3"
      "rd_name (s ! k) = Button"
    using shipped_solution [OF assms(1) mem] by blast
  have k: "k < length equations" using shipped_lengths [OF assms(1)] assms(2) by simp
  have q: "getEquation draw (int k) (s ! k) = Some (equations ! k)" using k d(5) by (simp add: getEquation_def)
  have good: "good_equation (equations ! k)" using equations_good(1) k nth_mem by blast
  obtain opts blue where o: "mset opts = mset (options (equations ! k))"
      "\<forall>j < 3. opts ! j = eq_answer (equations ! k) \<longleftrightarrow> int j = sol"
      "buttonRound draw (int k) (s ! k) True = Inr blue"
      "map text_of (of_class ''ButtonSolutionDiv'' blue) = map (\<lambda>j. opts ! j @ color_text (int j)) [0, 1, 2]"
    using blue_round [OF q good d(1,3,4)] by blast
  obtain red where red: "buttonRound draw (int k) (s ! k) False = Inr red" "clicks red = red_clicks (int k)"
    using red_round [OF d(2)] by blast
  have "answer_correct ((s ! k)\<lparr>rd_answer := Some (JNum (int j))\<rparr>) \<longleftrightarrow> opts ! j = eq_answer (equations ! k)" if "j < 3" for j
    using o(2) that d(1) by (auto simp: answer_correct_def)
  moreover obtain r where r: "createRound (s ! k) = Inr r" "made_from (s ! k) r"
    using playable_created [OF shipped_playable [OF assms(1) mem]] by blast
  have "fst (onAnswer moment \<lparr>a_round = int k, a_value = Some (JNum (int j))\<rparr> r) = 1 \<longleftrightarrow> opts ! j = eq_answer (equations ! k)"
    if "j < 3" for j
    using r(2) d(1) o(2) that by (auto simp: made_from_def)
  ultimately show ?thesis using q o red r(1) by (intro exI conjI) (auto simp: red_clicks_def)
qed

theorem blue_tells_red_witness:
  "\<exists>blue red. buttonRound 0 0 (gameSchedule0 ! 0) True = Inr blue \<and> buttonRound 0 0 (gameSchedule0 ! 0) False = Inr red"
  using blue_tells_red [of gameSchedule0 0 0 1000] by (fastforce simp: shipped_def schedule_defs)

text \<open>
  C25. Red's page says nothing of what red has to find out: before the review a player who is not blue is
  shown exactly what the state would show with the solutions of the unanswered rounds taken out.
\<close>

theorem red_page_hides_solution:
  assumes "gd_players gd = b # ps" and "pid \<noteq> playerId b" and "gd_endTime gd = None"
  shows "game_page draw clk slid pid (game_screen (client_on (CState (hide_solutions gd)) c)) =
    game_page draw clk slid pid (game_screen (client_on (CState gd) c))"
  using playing_hides [OF assms(1,2)] lobby_hides assms(3)
  by (auto simp: game_screen_def split: option.split)

theorem red_page_hides_solution_witness:
  "hide_solutions (state (fst sample_running)) \<noteq> state (fst sample_running)
   \<and> game_page 0 None False ''bob'' (Playing (hide_solutions (state (fst sample_running)))) =
     game_page 0 None False ''bob'' (Playing (state (fst sample_running)))"
proof -
  let ?gd = "state (fst sample_running)"
  have "players (fst sample_running) = [\<lparr>playerId = ''ann'', ready = True\<rparr>, \<lparr>playerId = ''bob'', ready = True\<rparr>]"
    by code_simp
  then have ps: "gd_players ?gd = \<lparr>playerId = ''ann'', ready = True\<rparr> # [\<lparr>playerId = ''bob'', ready = True\<rparr>]"
    by (simp add: state_def)
  have "gd_endTime ?gd = None" "gd_startTime ?gd = Some 1000" by (simp_all add: state_def sample_running_fields)
  then have "game_page 0 None False ''bob'' (Playing (hide_solutions ?gd)) = game_page 0 None False ''bob'' (Playing ?gd)"
    using red_page_hides_solution [OF ps, of "''bob''" 0 None False "client_on CConnect client_init"]
    by (simp add: game_screen_def client_init_def)
  moreover have "hide_solutions ?gd \<noteq> ?gd"
    by (simp add: hide_solutions_def hide_solution_def state_def sample_running_fields round_state_def sample_rounds_def
        new_ButtonRound_def new_SingleRound_def new_Round_def)
  ultimately show ?thesis by simp
qed

text \<open>
  C29. From the server's sessions to the screen of one of them. The home screen of an administrator lists
  exactly the rows of the table, a click on the row of a session leads to the screen of that id, and
  this shows, once its two answers have come, the participants and the recordings of that session and a
  button that asks for its removal.
\<close>

theorem administrator_finds_session:
  assumes "server_reaches w0 s" and "x \<in> set (t_session (db (sw s)))"
    and "CHR ''?'' \<notin> set (stringify (JObj [(''sessionId'', JNum (sessionId x))]))"
    and "parse (dec (stringify (JObj [(''sessionId'', JNum (sessionId x))]))) = Inr (JObj [(''sessionId'', JNum (sessionId x))])"
  shows "\<exists>msg n params. sent (admin_get_sessions sk s) = sent s @ [msg]
    \<and> home_screen_page (fetchSessions (getSessions_ack (wire (ack_args extra msg))) home_init) = Inr [n]
    \<and> map (map text_of) (map (of_tag ''td'') (tl (of_tag ''tr'' n))) = map session_texts (t_session (db (sw s)))
    \<and> (concat (session_texts x), GoTo ''#session'' params) \<in> set (clicks n)
    \<and> mapR shown_route (admin_onHashChange dec parse (goto ''#session'' (stringify params)) route_init) = Inr (SessionRoute (JNum (sessionId x)))
    \<and> (\<exists>c li b. session_page (populateSessionData 0 (getSessionData (sessionId x) (wire (ack_args extra msg)))
          (populateRecordings 0 (recordings_res extra (AckRecordings sk recs)) (screen_mount (sessionId x)))) = Inr [c, li, b]
        \<and> text_of c = ''Blue: '' @ blueParticipant x @ ''Red: '' @ redParticipant x
        \<and> text_of li = concat (map (\<lambda>r. fst r @ ''play/pause0'') recs)
        \<and> clicks b = [(''Delete session'', AskDelete (Some (JNum (sessionId x))))])"
proof -
  have inv: "db_works (sw s)" "distinct (map sessionId (t_session (db (sw s))))"
    using server_reaches_inv [OF assms(1)] by (auto simp: server_inv_def db_ok_def)
  let ?msg = "AckSessions sk (t_session (db (sw s)))"
  obtain n where n: "home_screen_page (fetchSessions (getSessions_ack (wire (ack_args extra ?msg))) home_init) = Inr [n]"
    "clicks n = (''Create Session'', GoTo ''#create_pair'' (JObj [])) # map row_click (t_session (db (sw s)))"
    "map (map text_of) (map (of_tag ''td'') (tl (of_tag ''tr'' n))) = map session_texts (t_session (db (sw s)))"
    using home_lists_sessions [OF inv(1), of sk extra home_init] get_sessions_sends [OF inv(1), of sk] by auto
  have click: "(concat (session_texts x), GoTo ''#session'' (JObj [(''sessionId'', JNum (sessionId x))])) \<in> set (clicks n)"
    using assms(2) row_click_def [of x] unfolding n(2) by force
  show ?thesis
    by (rule exI [of _ ?msg], rule exI [of _ n], rule exI [of _ "JObj [(''sessionId'', JNum (sessionId x))]"], intro conjI,
        rule get_sessions_sends [OF inv(1)], rule n(1), rule n(3), rule click,
        rule row_to_session [where stringify = stringify and dec = dec and parse = parse and r = route_init, OF assms(3,4)])
       (use session_page_drawn [where extra = extra and extra' = extra and sk = sk and rs = recs,
         OF assms(2) inv(2) refl disjI1 [OF refl] disjI2 [OF refl]] in blast)
qed

theorem administrator_finds_session_witness:
  "\<exists>c li b. session_page (populateSessionData 0 (getSessionData 7 (wire (ack_args [] (AckSessions 2 [sample_session]))))
      (populateRecordings 0 (recordings_res [] (AckRecordings 2 [(''a.wav'', ''/rec/a.wav'')])) (screen_mount 7))) = Inr [c, li, b]
    \<and> clicks b = [(''Delete session'', AskDelete (Some (JNum 7)))]"
proof -
  have x: "sample_session \<in> set (t_session (db (sw sample_started)))" "sessionId sample_session = 7"
    by (simp_all add: sample_started_tables sample_session_def)
  have "sent (admin_get_sessions 2 sample_started) = sent sample_started @ [AckSessions 2 [sample_session]]"
    using get_sessions_sends [of sample_started 2] server_reaches_inv [OF sample_reaches]
    by (simp add: server_inv_def sample_started_tables)
  then show ?thesis
    using administrator_finds_session [OF sample_reaches x(1), of "\<lambda>_. ''x''" "\<lambda>_. Inr (JObj [(''sessionId'', JNum 7)])" id
        2 "[]" "[(''a.wav'', ''/rec/a.wav'')]"]
    by (auto simp: x(2))
qed

section \<open>The build of the players' client\<close>

text \<open>
  C34. The build copies its static files in any order. It ends after finitely many steps, and unless
  another step is possible it has done everything: every entry of the static directories is in the build
  directory, whatever else the bundler put there is left alone, and in the page every variable has the
  value of the environment and nothing else has changed.
\<close>

theorem build_result:
  assumes "(build_step esbuild src dst m)\<^sup>*\<^sup>* (build_start fs) a"
    and "ready_for src dst (esbuild fs)" and "build_env env = Inr m"
    and "map_of src ''index.html'' = Some (SrcFile (fill Map.empty ps))"
    and "\<forall>t. Text t \<in> set ps \<longrightarrow> plain_text t" and "part_vars ps \<subseteq> {''$BASE_HREF'', ''$DFS_WS_HOSTNAME''}"
    and "\<forall>(k, v) \<in> set m. plain_text v"
  shows "wfp (\<lambda>b a. build_step esbuild src dst m a b)
    \<and> ((\<exists>b. build_step esbuild src dst m a b)
       \<or> a = (Replaced, \<lparr>files = (overlaid (wanted src dst) (esbuild fs))(dst @ [''index.html''] \<mapsto> IsFile (fill (map_of m) ps)),
                tasks = [], refused = {}, stopped = False\<rparr>))"
proof -
  have "build_ok esbuild src dst m (fill Map.empty ps) fs a" by (rule build_run_ok [OF assms(1,2,4)])
  moreover have "replaceInText m (fill Map.empty ps) = fill (map_of m) ps"
    by (rule env_page [OF assms(3,5,6,7)])
  ultimately show ?thesis using build_at_end build_ends by metis
qed

text \<open>A page with its style sheet and one picture, and a bundler that writes one script.\<close>

definition sample_page :: "part list" where
  "sample_page = [Text ''<base href='', Var ''$BASE_HREF'', Text ''> wss://'', Var ''$DFS_WS_HOSTNAME'',
     Text '' https://'', Var ''$DFS_WS_HOSTNAME'']"

definition sample_src :: "(string \<times> tree) list" where
  "sample_src = [(''index.html'', SrcFile (fill Map.empty sample_page)), (''main.css'', SrcFile ''body''),
     (''textures'', SrcDir [(''wall.png'', SrcFile ''PNG'')]), (''js'', SrcDir [])]"

definition sample_bundler :: "files \<Rightarrow> files" where
  "sample_bundler fs = fs([''build''] \<mapsto> IsDir, [''build'', ''main.js''] \<mapsto> IsFile ''script'')"

definition sample_disk :: files where
  "sample_disk = [[] \<mapsto> IsDir]"

definition sample_vars :: "(string \<times> string) list" where
  "sample_vars = [(''$BASE_HREF'', ''./''), (''$DFS_WS_HOSTNAME'', ''localhost'')]"

lemma sample_ready: "ready_for sample_src [''build''] (sample_bundler sample_disk)"
proof -
  have "same_kind (wanted sample_src [''build'']) (sample_bundler sample_disk)"
    unfolding same_kind_def
  proof (intro allI impI)
    fix p e e'
    assume w: "wanted sample_src [''build''] p = Some e" and f: "sample_bundler sample_disk p = Some e'"
    from w obtain n q t where "p = [''build''] @ n # q" "n \<in> set statics" by (rule wanted_cases)
    then show "e = IsDir \<longleftrightarrow> e' = IsDir" using f
      by (auto simp: sample_bundler_def sample_disk_def statics_def split: if_splits)
  qed
  then show ?thesis
    by (auto simp: ready_for_def dirs_ok_def parent_is_dir_def sample_bundler_def sample_disk_def statics_def sample_src_def
        split: if_splits)
qed

theorem build_result_witness:
  "\<exists>a. (build_step sample_bundler sample_src [''build''] sample_vars)\<^sup>*\<^sup>* (build_start sample_disk) a
     \<and> files (snd a) [''build'', ''index.html''] = Some (IsFile ''<base href=./> wss://localhost https://localhost'')
     \<and> files (snd a) [''build'', ''textures'', ''wall.png''] = Some (IsFile ''PNG'')
     \<and> files (snd a) [''build'', ''main.js''] = Some (IsFile ''script'')"
proof -
  obtain a where run: "(build_step sample_bundler sample_src [''build''] sample_vars)\<^sup>*\<^sup>* (build_start sample_disk) a"
    and over: "\<nexists>b. build_step sample_bundler sample_src [''build''] sample_vars a b"
    using build_reaches_end by blast
  have vars: "build_env (map_of [(''DFS_WS_HOSTNAME'', ''localhost''), (''BASE_HREF'', ''./'')]) = Inr sample_vars"
    and page: "map_of sample_src ''index.html'' = Some (SrcFile (fill Map.empty sample_page))"
    and texts: "\<forall>t. Text t \<in> set sample_page \<longrightarrow> plain_text t" "\<forall>(k, v) \<in> set sample_vars. plain_text v"
    and names: "part_vars sample_page \<subseteq> {''$BASE_HREF'', ''$DFS_WS_HOSTNAME''}"
    by (auto simp: build_env_def sample_vars_def sample_src_def sample_page_def plain_text_def part_vars_def)
  have files: "files (snd a) = (overlaid (wanted sample_src [''build'']) (sample_bundler sample_disk))
      ([''build''] @ [''index.html''] \<mapsto> IsFile (fill (map_of sample_vars) sample_page))"
    using build_result [OF run sample_ready vars page texts(1) names texts(2)] over by (metis copying.select_convs(1) snd_conv)
  show ?thesis
    by (rule exI [of _ a], simp add: run files)
       (simp add: sample_vars_def sample_page_def overlaid_def wanted_def sample_src_def statics_def sample_bundler_def)
qed

text \<open>
  C35. The order matters where nobody waits for a copy, whatever the sources, the bundler and the variables.
  The build can be over with anything in the directory of textures still as the bundler left it: the promise
  of \<open>copyStatic\<close> does not wait for what is in a directory. And \<open>serve.ts\<close>, which loads the build and copies
  once more, can end, with no step left and nothing failed, with the page as it is in the sources: its own copy
  comes after the replacement of the variables.
\<close>

theorem copies_race:
  assumes "ready_for src dst (esbuild fs)" and "map_of src ''index.html'' = Some (SrcFile page)"
    and "map_of src ''textures'' = Some (SrcDir es)" and "(n, t) \<in> set es"
  shows "(\<exists>s. (build_step esbuild src dst m)\<^sup>*\<^sup>* (build_start fs) (Replaced, s) \<and> \<not> stopped s
      \<and> tasks s \<noteq> [] \<and> files s (dst @ [''textures'', n]) = esbuild fs (dst @ [''textures'', n]))
    \<and> (\<exists>s. (build_step esbuild src dst m)\<^sup>*\<^sup>* (serve_start src dst fs) (Replaced, s) \<and> \<not> stopped s
      \<and> (\<nexists>b. build_step esbuild src dst m (Replaced, s) b) \<and> files s (dst @ [''index.html'']) = Some (IsFile page))"
  using built_unfinished [where src = src and dst = dst and esbuild = esbuild and fs = fs and m = m, OF assms]
    served_unreplaced [where src = src and dst = dst and esbuild = esbuild and fs = fs and m = m, OF assms(1,2)] by blast

theorem copies_race_witness:
  "\<exists>s. (build_step sample_bundler sample_src [''build''] sample_vars)\<^sup>*\<^sup>* (serve_start sample_src [''build''] sample_disk) (Replaced, s)
    \<and> (\<nexists>b. build_step sample_bundler sample_src [''build''] sample_vars (Replaced, s) b)
    \<and> files s [''build'', ''index.html''] = Some (IsFile (fill Map.empty sample_page))"
  using copies_race [where esbuild = sample_bundler and fs = sample_disk and m = sample_vars, OF sample_ready,
      of "fill Map.empty sample_page" "[(''wall.png'', SrcFile ''PNG'')]" "''wall.png''" "SrcFile ''PNG''"]
  by (simp add: sample_src_def) blast

text \<open>
  The administrator's client: the page is copied exactly when the build directory is there. Otherwise
  nothing is, the directory is not made either, and the promise is rejected; a promise that is kept
  never brings an error to print.
\<close>

lemma admin_copy:
  assumes "dirs_ok fs"
  shows "admin_copyStatic src dst fs =
    (case map_of src ''index.html'' of
       None \<Rightarrow> (Inl ''ENOENT'', fs)
     | Some (SrcDir _) \<Rightarrow> (Inl ''EISDIR'', fs)
     | Some (SrcFile c) \<Rightarrow>
         (case copyFile c (dst @ [''index.html'']) fs of Inl m \<Rightarrow> (Inl m, fs) | Inr fs' \<Rightarrow> (Inr [], fs')))"
proof (cases "map_of src ''index.html''")
  case None
  then show ?thesis by (simp add: admin_copyStatic_def copyStaticFile_def)
next
  case (Some t)
  show ?thesis
  proof (cases t)
    case (SrcDir es)
    then show ?thesis by (simp add: Some admin_copyStatic_def copyStaticFile_def)
  next
    case (SrcFile c)
    show ?thesis
    proof (cases "copyFile c (dst @ [''index.html'']) fs")
      case (Inl m)
      then show ?thesis by (simp add: Some SrcFile admin_copyStatic_def copyStaticFile_def)
    next
      case (Inr fs')
      then have "fs dst = Some IsDir" "fs (dst @ [''index.html'']) \<noteq> Some IsDir"
        by (auto simp: copyFile_def parent_is_dir_def split: if_splits)
      from copyStaticFile_ok [OF assms this, of c] copyFile_ok [OF assms, of "dst @ [''index.html'']" c] this Inr
      show ?thesis by (simp add: Some SrcFile admin_copyStatic_def isError_def parent_is_dir_def)
    qed
  qed
qed

text \<open>The variables the build asks for are not all the client needs.\<close>

lemma build_without_port:
  "(\<exists>m. build_env (game_env(''DFS_WS_PORT'' := None)) = Inr m)
   \<and> player_socket (game_env(''DFS_WS_PORT'' := None)) = Inl ''Missing env variables... ''"
  by (simp add: build_env_def game_env_def player_socket_def has_text_def)

section \<open>The calibration page\<close>

text \<open>
  C36. A user who does not press stop before the browser has answered, in a browser where the set-up of the
  recorder does not raise: at most one stream of the microphone is live, none while the page can record,
  exactly one of the two buttons is enabled, and stopping raises nothing and leaves no stream live. (A set-up
  that raises leaves its stream live with the record button enabled.)
\<close>

theorem patient_user_recordings:
  assumes "(page_step True True)\<^sup>*\<^sup>* page_loaded p"
  shows "length (filter id (live p)) \<le> 1 \<and> (stopDisabled p \<longleftrightarrow> \<not> recordDisabled p)
    \<and> (True \<in> set (live p) \<longrightarrow> recordDisabled p)
    \<and> (\<not> stopDisabled p \<longrightarrow> asked p = 0 \<longrightarrow>
         fst (stopRecording p) = None \<and> True \<notin> set (live (snd (stopRecording p))))"
proof -
  have phases: "idle_page p \<or> waiting_page p \<or> recording_page p" by (rule patient_run [OF assms])
  then show ?thesis using one_live [of p] recording_stops [of p]
    by (auto simp: page_phases none_live)
qed

definition recording_sample :: page where
  "recording_sample = stream_given SetupWorks (startRecording page_loaded)"

lemma recording_sample_reached: "(page_step b k)\<^sup>*\<^sup>* page_loaded recording_sample"
proof -
  have "page_step b k page_loaded (startRecording page_loaded)" by (rule press_record) (simp add: page_loaded_def)
  moreover have "page_step b k (startRecording page_loaded) recording_sample"
    unfolding recording_sample_def by (rule given) (simp_all add: page_loaded_def page_defs)
  ultimately show ?thesis by (meson converse_rtranclp_into_rtranclp rtranclp.rtrancl_refl)
qed

theorem patient_user_recordings_witness:
  "live recording_sample = [True] \<and> live (snd (stopRecording recording_sample)) = [False]
   \<and> fst (stopRecording recording_sample) = None"
  using patient_user_recordings [OF recording_sample_reached [of True True]]
  by (simp add: recording_sample_def page_loaded_def page_defs)

text \<open>
  A user who records, stops, records again and presses stop before the browser has answered: the page
  stops the old stream and can record although the new stream is still to come. The user presses record.
\<close>

definition hasty_page :: page where
  "hasty_page =
     stream_given SetupWorks (startRecording (stream_given SetupWorks (snd (stopRecording (startRecording
       (snd (stopRecording recording_sample)))))))"

lemma hasty_reached: "(page_step False True)\<^sup>*\<^sup>* page_loaded hasty_page"
proof -
  let ?p1 = "snd (stopRecording recording_sample)"
  let ?p2 = "startRecording ?p1"
  let ?p3 = "snd (stopRecording ?p2)"
  let ?p4 = "stream_given SetupWorks ?p3"
  note defs = recording_sample_def page_loaded_def page_defs
  have "page_step False True recording_sample ?p1" by (rule press_stop) (simp_all add: defs)
  moreover have "page_step False True ?p1 ?p2" by (rule press_record) (simp add: defs)
  moreover have "page_step False True ?p2 ?p3" by (rule press_stop) (simp_all add: defs)
  moreover have "page_step False True ?p3 ?p4" by (rule given) (simp_all add: defs)
  moreover have "page_step False True ?p4 (startRecording ?p4)" by (rule press_record) (simp add: defs)
  moreover have "page_step False True (startRecording ?p4) hasty_page"
    unfolding hasty_page_def by (rule given) (simp_all add: defs)
  ultimately show ?thesis using recording_sample_reached [of False True] by (meson rtranclp.rtrancl_into_rtrancl)
qed

text \<open>
  C37. After that the second stream of the microphone is live for good: whatever the user does, the page
  does not keep it any more and never stops it.
\<close>

theorem microphone_left_on:
  assumes "(page_step patient works)\<^sup>*\<^sup>* hasty_page q"
  shows "(page_step False True)\<^sup>*\<^sup>* page_loaded hasty_page \<and> 1 < length (live q) \<and> live q ! 1 \<and> gumStream q \<noteq> Some 1"
proof -
  have "1 < length (live hasty_page) \<and> live hasty_page ! 1 \<and> gumStream hasty_page \<noteq> Some 1"
    by (simp add: hasty_page_def recording_sample_def page_loaded_def page_defs)
  then show ?thesis using leaked_run [OF assms] hasty_reached by blast
qed

theorem microphone_left_on_witness:
  "live (snd (stopRecording hasty_page)) ! 1 \<and> recordDisabled (snd (stopRecording hasty_page)) = False"
proof -
  have "page_step True True hasty_page (snd (stopRecording hasty_page))"
    by (rule press_stop) (simp_all add: hasty_page_def recording_sample_def page_loaded_def page_defs)
  then have "(page_step True True)\<^sup>*\<^sup>* hasty_page (snd (stopRecording hasty_page))" by simp
  from microphone_left_on [OF this] show ?thesis
    by (simp add: hasty_page_def recording_sample_def page_loaded_def page_defs)
qed

end
